(* ===== verification/Prelude.thy ===== *)
theory Prelude
  imports Main "HOL-Library.Word" "HOL-Library.List_Lexorder" "HOL-Library.Char_ord"
begin

text \<open>
  Shared vocabulary of the development.

  \<^item> C++ strings are byte sequences: \<^typ>\<open>string\<close> is a list of 8-bit characters, and the
    comparison of two strings (the order of \<^verbatim>\<open>std::map\<close> keys) is the lexicographic order on
    unsigned bytes that the library orders provide.
  \<^item> \<^verbatim>\<open>uint64_t\<close>, \<^verbatim>\<open>size_t\<close> and \<^verbatim>\<open>uint32_t\<close> values on which the code computes are words.
    Sizes of in-memory containers are \<^typ>\<open>nat\<close>.
  \<^item> The pieces of the C++ standard library that the sources call (\<^verbatim>\<open>std::string::find\<close>,
    \<^verbatim>\<open>std::to_string\<close>, \<^verbatim>\<open>std::stoull\<close>, \<^verbatim>\<open>std::map::emplace\<close>, \<^verbatim>\<open>std::getline\<close>) are defined
    here once.
  \<^item> Two interfaces are stated as locales and interpreted by the components: \<open>codec\<close> (an
    encoder and the decoder that undoes it) and \<open>decimal_scan\<close> (a digit loop with an
    overflow guard). A third one, \<open>safe_system\<close>, carries invariants from single steps to
    all reachable states.
\<close>

named_theorems str_simps \<open>rewrite rules of the string helpers\<close>

type_synonym u64 = "64 word"
type_synonym u32 = "32 word"
type_synonym header_list = "(string \<times> string) list"

abbreviation (input) TAB :: char where "TAB \<equiv> CHR 0x09"
abbreviation (input) LF :: char where "LF \<equiv> CHR 0x0A"
abbreviation (input) CR :: char where "CR \<equiv> CHR 0x0D"
abbreviation (input) NUL :: char where "NUL \<equiv> CHR 0x00"
abbreviation (input) SP :: char where "SP \<equiv> CHR 0x20"
abbreviation (input) CRLF :: string where "CRLF \<equiv> [CHR 0x0D, CHR 0x0A]"

section \<open>Bytes and characters\<close>

abbreviation ord :: "char \<Rightarrow> nat" where "ord c \<equiv> of_char c"

definition is_digit :: "char \<Rightarrow> bool" where
  "is_digit c \<longleftrightarrow> 48 \<le> ord c \<and> ord c \<le> 57"

definition is_upper :: "char \<Rightarrow> bool" where
  "is_upper c \<longleftrightarrow> 65 \<le> ord c \<and> ord c \<le> 90"

definition is_lower :: "char \<Rightarrow> bool" where
  "is_lower c \<longleftrightarrow> 97 \<le> ord c \<and> ord c \<le> 122"

definition is_alnum :: "char \<Rightarrow> bool" where
  "is_alnum c \<longleftrightarrow> is_upper c \<or> is_lower c \<or> is_digit c"

definition is_lower_hex :: "char \<Rightarrow> bool" where
  "is_lower_hex c \<longleftrightarrow> is_digit c \<or> (97 \<le> ord c \<and> ord c \<le> 102)"

definition digit_val :: "char \<Rightarrow> nat" where
  "digit_val c = ord c - 48"

definition digit_char :: "nat \<Rightarrow> char" where
  "digit_char d = char_of (48 + d)"

definition lower_char :: "char \<Rightarrow> char" where
  "lower_char c = (if is_upper c then char_of (ord c + 32) else c)"

definition lower_ascii :: "string \<Rightarrow> string" where
  "lower_ascii s = map lower_char s"

section \<open>Standard string operations\<close>

fun find_char :: "char \<Rightarrow> string \<Rightarrow> nat option" where
  "find_char c [] = None"
| "find_char c (x # xs) = (if x = c then Some 0 else map_option Suc (find_char c xs))"

definition starts_with :: "string \<Rightarrow> string \<Rightarrow> bool" where
  "starts_with p s \<longleftrightarrow> take (length p) s = p"

fun find_sub :: "string \<Rightarrow> string \<Rightarrow> nat option" where
  "find_sub p [] = (if p = [] then Some 0 else None)"
| "find_sub p (x # xs) = (if starts_with p (x # xs) then Some 0 else map_option Suc (find_sub p xs))"

definition ends_with :: "string \<Rightarrow> string \<Rightarrow> bool" where
  "ends_with p s \<longleftrightarrow> length p \<le> length s \<and> drop (length s - length p) s = p"

fun split_on :: "char \<Rightarrow> string \<Rightarrow> string list" where
  "split_on c [] = [[]]"
| "split_on c (x # xs) =
     (if x = c then [] # split_on c xs
      else (case split_on c xs of [] \<Rightarrow> [[x]] | y # ys \<Rightarrow> (x # y) # ys))"

fun join_on :: "char \<Rightarrow> string list \<Rightarrow> string" where
  "join_on c [] = []"
| "join_on c [x] = x"
| "join_on c (x # y # ys) = x @ c # join_on c (y # ys)"

text \<open>\<^verbatim>\<open>std::string::c_str\<close> as seen by a C function: the bytes before the first NUL.\<close>

definition c_str :: "string \<Rightarrow> string" where
  "c_str s = takeWhile (\<lambda>c. c \<noteq> NUL) s"

text \<open>Overwriting part of a buffer, as \<^verbatim>\<open>memcpy\<close> into it does.\<close>

definition poke :: "string \<Rightarrow> nat \<Rightarrow> string \<Rightarrow> string" where
  "poke buf pos bytes = take pos buf @ bytes @ drop (pos + length bytes) buf"

section \<open>Decimal numbers\<close>

definition dec_value_from :: "nat \<Rightarrow> string \<Rightarrow> nat" where
  "dec_value_from n s = foldl (\<lambda>acc c. 10 * acc + digit_val c) n s"

abbreviation dec_value :: "string \<Rightarrow> nat" where
  "dec_value s \<equiv> dec_value_from 0 s"

fun to_string :: "nat \<Rightarrow> string" where
  "to_string n = (if n < 10 then [digit_char n] else to_string (n div 10) @ [digit_char (n mod 10)])"

declare to_string.simps [simp del]

definition to_string_int :: "int \<Rightarrow> string" where
  "to_string_int i = (if i < 0 then CHR ''-'' # to_string (nat (- i)) else to_string (nat i))"

text \<open>A left-to-right scan that stops at the first refusal.\<close>

fun scan :: "('a \<Rightarrow> char \<Rightarrow> 'a option) \<Rightarrow> 'a \<Rightarrow> string \<Rightarrow> 'a option" where
  "scan step a [] = Some a"
| "scan step a (c # cs) = (case step a c of None \<Rightarrow> None | Some b \<Rightarrow> scan step b cs)"

section \<open>\<open>std::stoull\<close> and \<open>std::stol\<close>\<close>

text \<open>
  \<^verbatim>\<open>std::stoull\<close> is \<^verbatim>\<open>strtoull\<close> on \<^verbatim>\<open>c_str()\<close>: leading white space, an optional sign, for base 16 an
  optional \<^verbatim>\<open>0x\<close>, then the longest run of digits. No digits raises \<^verbatim>\<open>invalid_argument\<close>, a
  magnitude of \<open>2^64\<close> or more raises \<^verbatim>\<open>out_of_range\<close> (both are \<^const>\<open>None\<close> here: every caller
  catches everything), and a minus sign negates the value modulo \<open>2^64\<close>. The second component is the
  number of characters consumed.
\<close>

definition is_space :: "char \<Rightarrow> bool" where
  "is_space c \<longleftrightarrow> ord c = 32 \<or> (9 \<le> ord c \<and> ord c \<le> 13)"

definition hex_digit_val :: "char \<Rightarrow> nat option" where
  "hex_digit_val c =
     (if is_digit c then Some (ord c - 48)
      else if 97 \<le> ord c \<and> ord c \<le> 102 then Some (ord c - 87)
      else if 65 \<le> ord c \<and> ord c \<le> 70 then Some (ord c - 55)
      else None)"

definition base_digit :: "nat \<Rightarrow> char \<Rightarrow> nat option" where
  "base_digit b c = (case hex_digit_val c of None \<Rightarrow> None | Some d \<Rightarrow> if d < b then Some d else None)"

fun digit_run :: "nat \<Rightarrow> nat \<Rightarrow> string \<Rightarrow> nat \<times> nat" where
  "digit_run b acc [] = (acc, 0)"
| "digit_run b acc (c # cs) =
     (case base_digit b c of
        None \<Rightarrow> (acc, 0)
      | Some d \<Rightarrow> (let (v, n) = digit_run b (b * acc + d) cs in (v, Suc n)))"

definition skip_sign :: "string \<Rightarrow> bool \<times> string" where
  "skip_sign s = (case s of
      [] \<Rightarrow> (False, [])
    | c # cs \<Rightarrow> if c = CHR ''-'' then (True, cs) else if c = CHR ''+'' then (False, cs) else (False, s))"

definition skip_0x :: "nat \<Rightarrow> string \<Rightarrow> string" where
  "skip_0x b s = (case s of
      z # x # h # _ \<Rightarrow>
        if b = 16 \<and> z = CHR ''0'' \<and> (x = CHR ''x'' \<or> x = CHR ''X'') \<and> base_digit 16 h \<noteq> None
        then drop 2 s else s
    | _ \<Rightarrow> s)"

text \<open>Sign, magnitude and characters consumed; \<^const>\<open>None\<close> when there is no digit.\<close>

definition strto_parse :: "nat \<Rightarrow> string \<Rightarrow> (bool \<times> nat \<times> nat) option" where
  "strto_parse b s =
     (let s1 = dropWhile is_space s;
          (neg, s2) = skip_sign s1;
          s3 = skip_0x b s2;
          (v, n) = digit_run b 0 s3
      in if n = 0 then None else Some (neg, v, (length s - length s3) + n))"

definition stoull :: "nat \<Rightarrow> string \<Rightarrow> (u64 \<times> nat) option" where
  "stoull b s = (case strto_parse b s of
      None \<Rightarrow> None
    | Some (neg, v, pos) \<Rightarrow>
        if 2 ^ 64 \<le> v then None
        else Some (if neg then - word_of_nat v else word_of_nat v, pos))"

definition stol :: "string \<Rightarrow> (int \<times> nat) option" where
  "stol s = (case strto_parse 10 s of
      None \<Rightarrow> None
    | Some (neg, v, pos) \<Rightarrow>
        let i = (if neg then - int v else int v)
        in if i < - (2 ^ 63) \<or> 2 ^ 63 \<le> i then None else Some (i, pos))"

section \<open>Ordered maps\<close>

text \<open>
  \<^verbatim>\<open>std::map\<close> as the association list its iteration yields: keys strictly increasing.
  \<open>emplace\<close> inserts only when the key is absent.
\<close>

fun omap_lookup :: "'k::linorder \<Rightarrow> ('k \<times> 'v) list \<Rightarrow> 'v option" where
  "omap_lookup k [] = None"
| "omap_lookup k ((k', v) # m) = (if k = k' then Some v else omap_lookup k m)"

fun omap_put :: "'k::linorder \<Rightarrow> 'v \<Rightarrow> ('k \<times> 'v) list \<Rightarrow> ('k \<times> 'v) list" where
  "omap_put k v [] = [(k, v)]"
| "omap_put k v ((k', v') # m) =
     (if k < k' then (k, v) # (k', v') # m
      else if k = k' then (k, v) # m
      else (k', v') # omap_put k v m)"

definition omap_emplace :: "'k::linorder \<Rightarrow> 'v \<Rightarrow> ('k \<times> 'v) list \<Rightarrow> ('k \<times> 'v) list \<times> bool" where
  "omap_emplace k v m = (case omap_lookup k m of None \<Rightarrow> (omap_put k v m, True) | Some _ \<Rightarrow> (m, False))"

abbreviation omap_ok :: "('k::linorder \<times> 'v) list \<Rightarrow> bool" where
  "omap_ok m \<equiv> sorted_wrt (<) (map fst m)"

section \<open>Exceptions\<close>

text \<open>A C++ exception that a routine throws, as the left summand of its result.\<close>

datatype cxx_exn = Invalid_argument string | Runtime_error string

type_synonym 'a result = "cxx_exn + 'a"

definition bind_res :: "'a result \<Rightarrow> ('a \<Rightarrow> 'b result) \<Rightarrow> 'b result" where
  "bind_res r f = (case r of Inl e \<Rightarrow> Inl e | Inr x \<Rightarrow> f x)"

section \<open>Step systems\<close>

inductive reach :: "('s \<Rightarrow> bool) \<Rightarrow> ('s \<Rightarrow> 's \<Rightarrow> bool) \<Rightarrow> 's \<Rightarrow> bool"
  for init :: "'s \<Rightarrow> bool" and step :: "'s \<Rightarrow> 's \<Rightarrow> bool" where
  reach_init: "init s \<Longrightarrow> reach init step s"
| reach_step: "reach init step s \<Longrightarrow> step s t \<Longrightarrow> reach init step t"

locale safe_system =
  fixes init :: "'s \<Rightarrow> bool"
    and step :: "'s \<Rightarrow> 's \<Rightarrow> bool"
    and inv :: "'s \<Rightarrow> bool"
  assumes inv_init: "init s \<Longrightarrow> inv s"
    and inv_step: "inv s \<Longrightarrow> step s t \<Longrightarrow> inv t"
begin

lemma reach_inv: "reach init step s \<Longrightarrow> inv s"
  by (induction rule: reach.induct) (auto intro: inv_init inv_step)

lemma reach_inv_next: "reach init step s \<Longrightarrow> step s t \<Longrightarrow> inv s \<and> inv t"
  using reach_inv inv_step by blast

end

lemma bind_res_simps [simp]: "bind_res (Inl e) f = Inl e" "bind_res (Inr x) f = f x"
  by (simp_all add: bind_res_def)

lemma bind_res_Inr: "bind_res r f = Inr y \<longleftrightarrow> (\<exists>x. r = Inr x \<and> f x = Inr y)"
  by (cases r) auto

section \<open>Character lemmas\<close>

lemma ord_lt_256 [simp]: "ord c < 256"
  using nat_of_char_less_256 by simp

lemma ord_inject [simp]: "ord c = ord d \<longleftrightarrow> c = d"
  by simp

lemma ord_char_of: "n < 256 \<Longrightarrow> ord (char_of n) = n"
  by simp

lemma digit_val_lt: "is_digit c \<Longrightarrow> digit_val c < 10"
  by (auto simp: is_digit_def digit_val_def)

lemma is_digit_digit_char [simp]: "d < 10 \<Longrightarrow> is_digit (digit_char d)"
  by (simp add: is_digit_def digit_char_def)

lemma digit_val_digit_char [simp]: "d < 10 \<Longrightarrow> digit_val (digit_char d) = d"
  by (simp add: digit_val_def digit_char_def)

lemma digit_char_digit_val: "is_digit c \<Longrightarrow> digit_char (digit_val c) = c"
  by (simp add: is_digit_def digit_char_def digit_val_def)

lemma lower_char_idem [simp]: "lower_char (lower_char c) = lower_char c"
  by (auto simp: lower_char_def is_upper_def)

lemma lower_ascii_idem [simp]: "lower_ascii (lower_ascii s) = lower_ascii s"
  by (simp add: lower_ascii_def)

lemma length_lower_ascii [simp]: "length (lower_ascii s) = length s"
  by (simp add: lower_ascii_def)

section \<open>String lemmas\<close>

lemma find_char_None [str_simps]: "find_char c s = None \<longleftrightarrow> c \<notin> set s"
  by (induction s) auto

lemma find_char_Some:
  "find_char c s = Some i \<longleftrightarrow> i < length s \<and> s ! i = c \<and> c \<notin> set (take i s)"
proof (induction s arbitrary: i)
  case Nil
  then show ?case by simp
next
  case (Cons x xs)
  then show ?case by (cases i) auto
qed

lemma find_char_split:
  "find_char c s = Some i \<Longrightarrow> s = take i s @ c # drop (Suc i) s \<and> c \<notin> set (take i s)"
  by (auto simp: find_char_Some id_take_nth_drop)

lemma find_char_append [str_simps]: "c \<notin> set xs \<Longrightarrow> find_char c (xs @ c # ys) = Some (length xs)"
  by (induction xs) auto

lemma starts_with_append [simp]: "starts_with p (p @ s)"
  by (simp add: starts_with_def)

lemma starts_with_iff: "starts_with p s \<longleftrightarrow> (\<exists>t. s = p @ t)"
  unfolding starts_with_def by (metis append_eq_conv_conj append_take_drop_id)

lemma ends_with_iff: "ends_with p s \<longleftrightarrow> (\<exists>t. s = t @ p)"
proof
  assume "ends_with p s"
  then show "\<exists>t. s = t @ p"
    unfolding ends_with_def by (metis append_take_drop_id)
next
  assume "\<exists>t. s = t @ p"
  then show "ends_with p s"
    by (auto simp: ends_with_def)
qed

lemma find_sub_None: "find_sub p s = None \<longleftrightarrow> (\<forall>a b. s \<noteq> a @ p @ b)"
proof (induction s)
  case Nil
  then show ?case by auto
next
  case (Cons x xs)
  show ?case
  proof
    assume "find_sub p (x # xs) = None"
    then have "\<not> starts_with p (x # xs)" and "find_sub p xs = None"
      by (auto split: if_splits)
    with Cons.IH have "\<And>a b. x # xs \<noteq> a @ p @ b"
      by (metis append_Cons append_Nil list.exhaust list.inject starts_with_append)
    then show "\<forall>a b. x # xs \<noteq> a @ p @ b" by blast
  next
    assume *: "\<forall>a b. x # xs \<noteq> a @ p @ b"
    then have "\<not> starts_with p (x # xs)"
      by (metis append_Nil starts_with_iff)
    moreover have "find_sub p xs = None"
      using * Cons.IH by (metis append_Cons)
    ultimately show "find_sub p (x # xs) = None" by simp
  qed
qed

lemma find_sub_Some:
  "find_sub p s = Some i \<Longrightarrow> s = take i s @ p @ drop (i + length p) s \<and> i + length p \<le> length s"
proof (induction s arbitrary: i)
  case Nil
  then show ?case by (auto split: if_splits)
next
  case (Cons x xs)
  show ?case
  proof (cases "starts_with p (x # xs)")
    case True
    with Cons.prems have "i = 0" by simp
    with True show ?thesis
      by (metis add_0 append.left_neutral append_eq_conv_conj le_add1 length_append starts_with_iff
          take_0)
  next
    case False
    with Cons.prems obtain j where "find_sub p xs = Some j" and "i = Suc j" by auto
    with Cons.IH show ?thesis by auto
  qed
qed

lemma find_sub_first:
  "find_sub p s = Some i \<Longrightarrow> j < i \<Longrightarrow> \<not> starts_with p (drop j s)"
proof (induction s arbitrary: i j)
  case Nil
  then show ?case by (auto split: if_splits)
next
  case (Cons x xs)
  then show ?case by (cases j) (auto split: if_splits)
qed

lemma starts_with_take: "starts_with p s \<Longrightarrow> starts_with p (s @ t)"
  by (auto simp: starts_with_iff)

lemma find_sub_extend: "find_sub p s = Some i \<Longrightarrow> find_sub p (s @ t) = Some i"
proof (induction s arbitrary: i)
  case Nil
  then show ?case by (cases t) (auto simp: starts_with_def split: if_splits)
next
  case (Cons x xs)
  show ?case
  proof (cases "starts_with p (x # xs)")
    case True
    with Cons.prems starts_with_take [OF True, of t] show ?thesis by simp
  next
    case False
    with Cons.prems obtain j where j: "find_sub p xs = Some j" "i = Suc j" by auto
    have "length p \<le> length xs" using find_sub_Some [OF j(1)] by auto
    then have "starts_with p (x # xs @ t) \<longleftrightarrow> starts_with p (x # xs)"
      by (simp add: starts_with_def take_Cons' split: if_splits)
    with False j Cons.IH show ?thesis by simp
  qed
qed

lemma find_sub_shrink:
  assumes "find_sub p (s @ t) = Some i" and "i + length p \<le> length s"
  shows "find_sub p s = Some i"
proof -
  obtain a b where ab: "s @ t = a @ p @ b" "length a = i"
    using find_sub_Some [OF assms(1)] by (metis length_take add_leD1 min.absorb2)
  have "s = take (length s) (s @ t)" by simp
  also have "\<dots> = a @ p @ take (length s - i - length p) b"
    unfolding ab(1) using ab(2) assms(2) by simp
  finally have "s = a @ p @ take (length s - i - length p) b" .
  then have "find_sub p s \<noteq> None" by (auto simp: find_sub_None)
  then show ?thesis using assms(1) find_sub_extend by fastforce
qed

text \<open>A pattern is found right behind a prefix that does not contain its first character.\<close>

lemma find_sub_append:
  "c \<notin> set xs \<Longrightarrow> find_sub (c # p) (xs @ (c # p) @ ys) = Some (length xs)"
proof (induction xs)
  case Nil
  then show ?case by (simp add: starts_with_def)
next
  case (Cons x xs)
  then have "\<not> starts_with (c # p) ((x # xs) @ (c # p) @ ys)" by (auto simp: starts_with_iff)
  with Cons show ?case by simp
qed

lemma split_on_not_Nil [simp]: "split_on c s \<noteq> []"
  by (induction s) (auto split: list.splits)

lemma split_on_no_sep: "c \<notin> set s \<Longrightarrow> split_on c s = [s]"
  by (induction s) auto

lemma split_on_append [str_simps]: "c \<notin> set xs \<Longrightarrow> split_on c (xs @ c # ys) = xs # split_on c ys"
  by (induction xs) auto

lemma split_on_pieces: "p \<in> set (split_on c s) \<Longrightarrow> c \<notin> set p"
proof (induction s arbitrary: p)
  case Nil
  then show ?case by simp
next
  case (Cons x xs)
  obtain y ys where y: "split_on c xs = y # ys"
    by (cases "split_on c xs") auto
  with Cons show ?case by (auto split: if_splits)
qed

lemma join_on_split_on: "join_on c (split_on c s) = s"
proof (induction s)
  case Nil
  then show ?case by simp
next
  case (Cons x xs)
  obtain y ys where y: "split_on c xs = y # ys"
    by (cases "split_on c xs") auto
  with Cons show ?case by (cases ys) auto
qed

lemma split_on_join_on:
  "xs \<noteq> [] \<Longrightarrow> \<forall>x \<in> set xs. c \<notin> set x \<Longrightarrow> split_on c (join_on c xs) = xs"
  by (induction c xs rule: join_on.induct) (auto simp: split_on_no_sep split_on_append)

lemma join_on_append:
  "us \<noteq> [] \<Longrightarrow> vs \<noteq> [] \<Longrightarrow> join_on c (us @ vs) = join_on c us @ c # join_on c vs"
proof (induction c us rule: join_on.induct)
  case (2 c x)
  then show ?case by (cases vs) auto
qed auto

lemma join_on_Cons: "join_on c (x # xs) = x @ concat (map ((#) c) xs)"
  by (induction c xs arbitrary: x rule: join_on.induct) auto

lemma split_on_component:
  assumes "p \<in> set (split_on c s)"
  shows "s = p \<or> (\<exists>b. s = p @ c # b) \<or> (\<exists>a. s = a @ c # p) \<or> (\<exists>a b. s = a @ c # p @ c # b)"
proof -
  from assms obtain us vs where "split_on c s = us @ p # vs" by (meson split_list)
  then have "s = join_on c (us @ p # vs)" by (metis join_on_split_on)
  then show ?thesis
    using join_on_append [of us "p # vs" c] join_on_append [of "[p]" vs c]
    by (cases "us = []"; cases "vs = []") auto
qed

lemma split_on_subset: "p \<in> set (split_on c s) \<Longrightarrow> set p \<subseteq> set s"
  by (drule split_on_component) auto

section \<open>Number lemmas\<close>

lemma dec_value_from_Nil [simp]: "dec_value_from n [] = n"
  by (simp add: dec_value_from_def)

lemma dec_value_from_Cons [simp]:
  "dec_value_from n (c # cs) = dec_value_from (10 * n + digit_val c) cs"
  by (simp add: dec_value_from_def)

lemma dec_value_from_append: "dec_value_from n (s @ t) = dec_value_from (dec_value_from n s) t"
  by (simp add: dec_value_from_def)

lemma dec_value_from_mono: "n \<le> dec_value_from n s"
proof (induction s arbitrary: n)
  case Nil
  then show ?case by simp
next
  case (Cons c cs)
  have "n \<le> 10 * n + digit_val c" by simp
  also have "\<dots> \<le> dec_value_from (10 * n + digit_val c) cs" by (rule Cons.IH)
  finally show ?case by simp
qed

lemma to_string_digits: "list_all is_digit (to_string n)"
proof (induction n rule: to_string.induct)
  case (1 n)
  then show ?case by (simp add: to_string.simps [of n])
qed

lemma to_string_length: "0 < k \<Longrightarrow> n < 10 ^ k \<Longrightarrow> length (to_string n) \<le> k"
proof (induction k arbitrary: n)
  case (Suc k)
  show ?case
  proof (cases "n < 10")
    case True
    then show ?thesis by (simp add: to_string.simps [of n])
  next
    case False
    then have "0 < k" using Suc.prems by (cases k) auto
    moreover have "n div 10 < 10 ^ k" using Suc.prems by (simp add: less_mult_imp_div_less mult.commute)
    ultimately show ?thesis using Suc.IH [of "n div 10"] False by (simp add: to_string.simps [of n])
  qed
qed simp

lemma dec_value_to_string [simp]: "dec_value (to_string n) = n"
proof (induction n rule: to_string.induct)
  case (1 n)
  then show ?case
    by (simp add: to_string.simps [of n] dec_value_from_append)
qed

lemma to_string_not_Nil [simp]: "to_string n \<noteq> []"
  by (simp add: to_string.simps [of n])

lemma to_string_inject [simp]: "to_string m = to_string n \<longleftrightarrow> m = n"
  by (metis dec_value_to_string)

lemma unat_u64_lt: "unat (w :: u64) < 2 ^ 64"
  using unsigned_less [of w] by simp

lemma unat_u64_le: "unat (w :: u64) \<le> 2 ^ 64 - 1"
  using unat_u64_lt [of w] by simp

lemma word_of_nat_eq_u64: "n < 2 ^ 64 \<Longrightarrow> (word_of_nat n :: u64) = w \<longleftrightarrow> n = unat w"
  by (auto simp: word_unat_eq_iff unat_of_nat)

lemma unat_of_nat_u64 [simp]: "n < 2 ^ 64 \<Longrightarrow> unat (word_of_nat n :: u64) = n"
  by (simp add: unat_of_nat)

lemma unat_add_u64: "unat (a :: u64) + unat b < 2 ^ 64 \<Longrightarrow> unat (a + b) = unat a + unat b"
  by (simp add: unat_word_ariths)

lemma unat_mult_u64: "unat (a :: u64) * unat b < 2 ^ 64 \<Longrightarrow> unat (a * b) = unat a * unat b"
  by (simp add: unat_word_ariths)

lemma unat_sub_u64: "b \<le> a \<Longrightarrow> unat ((a :: u64) - b) = unat a - unat b"
  by (rule unat_sub)

text \<open>The division form of an overflow guard on the next decimal digit.\<close>

lemma digit_guard:
  fixes n d limit :: nat
  assumes "d < 10"
  shows "limit div 10 < n \<or> (n = limit div 10 \<and> limit mod 10 < d) \<longleftrightarrow> limit < 10 * n + d"
proof -
  define q r where "q = limit div 10" and "r = limit mod 10"
  then have "limit = 10 * q + r" and "r < 10" by simp_all
  with assms show ?thesis unfolding q_def [symmetric] r_def [symmetric] by auto
qed

section \<open>Lemmas on \<open>stoull\<close>\<close>

lemma base_digit_10: "base_digit 10 c = (if is_digit c then Some (digit_val c) else None)"
  by (auto simp: base_digit_def hex_digit_val_def is_digit_def digit_val_def)

lemma base_digit_not_space: "base_digit b c = Some d \<Longrightarrow> \<not> is_space c"
  by (auto simp: base_digit_def hex_digit_val_def is_digit_def is_space_def split: if_splits option.splits)

lemma base_digit_not_sign: "base_digit b c = Some d \<Longrightarrow> c \<noteq> CHR ''-'' \<and> c \<noteq> CHR ''+''"
  by (auto simp: base_digit_def hex_digit_val_def is_digit_def split: if_splits option.splits)

definition base_value :: "nat \<Rightarrow> nat \<Rightarrow> string \<Rightarrow> nat" where
  "base_value b acc s = foldl (\<lambda>a c. b * a + the (base_digit b c)) acc s"

lemma digit_run_all:
  "list_all (\<lambda>c. base_digit b c \<noteq> None) s \<Longrightarrow> rest = [] \<or> base_digit b (hd rest) = None \<Longrightarrow>
   digit_run b acc (s @ rest) = (base_value b acc s, length s)"
proof (induction s arbitrary: acc)
  case Nil
  then show ?case by (cases rest) (auto simp: base_value_def)
next
  case (Cons c cs)
  then show ?case by (auto simp: base_value_def)
qed

text \<open>A run of digits that does not begin with a hexadecimal prefix is read as it stands.\<close>

lemma strto_parse_digits:
  assumes "s \<noteq> []" and "list_all (\<lambda>c. base_digit b c \<noteq> None) s"
    and "rest = [] \<or> base_digit b (hd rest) = None"
    and "skip_0x b (s @ rest) = s @ rest"
  shows "strto_parse b (s @ rest) = Some (False, base_value b 0 s, length s)"
proof -
  obtain c cs where s: "s = c # cs" using assms(1) by (cases s) auto
  with assms(2) obtain d where d: "base_digit b c = Some d" by auto
  have "dropWhile is_space (s @ rest) = s @ rest"
    using base_digit_not_space [OF d] by (simp add: s)
  moreover have "skip_sign (s @ rest) = (False, s @ rest)"
    using base_digit_not_sign [OF d] by (simp add: s skip_sign_def)
  ultimately show ?thesis
    using assms digit_run_all [OF assms(2,3), of 0] by (simp add: strto_parse_def)
qed

lemma skip_0x_decimal [simp]: "skip_0x 10 s = s"
  by (auto simp: skip_0x_def split: list.splits)

lemma base_value_10: "list_all is_digit s \<Longrightarrow> base_value 10 n s = dec_value_from n s"
  by (induction s arbitrary: n) (auto simp: base_value_def base_digit_10)

lemma strto_parse_decimal:
  assumes "s \<noteq> []" and "list_all is_digit s" and "rest = [] \<or> \<not> is_digit (hd rest)"
  shows "strto_parse 10 (s @ rest) = Some (False, dec_value s, length s)"
  using strto_parse_digits [of s 10 rest] assms
  by (simp add: base_digit_10 base_value_10 cong: if_cong) (auto simp: list_all_iff)

lemma stoull_to_string:
  assumes "n < 2 ^ 64" and "rest = [] \<or> \<not> is_digit (hd rest)"
  shows "stoull 10 (to_string n @ rest) = Some (word_of_nat n, length (to_string n))"
  using assms strto_parse_decimal [of "to_string n" rest]
  by (simp add: stoull_def to_string_digits)

lemma unat_stoull: "stoull b s = Some (w, p) \<Longrightarrow> \<exists>neg v. strto_parse b s = Some (neg, v, p) \<and> v < 2 ^ 64"
  by (auto simp: stoull_def split: option.splits if_splits)

section \<open>Hexadecimal printing\<close>

definition hex_char :: "nat \<Rightarrow> char" where
  "hex_char d = (if d < 10 then char_of (48 + d) else char_of (87 + d))"

fun to_hex :: "nat \<Rightarrow> string" where
  "to_hex n = (if n < 16 then [hex_char n] else to_hex (n div 16) @ [hex_char (n mod 16)])"

declare to_hex.simps [simp del]

lemma base_digit_hex_char [simp]: "d < 16 \<Longrightarrow> base_digit 16 (hex_char d) = Some d"
  by (auto simp: base_digit_def hex_digit_val_def hex_char_def is_digit_def)

lemma to_hex_digits: "list_all (\<lambda>c. base_digit 16 c \<noteq> None) (to_hex n)"
proof (induction n rule: to_hex.induct)
  case (1 n)
  then show ?case by (simp add: to_hex.simps [of n])
qed

lemma to_hex_no_colon: "CHR '':'' \<notin> set (to_hex n)"
proof -
  have "base_digit 16 CHR '':'' = None" by (simp add: base_digit_def hex_digit_val_def is_digit_def)
  then show ?thesis using to_hex_digits [of n] by (auto simp: list_all_iff)
qed

lemma base_value_to_hex: "base_value 16 0 (to_hex n) = n"
proof (induction n rule: to_hex.induct)
  case (1 n)
  then show ?case by (simp add: to_hex.simps [of n] base_value_def)
qed

lemma to_hex_not_Nil [simp]: "to_hex n \<noteq> []"
  by (simp add: to_hex.simps [of n])

lemma skip_0x_digits: "list_all (\<lambda>c. base_digit 16 c \<noteq> None) s \<Longrightarrow> skip_0x b s = s"
  by (auto simp: skip_0x_def base_digit_def hex_digit_val_def is_digit_def split: list.splits)

lemma stoull_to_hex: "n < 2 ^ 64 \<Longrightarrow> stoull 16 (to_hex n) = Some (word_of_nat n, length (to_hex n))"
  using strto_parse_digits [of "to_hex n" 16 "[]", OF _ to_hex_digits]
  by (simp add: stoull_def base_value_to_hex skip_0x_digits [OF to_hex_digits])

section \<open>Interface: a digit loop with an overflow guard\<close>

text \<open>
  Five routines of the repository read a decimal number with the same loop: reject a character
  that is not a digit, reject a digit that would push the value past a limit, else multiply by
  ten and add. The contract of one step is all a client needs to know.
\<close>

locale decimal_scan =
  fixes step :: "'a \<Rightarrow> char \<Rightarrow> 'a option"
    and val :: "'a \<Rightarrow> nat"
    and limit :: nat
  assumes step_over: "is_digit c \<Longrightarrow> val a \<le> limit \<Longrightarrow> limit < 10 * val a + digit_val c \<Longrightarrow> step a c = None"
    and step_digit: "is_digit c \<Longrightarrow> val a \<le> limit \<Longrightarrow> 10 * val a + digit_val c \<le> limit \<Longrightarrow>
       \<exists>b. step a c = Some b \<and> val b = 10 * val a + digit_val c"
begin

lemma scan_digits:
  "list_all is_digit s \<Longrightarrow> val a \<le> limit \<Longrightarrow>
   (if dec_value_from (val a) s \<le> limit
    then \<exists>b. scan step a s = Some b \<and> val b = dec_value_from (val a) s
    else scan step a s = None)"
proof (induction s arbitrary: a)
  case Nil
  then show ?case by simp
next
  case (Cons c cs)
  then have c: "is_digit c" and cs: "list_all is_digit cs" by simp_all
  show ?case
  proof (cases "10 * val a + digit_val c \<le> limit")
    case True
    with Cons.prems(2) c obtain b where b: "step a c = Some b" "val b = 10 * val a + digit_val c"
      using step_digit by blast
    with Cons.IH [OF cs, of b] True show ?thesis by (auto split: if_splits)
  next
    case False
    with Cons.prems(2) c have "step a c = None" by (simp add: step_over)
    moreover have "limit < dec_value_from (10 * val a + digit_val c) cs"
      using False dec_value_from_mono [of "10 * val a + digit_val c" cs] by linarith
    ultimately show ?thesis by simp
  qed
qed

lemma scan_to_string:
  "val a = 0 \<Longrightarrow> n \<le> limit \<Longrightarrow> \<exists>b. scan step a (to_string n) = Some b \<and> val b = n"
  using scan_digits [OF to_string_digits [of n], of a] by simp

end

text \<open>A loop that also rejects every character that is not a digit decides its input alone.\<close>

locale strict_decimal_scan = decimal_scan +
  assumes step_other: "\<not> is_digit c \<Longrightarrow> step a c = None"
begin

lemma scan_other: "\<not> list_all is_digit s \<Longrightarrow> scan step a s = None"
proof (induction s arbitrary: a)
  case (Cons c cs)
  then show ?case by (cases "is_digit c") (auto simp: step_other split: option.splits)
qed simp

lemma scan_Some_iff:
  "val a \<le> limit \<Longrightarrow>
   (\<exists>b. scan step a s = Some b) \<longleftrightarrow> list_all is_digit s \<and> dec_value_from (val a) s \<le> limit"
  using scan_digits [of s a] scan_other [of s a] by (cases "list_all is_digit s") (auto split: if_splits)

lemma scan_value:
  "val a \<le> limit \<Longrightarrow> scan step a s = Some b \<Longrightarrow> val b = dec_value_from (val a) s"
  using scan_digits [of s a] scan_other [of s a] by (cases "list_all is_digit s") (auto split: if_splits)

end

section \<open>Interface: an encoder and its decoder\<close>

locale codec =
  fixes enc :: "'a \<Rightarrow> 'b"
    and dec :: "'b \<Rightarrow> 'a"
    and dom_ok :: "'a \<Rightarrow> bool"
  assumes dec_enc: "dom_ok x \<Longrightarrow> dec (enc x) = x"
begin

lemma enc_inject: "dom_ok x \<Longrightarrow> dom_ok y \<Longrightarrow> enc x = enc y \<longleftrightarrow> x = y"
  using dec_enc by metis

lemma inj_on_enc: "inj_on enc (Collect dom_ok)"
  using dec_enc by (metis inj_on_inverseI mem_Collect_eq)

end

section \<open>Ordered map lemmas\<close>

lemma omap_lookup_put [simp]:
  "omap_lookup k (omap_put k' v m) = (if k = k' then Some v else omap_lookup k m)"
  by (induction m) auto

lemma omap_put_keys: "fst ` set (omap_put k v m) = insert k (fst ` set m)"
  by (induction k v m rule: omap_put.induct) auto

lemma omap_ok_put: "omap_ok m \<Longrightarrow> omap_ok (omap_put k v m)"
proof (induction m)
  case Nil
  then show ?case by simp
next
  case (Cons p m)
  obtain k' v' where p: "p = (k', v')" by force
  consider "k < k'" | "k = k'" | "k' < k" by force
  then show ?case
  proof cases
    case 1
    with Cons.prems p show ?thesis by (auto intro: less_trans)
  next
    case 2
    with Cons.prems p show ?thesis by auto
  next
    case 3
    with Cons p have "omap_ok (omap_put k v m)" by simp
    moreover have "\<forall>x \<in> fst ` set (omap_put k v m). k' < x"
      using Cons.prems p 3 omap_put_keys [of k v m] by auto
    ultimately show ?thesis using 3 p by auto
  qed
qed

lemma omap_lookup_None: "omap_lookup k m = None \<longleftrightarrow> k \<notin> fst ` set m"
  by (induction k m rule: omap_lookup.induct) auto

lemma omap_lookup_in: "omap_lookup k m = Some v \<Longrightarrow> (k, v) \<in> set m"
  by (induction m) (auto split: if_splits)

lemma omap_lookup_mem: "omap_ok m \<Longrightarrow> (k, v) \<in> set m \<longleftrightarrow> omap_lookup k m = Some v"
proof (induction m)
  case Nil
  then show ?case by simp
next
  case (Cons p m)
  then show ?case by (cases p) (force simp: omap_lookup_None dest: omap_lookup_in)
qed

lemma omap_ok_emplace: "omap_ok m \<Longrightarrow> omap_ok (fst (omap_emplace k v m))"
  by (auto simp: omap_emplace_def omap_ok_put split: option.splits)

lemma omap_put_last: "\<forall>k' \<in> fst ` set m. k' < k \<Longrightarrow> omap_put k v m = m @ [(k, v)]"
  by (induction k v m rule: omap_put.induct) (auto dest: less_trans)

lemma omap_emplace_last: "\<forall>k' \<in> fst ` set m. k' < k \<Longrightarrow> omap_emplace k v m = (m @ [(k, v)], True)"
proof -
  assume a: "\<forall>k' \<in> fst ` set m. k' < k"
  then have "omap_lookup k m = None" by (auto simp: omap_lookup_None)
  with a show ?thesis by (simp add: omap_emplace_def omap_put_last)
qed

lemma omap_emplace_fresh:
  "omap_emplace k v m = (m', True) \<longleftrightarrow> omap_lookup k m = None \<and> m' = omap_put k v m"
  by (auto simp: omap_emplace_def split: option.splits)

lemma set_omap_put: "omap_lookup k m = None \<Longrightarrow> set (omap_put k v m) = insert (k, v) (set m)"
  by (induction k v m rule: omap_put.induct) (auto split: if_splits)

lemma length_omap_put: "omap_lookup k m = None \<Longrightarrow> length (omap_put k v m) = Suc (length m)"
  by (induction k v m rule: omap_put.induct) (auto split: if_splits)

section \<open>Buffer lemmas\<close>

lemma poke_length: "pos + length bytes \<le> length buf \<Longrightarrow> length (poke buf pos bytes) = length buf"
  by (simp add: poke_def)

lemma poke_read_same:
  "pos + length bytes \<le> length buf \<Longrightarrow> take (length bytes) (drop pos (poke buf pos bytes)) = bytes"
  by (simp add: poke_def)

lemma poke_nth:
  "pos + length bytes \<le> length buf \<Longrightarrow> i < length buf \<Longrightarrow>
   poke buf pos bytes ! i = (if pos \<le> i \<and> i < pos + length bytes then bytes ! (i - pos) else buf ! i)"
  by (auto simp: poke_def nth_append)

lemma poke_read_other:
  assumes "pos + length bytes \<le> length buf" and "b + n \<le> length buf"
    and "b + n \<le> pos \<or> pos + length bytes \<le> b"
  shows "take n (drop b (poke buf pos bytes)) = take n (drop b buf)"
proof (rule nth_equalityI)
  show "length (take n (drop b (poke buf pos bytes))) = length (take n (drop b buf))"
    using poke_length [OF assms(1)] by simp
next
  fix i
  assume "i < length (take n (drop b (poke buf pos bytes)))"
  then have "i < n" "b + i < length buf" using poke_length [OF assms(1)] by auto
  then show "take n (drop b (poke buf pos bytes)) ! i = take n (drop b buf) ! i"
    using assms poke_length [OF assms(1)] poke_nth [OF assms(1), of "b + i"] by auto
qed

section \<open>Counting list elements\<close>

lemma filter_update_count:
  "i < length xs \<Longrightarrow>
   length (filter P (xs[i := v])) + (if P (xs ! i) then 1 else 0) = length (filter P xs) + (if P v then 1 else 0)"
proof (induction xs arbitrary: i)
  case Nil
  then show ?case by simp
next
  case (Cons x xs)
  then show ?case by (cases i) (auto simp: add.commute)
qed

text \<open>When as many elements satisfy the stronger predicate as the weaker one, the two agree.\<close>

lemma filter_counts_agree:
  assumes "\<And>x. Q x \<Longrightarrow> P x" "length (filter P xs) = length (filter Q xs)" "x \<in> set xs" "P x"
  shows "Q x"
proof (rule ccontr)
  assume "\<not> Q x"
  then have "length (filter Q (filter P xs)) < length (filter P xs)"
    using length_filter_less [of x "filter P xs" Q] assms(3,4) by simp
  moreover have "filter Q (filter P xs) = filter Q xs"
    using assms(1) by (induction xs) auto
  ultimately show False using assms(2) by simp
qed

end
