(* ===== verification/SigV4.thy ===== *)
theory SigV4
  imports Prelude
begin

text \<open>
  \<^verbatim>\<open>common/sigv4.hpp\<close> and \<^verbatim>\<open>common/sha256.hpp\<close>: AWS Signature Version 4 over an empty body.
  OpenSSL's \<^verbatim>\<open>SHA256\<close> and \<^verbatim>\<open>HMAC\<close> are parameters: functions to an optional byte string, \<^const>\<open>None\<close>
  being the null return. The environment and the broken-down time of \<^verbatim>\<open>gmtime_r\<close> are
  arguments too.
\<close>

section \<open>Definitions\<close>

definition kUnsignedPayload :: string where "kUnsignedPayload = ''UNSIGNED-PAYLOAD''"

record sigv4_credentials =
  access_key :: string
  secret_key :: string
  session_token :: string

text \<open>\<^verbatim>\<open>std::getenv\<close> is a map; an empty value counts as missing for the two keys.\<close>

definition sigv4_credentials_from_env ::
  "(string \<Rightarrow> string option) \<Rightarrow> sigv4_credentials \<Rightarrow> sigv4_credentials option" where
  "sigv4_credentials_from_env getenv out =
     (case (getenv ''AWS_ACCESS_KEY_ID'', getenv ''AWS_SECRET_ACCESS_KEY'') of
        (Some ak, Some sk) \<Rightarrow>
          if ak = [] \<or> sk = [] then None
          else Some (out\<lparr>access_key := ak, secret_key := sk,
                 session_token := (case getenv ''AWS_SESSION_TOKEN'' of None \<Rightarrow> [] | Some st \<Rightarrow> st)\<rparr>)
      | _ \<Rightarrow> None)"

record sigv4_request =
  sr_method :: string
  sr_host :: string
  sr_path :: string
  sr_query :: string
  sr_headers :: header_list
  sr_payload_hash :: string

record sigv4_result =
  sv_headers :: header_list
  sv_canonical_request :: string
  sv_string_to_sign :: string
  sv_signature :: string

record tm =
  tm_year :: nat
  tm_mon :: nat
  tm_mday :: nat
  tm_hour :: nat
  tm_min :: nat
  tm_sec :: nat

definition pad2 :: "nat \<Rightarrow> string" where
  "pad2 n = (if n < 10 then CHR ''0'' # to_string n else to_string n)"

text \<open>\<^verbatim>\<open>strftime\<close> with \<^verbatim>\<open>%Y%m%dT%H%M%SZ\<close>; \<^verbatim>\<open>tm_year\<close> counts from 1900, \<^verbatim>\<open>tm_mon\<close> from 0.\<close>

definition sigv4_amz_date :: "tm \<Rightarrow> string" where
  "sigv4_amz_date t = to_string (1900 + tm_year t) @ pad2 (tm_mon t + 1) @ pad2 (tm_mday t) @ ''T''
     @ pad2 (tm_hour t) @ pad2 (tm_min t) @ pad2 (tm_sec t) @ ''Z''"

fun canonical_loop :: "string \<Rightarrow> bool \<Rightarrow> string \<Rightarrow> string" where
  "canonical_loop out pending_space [] = out"
| "canonical_loop out pending_space (c # cs) =
     (if c = SP \<or> c = TAB then canonical_loop out (out \<noteq> []) cs
      else canonical_loop ((if pending_space then out @ [SP] else out) @ [c]) False cs)"

definition canonical_value :: "string \<Rightarrow> string" where
  "canonical_value v = canonical_loop [] False v"

definition upper_hex :: "nat \<Rightarrow> char" where
  "upper_hex d = ''0123456789ABCDEF'' ! d"

definition lower_hex :: "nat \<Rightarrow> char" where
  "lower_hex d = ''0123456789abcdef'' ! d"

definition unreserved :: "bool \<Rightarrow> char \<Rightarrow> bool" where
  "unreserved keep_slash c \<longleftrightarrow> is_upper c \<or> is_lower c \<or> is_digit c \<or> c = CHR ''-'' \<or> c = CHR ''_''
     \<or> c = CHR ''.'' \<or> c = CHR ''~'' \<or> (keep_slash \<and> c = CHR ''/'')"

fun uri_encode :: "bool \<Rightarrow> string \<Rightarrow> string" where
  "uri_encode keep_slash [] = []"
| "uri_encode keep_slash (c # cs) =
     (if unreserved keep_slash c then c # uri_encode keep_slash cs
      else CHR ''%'' # upper_hex (ord c div 16) # upper_hex (ord c mod 16) # uri_encode keep_slash cs)"

definition INT_MAX :: nat where "INT_MAX = 2147483647"

definition hmac_sha256 :: "(string \<Rightarrow> string \<Rightarrow> string option) \<Rightarrow> string \<Rightarrow> string \<Rightarrow> string result" where
  "hmac_sha256 HMAC key data =
     (if INT_MAX < length key then Inl (Runtime_error ''HMAC-SHA256 key is too long'')
      else case HMAC key data of
        None \<Rightarrow> Inl (Runtime_error ''HMAC-SHA256 failed'')
      | Some out \<Rightarrow> if length out \<noteq> 32 then Inl (Runtime_error ''HMAC-SHA256 failed'') else Inr out)"

fun hex :: "string \<Rightarrow> string" where
  "hex [] = []"
| "hex (c # cs) = lower_hex (ord c div 16) # lower_hex (ord c mod 16) # hex cs"

definition sha256_hex :: "(string \<Rightarrow> string option) \<Rightarrow> string \<Rightarrow> string result" where
  "sha256_hex SHA256 data = (case SHA256 data of
      None \<Rightarrow> Inl (Runtime_error ''SHA256 failed'')
    | Some digest \<Rightarrow> Inr (hex digest))"

definition managed_header :: "string \<Rightarrow> bool" where
  "managed_header name \<longleftrightarrow> name = ''host'' \<or> name = ''x-amz-date'' \<or> name = ''x-amz-content-sha256''
     \<or> name = ''x-amz-security-token'' \<or> name = ''authorization''"

text \<open>The loop over the caller's headers: a repeated name appends \<^verbatim>\<open>,value\<close> to the first entry.\<close>

fun collect_headers :: "header_list \<Rightarrow> (string \<times> string) list \<Rightarrow> (string \<times> string) list result" where
  "collect_headers [] hdrs = Inr hdrs"
| "collect_headers ((n, v) # hs) hdrs =
     (let name = lower_ascii n in
      if managed_header name
      then Inl (Invalid_argument ''SigV4 caller headers contain a managed header'')
      else
        let value = canonical_value v in
        case omap_lookup name hdrs of
          None \<Rightarrow> collect_headers hs (omap_put name value hdrs)
        | Some old \<Rightarrow> collect_headers hs (omap_put name (old @ '','' @ value) hdrs))"

definition initial_headers :: "sigv4_request \<Rightarrow> sigv4_credentials \<Rightarrow> string \<Rightarrow> (string \<times> string) list" where
  "initial_headers req cred amz_date =
     (let hdrs = omap_put ''x-amz-date'' amz_date (omap_put ''x-amz-content-sha256'' (sr_payload_hash req)
                   (omap_put ''host'' (canonical_value (sr_host req)) []))
      in if session_token cred \<noteq> []
         then fst (omap_emplace ''x-amz-security-token'' (session_token cred) hdrs) else hdrs)"

definition canonical_headers :: "(string \<times> string) list \<Rightarrow> string" where
  "canonical_headers hdrs = concat (map (\<lambda>(n, v). n @ '':'' @ v @ [LF]) hdrs)"

definition signed_headers :: "(string \<times> string) list \<Rightarrow> string" where
  "signed_headers hdrs = foldl (\<lambda>acc (n, _). (if acc \<noteq> [] then acc @ '';'' else acc) @ n) [] hdrs"

definition credential_scope :: "string \<Rightarrow> string \<Rightarrow> string \<Rightarrow> string" where
  "credential_scope date region service = date @ ''/'' @ region @ ''/'' @ service @ ''/aws4_request''"

definition canonical_request :: "sigv4_request \<Rightarrow> (string \<times> string) list \<Rightarrow> string" where
  "canonical_request req hdrs =
     sr_method req @ [LF] @ uri_encode True (sr_path req) @ [LF] @ sr_query req @ [LF]
     @ canonical_headers hdrs @ [LF] @ signed_headers hdrs @ [LF] @ sr_payload_hash req"

definition sigv4_sign ::
  "(string \<Rightarrow> string option) \<Rightarrow> (string \<Rightarrow> string \<Rightarrow> string option) \<Rightarrow> sigv4_request \<Rightarrow>
   sigv4_credentials \<Rightarrow> string \<Rightarrow> string \<Rightarrow> string \<Rightarrow> sigv4_result result" where
  "sigv4_sign SHA256 HMAC req cred region service amz_date =
     (let date = take 8 amz_date in
      bind_res (collect_headers (sr_headers req) (initial_headers req cred amz_date)) (\<lambda>hdrs.
      let creq = canonical_request req hdrs; scope = credential_scope date region service in
      bind_res (sha256_hex SHA256 creq) (\<lambda>creq_hash.
      let sts = ''AWS4-HMAC-SHA256'' @ [LF] @ amz_date @ [LF] @ scope @ [LF] @ creq_hash in
      bind_res (hmac_sha256 HMAC (''AWS4'' @ secret_key cred) date) (\<lambda>k.
      bind_res (hmac_sha256 HMAC k region) (\<lambda>k.
      bind_res (hmac_sha256 HMAC k service) (\<lambda>k.
      bind_res (hmac_sha256 HMAC k ''aws4_request'') (\<lambda>k.
      bind_res (hmac_sha256 HMAC k sts) (\<lambda>sig.
      Inr \<lparr>sv_headers =
             [(''x-amz-content-sha256'', sr_payload_hash req), (''x-amz-date'', amz_date)]
             @ (if session_token cred \<noteq> [] then [(''x-amz-security-token'', session_token cred)] else [])
             @ [(''Authorization'', ''AWS4-HMAC-SHA256 Credential='' @ access_key cred @ ''/'' @ scope
                  @ '', SignedHeaders='' @ signed_headers hdrs @ '', Signature='' @ hex sig)],
           sv_canonical_request = creq, sv_string_to_sign = sts, sv_signature = hex sig\<rparr>))))))))"

text \<open>Specifications: percent decoding, and a header value as its words joined by one space.\<close>

definition upper_hex_val :: "char \<Rightarrow> nat" where
  "upper_hex_val c = (if is_digit c then ord c - 48 else ord c - 55)"

fun uri_decode :: "string \<Rightarrow> string" where
  "uri_decode [] = []"
| "uri_decode (c # cs) =
     (if c = CHR ''%'' \<and> 2 \<le> length cs
      then char_of (16 * upper_hex_val (cs ! 0) + upper_hex_val (cs ! 1)) # uri_decode (drop 2 cs)
      else c # uri_decode cs)"

definition header_words :: "string \<Rightarrow> string list" where
  "header_words v = filter (\<lambda>w. w \<noteq> []) (split_on SP (map (\<lambda>c. if c = TAB then SP else c) v))"

definition header_values :: "string \<Rightarrow> header_list \<Rightarrow> string list" where
  "header_values name hs = map (canonical_value \<circ> snd) (filter (\<lambda>(n, _). lower_ascii n = name) hs)"

section \<open>Hexadecimal and percent encoding\<close>

lemma upper_hex_all: "\<forall>d \<in> set [0..<16]. upper_hex_val (upper_hex d) = d \<and> unreserved False (upper_hex d)"
  by (simp add: upt_conv_Cons upper_hex_def upper_hex_val_def unreserved_def is_digit_def is_upper_def)

lemma upper_hex_val_hex [simp]: "d < 16 \<Longrightarrow> upper_hex_val (upper_hex d) = d"
  using upper_hex_all by simp

lemma upper_hex_unreserved: "d < 16 \<Longrightarrow> unreserved k (upper_hex d)"
  using upper_hex_all by (auto simp: unreserved_def)

lemma ord_div_16: "ord c div 16 < 16"
  using ord_lt_256 [of c] by arith

lemma percent_reserved: "\<not> unreserved k CHR ''%''"
  by (simp add: unreserved_def is_upper_def is_lower_def is_digit_def)

lemma uri_decode_encode: "uri_decode (uri_encode k s) = s"
proof (induction s)
  case Nil
  then show ?case by simp
next
  case (Cons c cs)
  then show ?case
    using percent_reserved [of k] by (auto simp: ord_div_16)
qed

interpretation uri: codec "uri_encode k" uri_decode "\<lambda>_. True"
  by unfold_locales (rule uri_decode_encode)

lemma uri_encode_chars: "c \<in> set (uri_encode k s) \<Longrightarrow> unreserved k c \<or> c = CHR ''%''"
  by (induction s) (auto simp: upper_hex_unreserved ord_div_16 split: if_splits)

lemma lower_hex_all: "\<forall>d \<in> set [0..<16]. is_lower_hex (lower_hex d)"
  by (simp add: upt_conv_Cons lower_hex_def is_lower_hex_def is_digit_def)

lemma lower_hex_char: "d < 16 \<Longrightarrow> is_lower_hex (lower_hex d)"
  using lower_hex_all by simp

lemma hex_chars: "list_all is_lower_hex (hex s)"
  by (induction s) (simp_all add: lower_hex_char ord_div_16)

lemma length_hex: "length (hex s) = 2 * length s"
  by (induction s) simp_all

section \<open>Canonical header values\<close>

definition ws_split :: "string \<Rightarrow> string list" where
  "ws_split v = split_on SP (map (\<lambda>c. if c = TAB then SP else c) v)"

lemma ws_split_Nil: "ws_split [] = [[]]"
  by (simp add: ws_split_def)

lemma ws_split_blank: "c = SP \<or> c = TAB \<Longrightarrow> ws_split (c # cs) = [] # ws_split cs"
  by (auto simp: ws_split_def)

lemma ws_split_char:
  "\<not> (c = SP \<or> c = TAB) \<Longrightarrow> ws_split (c # cs) = (c # hd (ws_split cs)) # tl (ws_split cs)"
  by (auto simp: ws_split_def split: list.splits)

lemma ws_split_not_Nil [simp]: "ws_split v \<noteq> []"
  by (simp add: ws_split_def)

abbreviation (input) spaced :: "string list \<Rightarrow> string" where
  "spaced ws \<equiv> concat (map ((#) SP) (filter (\<lambda>w. w \<noteq> []) ws))"

lemma canonical_loop_started:
  "out \<noteq> [] \<Longrightarrow> canonical_loop out True v = out @ spaced (ws_split v)"
  "out \<noteq> [] \<Longrightarrow> canonical_loop out False v = out @ hd (ws_split v) @ spaced (tl (ws_split v))"
proof (induction v arbitrary: out)
  case Nil
  { case 1 show ?case by (simp add: ws_split_Nil) }
  { case 2 show ?case by (simp add: ws_split_Nil) }
next
  case (Cons c cs)
  have filt: "spaced (ws_split cs) = (if hd (ws_split cs) = [] then [] else SP # hd (ws_split cs))
      @ spaced (tl (ws_split cs))" by (cases "ws_split cs") auto
  { case 1
    then show ?case
      using Cons.IH by (cases "c = SP \<or> c = TAB") (auto simp: ws_split_blank ws_split_char) }
  { case 2
    then show ?case
      using Cons.IH by (cases "c = SP \<or> c = TAB") (auto simp: ws_split_blank ws_split_char) }
qed

lemma canonical_value_words: "canonical_value v = join_on SP (header_words v)"
proof (induction v)
  case Nil
  then show ?case by (simp add: canonical_value_def header_words_def)
next
  case (Cons c cs)
  have hw: "header_words x = filter (\<lambda>w. w \<noteq> []) (ws_split x)" for x
    by (simp add: header_words_def ws_split_def)
  show ?case
  proof (cases "c = SP \<or> c = TAB")
    case True
    with Cons show ?thesis by (auto simp: canonical_value_def hw ws_split_blank)
  next
    case False
    then show ?thesis
      by (simp add: canonical_value_def hw ws_split_char join_on_Cons canonical_loop_started)
  qed
qed

lemma header_words_chars: "w \<in> set (header_words v) \<Longrightarrow> w \<noteq> [] \<and> SP \<notin> set w \<and> TAB \<notin> set w"
proof -
  assume "w \<in> set (header_words v)"
  then have w: "w \<noteq> []" "w \<in> set (split_on SP (map (\<lambda>c. if c = TAB then SP else c) v))"
    by (auto simp: header_words_def)
  have "TAB \<notin> set (map (\<lambda>c. if c = TAB then SP else c) v)" by (induction v) auto
  moreover have "set w \<subseteq> set (map (\<lambda>c. if c = TAB then SP else c) v)"
    by (rule split_on_subset [OF w(2)])
  ultimately show ?thesis using w split_on_pieces [OF w(2)] by blast
qed

lemma header_words_join:
  assumes "\<forall>w \<in> set ws. w \<noteq> [] \<and> SP \<notin> set w \<and> TAB \<notin> set w"
  shows "header_words (join_on SP ws) = ws"
proof -
  have "TAB \<notin> set (join_on SP ws)"
    using assms by (cases ws) (auto simp: join_on_Cons)
  then have "map (\<lambda>c. if c = TAB then SP else c) (join_on SP ws) = join_on SP ws"
    by (induction "join_on SP ws") (auto intro: map_idI)
  moreover have "ws = [] \<or> split_on SP (join_on SP ws) = ws"
    using split_on_join_on [of ws SP] assms by blast
  ultimately show ?thesis
    using assms by (auto simp: header_words_def filter_id_conv)
qed

lemma canonical_value_idem: "canonical_value (canonical_value v) = canonical_value v"
  using header_words_join [of "header_words v"] header_words_chars
  by (simp add: canonical_value_words)

section \<open>Signed headers\<close>

lemma initial_headers_ok: "omap_ok (initial_headers req cred d)"
  by (auto simp: initial_headers_def Let_def intro!: omap_ok_emplace omap_ok_put)

lemma collect_headers_ok: "omap_ok hdrs \<Longrightarrow> collect_headers hs hdrs = Inr hdrs' \<Longrightarrow> omap_ok hdrs'"
  by (induction hs hdrs rule: collect_headers.induct)
    (auto simp: Let_def omap_ok_put split: if_splits option.splits)

lemma collect_headers_error:
  "(\<exists>hdrs'. collect_headers hs hdrs = Inr hdrs') \<longleftrightarrow> (\<forall>(n, v) \<in> set hs. \<not> managed_header (lower_ascii n))"
  by (induction hs hdrs rule: collect_headers.induct) (auto simp: Let_def split: option.splits)

lemma collect_headers_Inl:
  "collect_headers hs hdrs = Inl e \<Longrightarrow> e = Invalid_argument ''SigV4 caller headers contain a managed header''"
  by (induction hs hdrs rule: collect_headers.induct) (auto simp: Let_def split: if_splits option.splits)

lemma collect_headers_lookup:
  "collect_headers hs hdrs = Inr hdrs' \<Longrightarrow>
   omap_lookup name hdrs' =
     (case omap_lookup name hdrs of
        Some old \<Rightarrow> Some (old @ concat (map ((#) CHR '','') (header_values name hs)))
      | None \<Rightarrow> (if header_values name hs = [] then None
                  else Some (join_on CHR '','' (header_values name hs))))"
proof (induction hs hdrs rule: collect_headers.induct)
  case (1 hdrs)
  then show ?case by (auto simp: header_values_def split: option.splits)
next
  case (2 n v hs hdrs)
  have hv: "header_values name ((n, v) # hs) =
      (if lower_ascii n = name then [canonical_value v] else []) @ header_values name hs"
    by (simp add: header_values_def)
  from 2 show ?case
    by (auto simp: hv Let_def join_on_Cons split: if_splits option.splits)
qed

lemma signed_headers_from:
  "acc \<noteq> [] \<Longrightarrow> foldl (\<lambda>acc (n, _). (if acc \<noteq> [] then acc @ '';'' else acc) @ n) acc hdrs
     = acc @ concat (map ((#) CHR '';'') (map fst hdrs))"
  by (induction hdrs arbitrary: acc) auto

lemma signed_headers_join:
  "\<forall>(n, v) \<in> set hdrs. n \<noteq> [] \<Longrightarrow> signed_headers hdrs = join_on CHR '';'' (map fst hdrs)"
  by (cases hdrs) (auto simp: signed_headers_def signed_headers_from join_on_Cons)

lemma sigv4_sign_Inr:
  assumes "sigv4_sign SHA256 HMAC req cred region service amz_date = Inr r"
  obtains hdrs sig where "collect_headers (sr_headers req) (initial_headers req cred amz_date) = Inr hdrs"
    and "sv_canonical_request r = canonical_request req hdrs"
    and "sv_signature r = hex sig" and "length sig = 32"
    and "sv_headers r = [(''x-amz-content-sha256'', sr_payload_hash req), (''x-amz-date'', amz_date)]
             @ (if session_token cred \<noteq> [] then [(''x-amz-security-token'', session_token cred)] else [])
             @ [(''Authorization'', ''AWS4-HMAC-SHA256 Credential='' @ access_key cred @ ''/''
                  @ credential_scope (take 8 amz_date) region service
                  @ '', SignedHeaders='' @ signed_headers hdrs @ '', Signature='' @ sv_signature r)]"
  using assms
  by (auto simp: sigv4_sign_def Let_def bind_res_Inr hmac_sha256_def split: if_splits option.splits)

lemma initial_headers_lookup:
  "omap_lookup m (initial_headers req cred d) = (if m = ''host'' then Some (canonical_value (sr_host req))
      else if m = ''x-amz-date'' then Some d else if m = ''x-amz-content-sha256'' then Some (sr_payload_hash req)
      else if m = ''x-amz-security-token'' \<and> session_token cred \<noteq> [] then Some (session_token cred) else None)"
  by (simp add: initial_headers_def omap_emplace_def Let_def)

text \<open>The collected map: managed entries as initialised, caller entries with all their values.\<close>

lemma collected_headers:
  assumes h: "collect_headers hs (initial_headers req cred d) = Inr hdrs"
  shows "\<forall>(n, v) \<in> set hs. \<not> managed_header (lower_ascii n)"
    and "managed_header m \<Longrightarrow> omap_lookup m hdrs = omap_lookup m (initial_headers req cred d)"
    and "(n, v) \<in> set hs \<Longrightarrow> omap_lookup (lower_ascii n) hdrs = Some (join_on CHR '','' (header_values (lower_ascii n) hs))"
    and "\<forall>(n, v) \<in> set hs. n \<noteq> [] \<Longrightarrow> \<forall>(n, v) \<in> set hdrs. n \<noteq> []"
proof -
  show plain: "\<forall>(n, v) \<in> set hs. \<not> managed_header (lower_ascii n)"
    using collect_headers_error [of hs "initial_headers req cred d"] h by blast
  note look = collect_headers_lookup [OF h]
  show "omap_lookup m hdrs = omap_lookup m (initial_headers req cred d)" if "managed_header m"
  proof -
    have "header_values m hs = []" using that plain by (fastforce simp: header_values_def filter_empty_conv)
    then show ?thesis by (simp add: look split: option.split)
  qed
  show "omap_lookup (lower_ascii n) hdrs = Some (join_on CHR '','' (header_values (lower_ascii n) hs))"
    if "(n, v) \<in> set hs"
  proof -
    have "\<not> managed_header (lower_ascii n)" using that plain by auto
    then have "omap_lookup (lower_ascii n) (initial_headers req cred d) = None"
      by (simp add: initial_headers_lookup managed_header_def)
    moreover have "header_values (lower_ascii n) hs \<noteq> []"
      using that by (force simp: header_values_def filter_empty_conv)
    ultimately show ?thesis by (simp add: look)
  qed
  show "\<forall>(n, v) \<in> set hdrs. n \<noteq> []" if "\<forall>(n, v) \<in> set hs. n \<noteq> []"
  proof clarify
    fix v assume "([], v) \<in> set hdrs"
    then have "omap_lookup [] hdrs = Some v"
      using omap_lookup_mem [OF collect_headers_ok [OF initial_headers_ok h]] by blast
    moreover have "header_values [] hs = []"
      using that by (fastforce simp: header_values_def filter_empty_conv lower_ascii_def)
    ultimately show False by (simp add: look initial_headers_lookup)
  qed
qed

section \<open>Properties\<close>

text \<open>C34. What is signed: when signing succeeds, no caller header was a managed one, and the canonical request
  covers a name-sorted header list without repetitions that holds the host, the date, the payload hash and
  every caller header under its lower-case name with its canonical values in wire order; the
  Authorization header lists exactly these names and carries the signature as 64 hexadecimal digits.\<close>

theorem sigv4_covers_headers:
  assumes "sigv4_sign SHA256 HMAC req cred region service amz_date = Inr r"
    and "\<forall>(n, v) \<in> set (sr_headers req). n \<noteq> []"
  shows "\<exists>hdrs. sv_canonical_request r = canonical_request req hdrs \<and> sorted_wrt (<) (map fst hdrs)
    \<and> omap_lookup ''host'' hdrs = Some (canonical_value (sr_host req))
    \<and> omap_lookup ''x-amz-date'' hdrs = Some amz_date
    \<and> omap_lookup ''x-amz-content-sha256'' hdrs = Some (sr_payload_hash req)
    \<and> (\<forall>(n, v) \<in> set (sr_headers req). \<not> managed_header (lower_ascii n)
         \<and> omap_lookup (lower_ascii n) hdrs = Some (join_on CHR '','' (header_values (lower_ascii n) (sr_headers req))))
    \<and> last (sv_headers r) = (''Authorization'', ''AWS4-HMAC-SHA256 Credential='' @ access_key cred @ ''/''
         @ credential_scope (take 8 amz_date) region service @ '', SignedHeaders='' @ join_on CHR '';'' (map fst hdrs)
         @ '', Signature='' @ sv_signature r)
    \<and> length (sv_signature r) = 64 \<and> list_all is_lower_hex (sv_signature r)"
proof -
  obtain hdrs sig where h: "collect_headers (sr_headers req) (initial_headers req cred amz_date) = Inr hdrs"
    and r: "sv_canonical_request r = canonical_request req hdrs" "sv_signature r = hex sig" "length sig = 32"
    and auth: "sv_headers r = [(''x-amz-content-sha256'', sr_payload_hash req), (''x-amz-date'', amz_date)]
             @ (if session_token cred \<noteq> [] then [(''x-amz-security-token'', session_token cred)] else [])
             @ [(''Authorization'', ''AWS4-HMAC-SHA256 Credential='' @ access_key cred @ ''/''
                  @ credential_scope (take 8 amz_date) region service
                  @ '', SignedHeaders='' @ signed_headers hdrs @ '', Signature='' @ sv_signature r)]"
    by (rule sigv4_sign_Inr [OF assms(1)])
  note c = collected_headers [OF h]
  have "signed_headers hdrs = join_on CHR '';'' (map fst hdrs)" by (rule signed_headers_join [OF c(4) [OF assms(2)]])
  moreover have "\<forall>(n, v) \<in> set (sr_headers req). \<not> managed_header (lower_ascii n)
      \<and> omap_lookup (lower_ascii n) hdrs = Some (join_on CHR '','' (header_values (lower_ascii n) (sr_headers req)))"
    using c(1,3) by auto
  moreover have "omap_lookup ''host'' hdrs = Some (canonical_value (sr_host req))"
    "omap_lookup ''x-amz-date'' hdrs = Some amz_date" "omap_lookup ''x-amz-content-sha256'' hdrs = Some (sr_payload_hash req)"
    by (simp_all add: c(2) managed_header_def initial_headers_lookup)
  ultimately show ?thesis
    using collect_headers_ok [OF initial_headers_ok h] r
    by (intro exI [of _ hdrs] conjI) (simp_all add: auth length_hex hex_chars)
qed

theorem sigv4_covers_headers_witness:
  "\<exists>r hdrs. sigv4_sign (\<lambda>_. Some []) (\<lambda>_ _. Some (replicate 32 NUL))
      \<lparr>sr_method = ''GET'', sr_host = ''h'', sr_path = ''/b/k'', sr_query = [], sr_headers = [(''Range'', ''bytes=0-9'')],
       sr_payload_hash = kUnsignedPayload\<rparr> \<lparr>access_key = ''A'', secret_key = ''S'', session_token = []\<rparr>
      ''us-east-1'' ''s3'' ''20250101T000000Z'' = Inr r
    \<and> omap_lookup ''range'' hdrs = Some ''bytes=0-9'' \<and> length (sv_signature r) = 64"
proof -
  let ?req = "\<lparr>sr_method = ''GET'', sr_host = ''h'', sr_path = ''/b/k'', sr_query = [],
      sr_headers = [(''Range'', ''bytes=0-9'')], sr_payload_hash = kUnsignedPayload\<rparr>"
  let ?cred = "\<lparr>access_key = ''A'', secret_key = ''S'', session_token = []\<rparr>"
  have low: "lower_ascii ''Range'' = ''range''" "canonical_value ''bytes=0-9'' = ''bytes=0-9''" by code_simp+
  obtain r where r: "sigv4_sign (\<lambda>_. Some []) (\<lambda>_ _. Some (replicate 32 NUL)) ?req ?cred ''us-east-1'' ''s3''
      ''20250101T000000Z'' = Inr r"
    by (simp add: sigv4_sign_def hmac_sha256_def sha256_hex_def INT_MAX_def low managed_header_def Let_def
        initial_headers_lookup)
  from sigv4_covers_headers [OF r] r show ?thesis by (auto simp: header_values_def low)
qed

end
