(* ===== verification/Raw_Http.thy ===== *)
theory Raw_Http
  imports SigV4
begin

text \<open>
  \<^verbatim>\<open>common/raw_http.hpp\<close>: one validated GET over a socket and its receipt. The operating system is
  an argument: a script of what name resolution, each connection attempt, each \<^verbatim>\<open>send\<close> and each
  \<^verbatim>\<open>recv\<close> does before the deadline. A script that has run out means that the deadline has passed, so
  every loop ends; \<^verbatim>\<open>strerror\<close> is an argument as well.
\<close>

section \<open>Data\<close>

record raw_field =
  rf_name :: string
  rf_lower_name :: string
  rf_value :: string
  rf_line :: string

datatype framing = NoFraming | ContentLength | ChunkedUnqualified | CloseDelimited | InvalidFraming

record raw_response =
  request_sent :: bool
  request_partial :: bool
  token_bearing :: bool
  request_bytes :: nat
  head_complete :: bool
  head_malformed :: bool
  head_bytes :: string
  status :: nat
  http_version :: string
  reason :: string
  hdr_fields :: "raw_field list"
  framing :: framing
  content_length :: int
  body_octets :: nat
  body_content :: nat
  body_truncated :: bool
  message_complete :: bool
  transport_error :: bool
  error :: string

definition empty_response :: raw_response where
  "empty_response = \<lparr>request_sent = False, request_partial = False, token_bearing = False, request_bytes = 0,
     head_complete = False, head_malformed = False, head_bytes = [], status = 0, http_version = [],
     reason = [], hdr_fields = [], framing = NoFraming, content_length = -1, body_octets = 0,
     body_content = 0, body_truncated = False, message_complete = False, transport_error = False, error = []\<rparr>"

definition field_count :: "raw_response \<Rightarrow> string \<Rightarrow> nat" where
  "field_count r lname = length (filter (\<lambda>f. rf_lower_name f = lname) (hdr_fields r))"

definition field_first :: "raw_response \<Rightarrow> string \<Rightarrow> raw_field option" where
  "field_first r lname = find (\<lambda>f. rf_lower_name f = lname) (hdr_fields r)"

section \<open>Request\<close>

definition is_tchar :: "char \<Rightarrow> bool" where
  "is_tchar c \<longleftrightarrow> is_upper c \<or> is_lower c \<or> is_digit c
     \<or> (c \<noteq> NUL \<and> c \<in> set (''!#$%&'' @ [CHR 0x27] @ ''*+-.^_'' @ [CHR 0x60] @ ''|~''))"

definition is_pchar_or_delim :: "char \<Rightarrow> bool" where
  "is_pchar_or_delim c \<longleftrightarrow> is_upper c \<or> is_lower c \<or> is_digit c
     \<or> (c \<noteq> NUL \<and> c \<in> set (''-._~%!$&'' @ [CHR 0x27] @ ''()*+,;=:@/?''))"

definition valid_field_value :: "string \<Rightarrow> bool" where
  "valid_field_value v \<longleftrightarrow> list_all (\<lambda>c. \<not> ((ord c < 32 \<and> c \<noteq> TAB) \<or> ord c = 127)) v"

definition reserved_header :: "string \<Rightarrow> bool" where
  "reserved_header lname \<longleftrightarrow> lname = ''host'' \<or> lname = ''connection'' \<or> lname = ''content-length''
     \<or> lname = ''transfer-encoding''"

fun add_headers :: "header_list \<Rightarrow> string \<Rightarrow> bool \<Rightarrow> (string \<times> bool) result" where
  "add_headers [] req tb = Inr (req, tb)"
| "add_headers ((n, v) # hs) req tb =
     (if n = [] then Inl (Invalid_argument ''empty field name'')
      else if \<not> list_all is_tchar n then Inl (Invalid_argument ''invalid field name'')
      else
        let lname = lower_ascii n in
        if reserved_header lname
        then Inl (Invalid_argument (''reserved header supplied by the caller: '' @ lname))
        else if \<not> valid_field_value v then Inl (Invalid_argument (''invalid field value for '' @ lname))
        else add_headers hs (req @ n @ '': '' @ v @ CRLF)
               (if lname = ''x-amz-rdma-token'' \<and> v \<noteq> [] then True else tb))"

definition build_request :: "string \<Rightarrow> string \<Rightarrow> header_list \<Rightarrow> (string \<times> bool) result" where
  "build_request host_header target headers =
     (if target = [] \<or> hd target \<noteq> CHR ''/''
      then Inl (Invalid_argument ''request target must be origin-form'')
      else if \<not> list_all is_pchar_or_delim target
      then Inl (Invalid_argument ''request target contains bytes that require encoding'')
      else if host_header = [] \<or> \<not> valid_field_value host_header \<or> find_char SP host_header \<noteq> None
      then Inl (Invalid_argument ''invalid Host value'')
      else bind_res (add_headers headers (''GET '' @ target @ '' HTTP/1.1'' @ CRLF @ ''Host: '' @ host_header @ CRLF) False)
             (\<lambda>(req, tb). Inr (req @ ''Connection: close'' @ CRLF @ CRLF, tb)))"

section \<open>Response head\<close>

definition next_line :: "string \<Rightarrow> (string \<times> string) option" where
  "next_line h = (case find_sub CRLF h of None \<Rightarrow> None | Some e \<Rightarrow> Some (take e h, drop (e + 2) h))"

definition is_ows :: "char \<Rightarrow> bool" where
  "is_ows c \<longleftrightarrow> c = SP \<or> c = TAB"

text \<open>The two index loops that narrow \<^verbatim>\<open>[b, e)\<close>: leading blanks first, then trailing ones.\<close>

definition trim_ows :: "string \<Rightarrow> string" where
  "trim_ows s = rev (dropWhile is_ows (rev (dropWhile is_ows s)))"

definition parse_field :: "string \<Rightarrow> raw_field option" where
  "parse_field line =
     (if is_ows (hd line) then None
      else case find_char CHR '':'' line of
        None \<Rightarrow> None
      | Some colon \<Rightarrow>
          if colon = 0 then None
          else
            let name = take colon line in
            if \<not> list_all is_tchar name then None
            else
              let v = trim_ows (drop (colon + 1) line) in
              if \<not> valid_field_value v then None
              else Some \<lparr>rf_name = name, rf_lower_name = lower_ascii name, rf_value = v, rf_line = line\<rparr>)"

function parse_fields :: "string \<Rightarrow> raw_field list \<Rightarrow> raw_field list \<times> bool" where
  "parse_fields h acc =
     (case next_line h of
        None \<Rightarrow> (acc, True)
      | Some (line, rest) \<Rightarrow>
          if line = [] then (acc, False)
          else (case parse_field line of
                  None \<Rightarrow> (acc, True)
                | Some f \<Rightarrow> parse_fields rest (acc @ [f])))"
  by pat_completeness auto
termination
  by (relation "measure (\<lambda>(h, _). length h)")
    (auto simp: next_line_def split: option.splits dest!: find_sub_Some)

declare parse_fields.simps [simp del]

definition status_line_ok :: "string \<Rightarrow> bool" where
  "status_line_ok line \<longleftrightarrow> 13 \<le> length line \<and> take 7 line = ''HTTP/1.'' \<and> is_digit (line ! 7)
     \<and> line ! 8 = SP \<and> line ! 12 = SP \<and> is_digit (line ! 9) \<and> is_digit (line ! 10) \<and> is_digit (line ! 11)"

definition parse_head :: "raw_response \<Rightarrow> raw_response" where
  "parse_head r =
     (case next_line (head_bytes r) of
        None \<Rightarrow> r\<lparr>head_malformed := True\<rparr>
      | Some (line, rest) \<Rightarrow>
          if \<not> status_line_ok line then r\<lparr>head_malformed := True\<rparr>
          else
            let r = r\<lparr>http_version := take 8 line,
                      status := digit_val (line ! 9) * 100 + digit_val (line ! 10) * 10 + digit_val (line ! 11),
                      reason := drop 13 line\<rparr> in
            if \<not> valid_field_value (reason r) then r\<lparr>head_malformed := True\<rparr>
            else
              let (fs, bad) = parse_fields rest (hdr_fields r)
              in if bad then r\<lparr>hdr_fields := fs, head_malformed := True\<rparr> else r\<lparr>hdr_fields := fs\<rparr>)"

definition decimal_step :: "nat \<Rightarrow> char \<Rightarrow> nat option" where
  "decimal_step v c = (if \<not> is_digit c then None else Some (v * 10 + digit_val c))"

definition parse_decimal :: "string \<Rightarrow> nat option" where
  "parse_decimal s = (if s = [] \<or> 18 < length s then None else scan decimal_step 0 s)"

text \<open>The loop over the \<^verbatim>\<open>Content-Length\<close> fields; \<^verbatim>\<open>v = -1\<close> before the first.\<close>

fun merge_lengths :: "int \<Rightarrow> raw_field list \<Rightarrow> int option" where
  "merge_lengths v [] = Some v"
| "merge_lengths v (f # fs) =
     (if rf_lower_name f = ''content-length'' then
        (case parse_decimal (rf_value f) of
           None \<Rightarrow> None
         | Some x \<Rightarrow> if 0 \<le> v \<and> int x \<noteq> v then None else merge_lengths (int x) fs)
      else merge_lengths v fs)"

definition classify_framing :: "raw_response \<Rightarrow> raw_response" where
  "classify_framing r =
     (let te = field_count r ''transfer-encoding''; cl = field_count r ''content-length'' in
      if 0 < te then
        r\<lparr>framing :=
            (if te = 1 \<and> cl = 0 \<and> map_option (\<lambda>f. lower_ascii (rf_value f)) (field_first r ''transfer-encoding'')
                  = Some ''chunked''
             then ChunkedUnqualified else InvalidFraming)\<rparr>
      else if cl = 0 then r\<lparr>framing := CloseDelimited\<rparr>
      else case merge_lengths (-1) (hdr_fields r) of
        None \<Rightarrow> r\<lparr>framing := InvalidFraming\<rparr>
      | Some v \<Rightarrow> r\<lparr>framing := ContentLength, content_length := v\<rparr>)"

section \<open>The exchange\<close>

datatype budget = Expired | OptionError nat

datatype conn_event =
    No_socket
  | Conn_budget budget
  | Conn_error nat
  | Connected

text \<open>
  \<open>Io_failed e late\<close> is a negative return with \<^verbatim>\<open>errno = e\<close> observed before or after the deadline.
  \<open>Sent n\<close> is a \<^verbatim>\<open>send\<close> that accepts at most \<open>n + 1\<close> of the bytes it was given, \<open>Recv d\<close> a \<^verbatim>\<open>recv\<close>
  that returns the bytes \<open>d\<close>, none of them meaning end of stream.
\<close>

datatype send_event = Send_option nat | Send_interrupted | Send_failed nat bool | Sent nat

datatype recv_event = Recv_option nat | Recv_interrupted | Recv_failed nat bool | Recv string

datatype resolution = Resolved "conn_event list" | Resolve_timeout | Resolve_error string

record net =
  net_resolution :: resolution
  net_sends :: "send_event list"
  net_recvs :: "recv_event list"

definition EAGAIN :: nat where "EAGAIN = 11"
definition ETIMEDOUT :: nat where "ETIMEDOUT = 110"

definition io_error :: "(nat \<Rightarrow> string) \<Rightarrow> string \<Rightarrow> nat \<Rightarrow> bool \<Rightarrow> string \<Rightarrow> string" where
  "io_error strerror opname err late phase =
     (if (err = EAGAIN \<or> err = ETIMEDOUT) \<and> late
      then ''deadline exceeded during '' @ phase @ '' (socket timeout)''
      else opname @ '': '' @ strerror err)"

definition budget_error :: "(nat \<Rightarrow> string) \<Rightarrow> budget \<Rightarrow> string \<Rightarrow> string" where
  "budget_error strerror b phase = (case b of
      Expired \<Rightarrow> ''deadline exceeded during '' @ phase
    | OptionError e \<Rightarrow> ''socket timeout option failed during '' @ phase @ '': '' @ strerror e)"

fun connect_loop :: "(nat \<Rightarrow> string) \<Rightarrow> string \<Rightarrow> conn_event list \<Rightarrow> bool \<times> string" where
  "connect_loop strerror err [] = (False, err)"
| "connect_loop strerror err (No_socket # es) = connect_loop strerror err es"
| "connect_loop strerror err (Conn_budget b # es) = (False, budget_error strerror b ''connect'')"
| "connect_loop strerror err (Conn_error e # es) = connect_loop strerror (''connect: '' @ strerror e) es"
| "connect_loop strerror err (Connected # es) = (True, [])"

text \<open>Bytes accepted so far and the error that ended the loop, if any.\<close>

fun send_loop :: "(nat \<Rightarrow> string) \<Rightarrow> nat \<Rightarrow> nat \<Rightarrow> send_event list \<Rightarrow> nat \<times> string" where
  "send_loop strerror len off [] =
     (if off < len then (off, budget_error strerror Expired ''send'') else (off, []))"
| "send_loop strerror len off (e # es) =
     (if off < len then
        (case e of
           Send_option err \<Rightarrow> (off, budget_error strerror (OptionError err) ''send'')
         | Send_interrupted \<Rightarrow> send_loop strerror len off es
         | Send_failed err late \<Rightarrow> (off, io_error strerror ''send'' err late ''send'')
         | Sent n \<Rightarrow> send_loop strerror len (off + min (Suc n) (len - off)) es)
      else (off, []))"

abbreviation (input) CRLFCRLF :: string where
  "CRLFCRLF \<equiv> [CHR 0x0D, CHR 0x0A, CHR 0x0D, CHR 0x0A]"

text \<open>Buffer, end-of-stream flag, error (\<^const>\<open>None\<close>: none) and the events left for the body.\<close>

fun head_loop :: "(nat \<Rightarrow> string) \<Rightarrow> nat \<Rightarrow> string \<Rightarrow> recv_event list \<Rightarrow>
    string \<times> bool \<times> string option \<times> recv_event list" where
  "head_loop strerror max_head buf [] =
     (if find_sub CRLFCRLF buf = None \<and> length buf < max_head
      then (buf, False, Some (budget_error strerror Expired ''receive''), []) else (buf, False, None, []))"
| "head_loop strerror max_head buf (e # es) =
     (if find_sub CRLFCRLF buf = None \<and> length buf < max_head then
        (case e of
           Recv_option err \<Rightarrow> (buf, False, Some (budget_error strerror (OptionError err) ''receive''), es)
         | Recv_interrupted \<Rightarrow> head_loop strerror max_head buf es
         | Recv_failed err late \<Rightarrow> (buf, False, Some (io_error strerror ''recv'' err late ''receive''), es)
         | Recv d \<Rightarrow> if d = [] then (buf, True, None, es) else head_loop strerror max_head (buf @ d) es)
      else (buf, False, None, e # es))"

text \<open>Body, end-of-stream flag, truncation flag and error.\<close>

fun body_loop :: "(nat \<Rightarrow> string) \<Rightarrow> raw_response \<Rightarrow> nat \<Rightarrow> string \<Rightarrow> bool \<Rightarrow> recv_event list \<Rightarrow>
    string \<times> bool \<times> bool \<times> string option" where
  "body_loop strerror r max_body body trunc [] =
     (if trunc \<or> (framing r = ContentLength \<and> 0 \<le> content_length r \<and> content_length r \<le> int (length body))
      then (body, False, trunc, None)
      else (body, False, trunc, Some (budget_error strerror Expired ''body'')))"
| "body_loop strerror r max_body body trunc (e # es) =
     (if trunc \<or> (framing r = ContentLength \<and> 0 \<le> content_length r \<and> content_length r \<le> int (length body))
      then (body, False, trunc, None)
      else (case e of
           Recv_option err \<Rightarrow> (body, False, trunc, Some (budget_error strerror (OptionError err) ''body''))
         | Recv_interrupted \<Rightarrow> body_loop strerror r max_body body trunc es
         | Recv_failed err late \<Rightarrow> (body, False, trunc, Some (io_error strerror ''recv'' err late ''body''))
         | Recv d \<Rightarrow>
             if d = [] then (body, True, trunc, None)
             else if max_body < length (body @ d)
             then body_loop strerror r max_body (take max_body (body @ d)) True es
             else body_loop strerror r max_body (body @ d) trunc es))"

text \<open>From the complete head to the receipt; \<open>eof\<close> is the flag the head loop left.\<close>

definition finish_body :: "(nat \<Rightarrow> string) \<Rightarrow> raw_response \<Rightarrow> nat \<Rightarrow> string \<Rightarrow> bool \<Rightarrow> recv_event list \<Rightarrow> raw_response" where
  "finish_body strerror r max_body body eof evs =
     (let (body, trunc) = (if max_body < length body then (take max_body body, True) else (body, False));
          (body, eof, trunc, err) =
            (if eof then (body, True, trunc, None) else body_loop strerror r max_body body trunc evs);
          r = r\<lparr>body_octets := length body, body_truncated := trunc\<rparr>;
          r = (case err of None \<Rightarrow> r | Some e \<Rightarrow> r\<lparr>error := e, transport_error := True\<rparr>)
      in case framing r of
           ContentLength \<Rightarrow>
             r\<lparr>body_content := length body,
               message_complete := err = None \<and> \<not> trunc \<and> 0 \<le> content_length r
                 \<and> int (length body) = content_length r\<rparr>
         | CloseDelimited \<Rightarrow>
             r\<lparr>body_content := length body, message_complete := eof \<and> err = None \<and> \<not> trunc\<rparr>
         | _ \<Rightarrow> r\<lparr>message_complete := False\<rparr>)"

definition receive_response :: "(nat \<Rightarrow> string) \<Rightarrow> raw_response \<Rightarrow> nat \<Rightarrow> nat \<Rightarrow> recv_event list \<Rightarrow> raw_response" where
  "receive_response strerror r max_head max_body evs =
     (let (buf, eof, err, rest) = head_loop strerror max_head [] evs;
          r = (case err of None \<Rightarrow> r | Some e \<Rightarrow> r\<lparr>error := e, transport_error := True\<rparr>);
          head_end = find_sub CRLFCRLF buf
      in case head_end of
           None \<Rightarrow>
             let r = r\<lparr>head_bytes := take max_head buf\<rparr> in
             if transport_error r then r
             else r\<lparr>transport_error := True,
                    error := (if max_head \<le> length buf then ''response head exceeds cap''
                              else ''connection closed before end of head'')\<rparr>
         | Some he \<Rightarrow>
             if max_head < he + 4 then
               let r = r\<lparr>head_bytes := take max_head buf\<rparr> in
               if transport_error r then r
               else r\<lparr>transport_error := True, error := ''response head exceeds cap''\<rparr>
             else
               let r = parse_head (r\<lparr>head_complete := True, head_bytes := take (he + 4) buf\<rparr>) in
               if head_malformed r then r
               else finish_body strerror (classify_framing r) max_body (drop (he + 4) buf) eof rest)"

definition raw_http_get ::
  "(nat \<Rightarrow> string) \<Rightarrow> net \<Rightarrow> string \<Rightarrow> string \<Rightarrow> header_list \<Rightarrow> nat \<Rightarrow> nat \<Rightarrow> raw_response result" where
  "raw_http_get strerror net host_header target headers max_head max_body =
     bind_res (build_request host_header target headers) (\<lambda>(req, tb).
       let r = empty_response\<lparr>token_bearing := tb\<rparr> in
       case net_resolution net of
         Resolve_timeout \<Rightarrow> Inr (r\<lparr>transport_error := True,
             error := ''deadline exceeded during resolution (resolver task abandoned; it frees its own result)''\<rparr>)
       | Resolve_error e \<Rightarrow> Inr (r\<lparr>transport_error := True, error := ''getaddrinfo: '' @ e\<rparr>)
       | Resolved conns \<Rightarrow>
           let (ok, err) = connect_loop strerror [] conns in
           if \<not> ok
           then Inr (r\<lparr>transport_error := True, error := (if err = [] then ''no usable address'' else err)\<rparr>)
           else
             let (off, err) = send_loop strerror (length req) 0 (net_sends net);
                 r = r\<lparr>request_bytes := off, error := err\<rparr>
             in if off < length req
                then Inr (r\<lparr>transport_error := True, request_partial := 0 < off\<rparr>)
                else Inr (receive_response strerror (r\<lparr>request_sent := True\<rparr>) max_head max_body (net_recvs net)))"

text \<open>Specifications: the lines of a message, its printed form, and the bytes a script delivers.\<close>

function crlf_lines :: "string \<Rightarrow> string list" where
  "crlf_lines h = (case next_line h of None \<Rightarrow> [h] | Some (line, rest) \<Rightarrow> line # crlf_lines rest)"
  by pat_completeness auto
termination
  by (relation "measure length") (auto simp: next_line_def split: option.splits dest!: find_sub_Some)

declare crlf_lines.simps [simp del]

definition print_field :: "string \<times> string \<Rightarrow> string" where
  "print_field h = fst h @ '': '' @ snd h"

definition print_lines :: "string list \<Rightarrow> string" where
  "print_lines ls = concat (map (\<lambda>l. l @ CRLF) ls)"

definition caller_header_ok :: "string \<times> string \<Rightarrow> bool" where
  "caller_header_ok h \<longleftrightarrow> fst h \<noteq> [] \<and> list_all is_tchar (fst h) \<and> \<not> reserved_header (lower_ascii (fst h))
     \<and> valid_field_value (snd h)"

definition is_token_header :: "string \<times> string \<Rightarrow> bool" where
  "is_token_header h \<longleftrightarrow> lower_ascii (fst h) = ''x-amz-rdma-token'' \<and> snd h \<noteq> []"

definition delivered :: "recv_event list \<Rightarrow> string" where
  "delivered evs = concat (map (\<lambda>e. case e of Recv d \<Rightarrow> d | _ \<Rightarrow> []) evs)"

definition response_field_ok :: "string \<times> string \<Rightarrow> bool" where
  "response_field_ok h \<longleftrightarrow> fst h \<noteq> [] \<and> list_all is_tchar (fst h) \<and> valid_field_value (snd h)
     \<and> (snd h \<noteq> [] \<longrightarrow> \<not> is_ows (hd (snd h)) \<and> \<not> is_ows (last (snd h)))"

definition field_of :: "string \<times> string \<Rightarrow> raw_field" where
  "field_of h = \<lparr>rf_name = fst h, rf_lower_name = lower_ascii (fst h), rf_value = snd h, rf_line = print_field h\<rparr>"

section \<open>Lines\<close>

lemma next_line_append: "CR \<notin> set l \<Longrightarrow> next_line (l @ CRLF @ rest) = Some (l, rest)"
  using find_sub_append [of CR l "[LF]" rest] by (simp add: next_line_def)

lemma crlf_lines_append: "CR \<notin> set l \<Longrightarrow> crlf_lines (l @ CRLF @ rest) = l # crlf_lines rest"
  using next_line_append [of l rest] by (subst crlf_lines.simps) simp

lemma crlf_lines_print:
  "\<forall>l \<in> set ls. CR \<notin> set l \<Longrightarrow> crlf_lines (print_lines ls @ rest) = ls @ crlf_lines rest"
  using crlf_lines_append by (induction ls) (auto simp: print_lines_def)

lemma crlf_lines_Nil: "crlf_lines [] = [[]]"
  by (subst crlf_lines.simps) (simp add: next_line_def)

lemma valid_field_value_no_crlf: "valid_field_value v \<Longrightarrow> CR \<notin> set v \<and> LF \<notin> set v"
  by (auto simp: valid_field_value_def list_all_iff)

lemma tchar_not: "is_tchar c \<Longrightarrow> c \<noteq> CR \<and> c \<noteq> LF \<and> c \<noteq> CHR '':'' \<and> \<not> is_ows c"
  by (auto simp: is_tchar_def is_ows_def is_upper_def is_lower_def is_digit_def)

lemma pchar_not: "is_pchar_or_delim c \<Longrightarrow> c \<noteq> CR \<and> c \<noteq> LF \<and> c \<noteq> SP"
  by (auto simp: is_pchar_or_delim_def is_upper_def is_lower_def is_digit_def)

section \<open>Building the request\<close>

lemma add_headers_Inr:
  "add_headers hs req tb = Inr (req', tb') \<longleftrightarrow>
     list_all caller_header_ok hs \<and> req' = req @ print_lines (map print_field hs)
     \<and> (tb' \<longleftrightarrow> tb \<or> list_ex is_token_header hs)"
  by (induction hs req tb rule: add_headers.induct)
    (auto simp: caller_header_ok_def print_lines_def print_field_def is_token_header_def Let_def)

lemma build_request_Inr:
  "build_request host target headers = Inr (req, tb) \<longleftrightarrow>
     target \<noteq> [] \<and> hd target = CHR ''/'' \<and> list_all is_pchar_or_delim target
     \<and> host \<noteq> [] \<and> valid_field_value host \<and> SP \<notin> set host
     \<and> list_all caller_header_ok headers
     \<and> req = print_lines ([''GET '' @ target @ '' HTTP/1.1'', ''Host: '' @ host] @ map print_field headers
               @ [''Connection: close'', []])
     \<and> (tb \<longleftrightarrow> list_ex is_token_header headers)"
  by (auto simp: build_request_def bind_res_Inr add_headers_Inr find_char_None print_lines_def)

lemma request_lines:
  assumes "build_request host target headers = Inr (req, tb)"
  shows "crlf_lines req = [''GET '' @ target @ '' HTTP/1.1'', ''Host: '' @ host] @ map print_field headers
           @ [''Connection: close'', [], []]"
proof -
  from assms have req: "req = print_lines ([''GET '' @ target @ '' HTTP/1.1'', ''Host: '' @ host]
      @ map print_field headers @ [''Connection: close'', []])"
    and ok: "list_all is_pchar_or_delim target" "valid_field_value host" "list_all caller_header_ok headers"
    by (simp_all add: build_request_Inr)
  have "CR \<notin> set target" using ok(1) pchar_not by (auto simp: list_all_iff)
  moreover have "\<forall>h \<in> set headers. CR \<notin> set (print_field h)"
    using ok(3) tchar_not valid_field_value_no_crlf
    by (fastforce simp: list_all_iff caller_header_ok_def print_field_def)
  ultimately show ?thesis
    using crlf_lines_print [of "[''GET '' @ target @ '' HTTP/1.1'', ''Host: '' @ host]
      @ map print_field headers @ [''Connection: close'', []]" "[]"] valid_field_value_no_crlf [OF ok(2)]
    by (auto simp: req crlf_lines_Nil)
qed

section \<open>Reading the head\<close>

lemma trim_ows_id:
  assumes "v \<noteq> [] \<longrightarrow> \<not> is_ows (hd v) \<and> \<not> is_ows (last v)"
  shows "trim_ows (SP # v) = v"
proof -
  have "dropWhile is_ows (SP # v) = v" using assms by (cases v) (auto simp: is_ows_def)
  moreover have "dropWhile is_ows (rev v) = rev v"
    using assms by (cases v rule: rev_cases) auto
  ultimately show ?thesis by (simp add: trim_ows_def)
qed

lemma parse_field_print: "response_field_ok h \<Longrightarrow> parse_field (print_field h) = Some (field_of h)"
proof -
  assume ok: "response_field_ok h"
  obtain n v where h: "h = (n, v)" by force
  from ok h obtain c cs where n: "n = c # cs" and t: "list_all is_tchar n"
    by (cases n) (auto simp: response_field_ok_def)
  then have "CHR '':'' \<notin> set n" using tchar_not by (auto simp: list_all_iff)
  then have "find_char CHR '':'' (n @ CHR '':'' # SP # v) = Some (length n)" by (rule find_char_append)
  moreover have "\<not> is_ows c" using n t tchar_not by simp
  moreover have "trim_ows (SP # v) = v" using ok h by (intro trim_ows_id) (simp add: response_field_ok_def)
  ultimately show ?thesis
    using ok t h by (simp add: parse_field_def print_field_def field_of_def response_field_ok_def n Let_def)
qed

lemma response_field_no_cr: "response_field_ok h \<Longrightarrow> CR \<notin> set (print_field h) \<and> print_field h \<noteq> []"
  using tchar_not valid_field_value_no_crlf
  by (fastforce simp: response_field_ok_def print_field_def list_all_iff)

lemma parse_fields_print:
  "list_all response_field_ok hs \<Longrightarrow>
   parse_fields (print_lines (map print_field hs) @ CRLF @ rest) acc = (acc @ map field_of hs, False)"
proof (induction hs arbitrary: acc)
  case Nil
  then show ?case
    using next_line_append [of "[]" rest] by (simp add: print_lines_def parse_fields.simps)
next
  case (Cons h hs)
  then have h: "response_field_ok h" and hs: "list_all response_field_ok hs" by simp_all
  have "next_line (print_lines (map print_field (h # hs)) @ CRLF @ rest)
      = Some (print_field h, print_lines (map print_field hs) @ CRLF @ rest)"
    using next_line_append [of "print_field h" "print_lines (map print_field hs) @ CRLF @ rest"]
      response_field_no_cr [OF h] by (simp add: print_lines_def)
  then show ?case
    using Cons.IH [OF hs] h response_field_no_cr [OF h]
    by (subst parse_fields.simps) (simp add: parse_field_print)
qed

text \<open>The printed form of a response head with version digit \<open>x\<close> and code digits \<open>a b c\<close>.\<close>

definition print_head :: "nat \<Rightarrow> nat \<Rightarrow> nat \<Rightarrow> nat \<Rightarrow> string \<Rightarrow> header_list \<Rightarrow> string" where
  "print_head x a b c reas hs =
     print_lines ((''HTTP/1.'' @ [digit_char x, SP, digit_char a, digit_char b, digit_char c, SP] @ reas)
       # map print_field hs) @ CRLF"

lemma status_line_print:
  fixes reas :: string
  assumes "x < 10" "a < 10" "b < 10" "c < 10"
  defines "l \<equiv> ''HTTP/1.'' @ [digit_char x, SP, digit_char a, digit_char b, digit_char c, SP] @ reas"
  shows "status_line_ok l" and "take 8 l = ''HTTP/1.'' @ [digit_char x]" and "drop 13 l = reas"
    and "digit_val (l ! 9) * 100 + digit_val (l ! 10) * 10 + digit_val (l ! 11) = a * 100 + b * 10 + c"
  using assms by (simp_all add: status_line_ok_def)

lemma digit_char_not_cr: "d < 10 \<Longrightarrow> digit_char d \<noteq> CR"
  using is_digit_digit_char [of d] by (auto simp: is_digit_def)

lemma parse_head_print:
  assumes d: "x < 10" "a < 10" "b < 10" "c < 10" and reas: "valid_field_value reas"
    and hs: "list_all response_field_ok hs" and r: "head_bytes r = print_head x a b c reas hs" "hdr_fields r = []"
  shows "parse_head r = r\<lparr>http_version := ''HTTP/1.'' @ [digit_char x], status := a * 100 + b * 10 + c,
           reason := reas, hdr_fields := map field_of hs\<rparr>"
proof -
  define l where "l = ''HTTP/1.'' @ [digit_char x, SP, digit_char a, digit_char b, digit_char c, SP] @ reas"
  have "CR \<notin> set l"
    using d valid_field_value_no_crlf [OF reas] digit_char_not_cr by (fastforce simp: l_def)
  then have "next_line (head_bytes r) = Some (l, print_lines (map print_field hs) @ CRLF)"
    using next_line_append [of l "print_lines (map print_field hs) @ CRLF"] r(1)
    by (simp add: print_head_def print_lines_def l_def)
  moreover note status_line_print [OF d, of reas, folded l_def]
  moreover note parse_fields_print [OF hs, of "[]" "[]"]
  ultimately show ?thesis using r(2) reas by (simp add: parse_head_def Let_def)
qed

section \<open>The exchange\<close>

lemma send_loop_bounds:
  "off \<le> len \<Longrightarrow> send_loop strerror len off es = (off', err) \<Longrightarrow> off \<le> off' \<and> off' \<le> len"
proof (induction es arbitrary: off)
  case Nil
  then show ?case by (auto split: if_splits)
next
  case (Cons e es)
  show ?case
  proof (cases "off < len")
    case True
    show ?thesis
    proof (cases e)
      case (Sent n)
      have "off + min (Suc n) (len - off) \<le> len" using True by simp
      with Sent True Cons.prems Cons.IH [of "off + min (Suc n) (len - off)"]
      have "off + min (Suc n) (len - off) \<le> off' \<and> off' \<le> len" by simp
      then show ?thesis by linarith
    qed (use True Cons.prems Cons.IH [of off] in auto)
  next
    case False
    with Cons.prems show ?thesis by simp
  qed
qed

lemma delivered_simps [simp]:
  "delivered [] = []" "delivered (Recv d # es) = d @ delivered es"
  "delivered (Recv_option e # es) = delivered es" "delivered (Recv_interrupted # es) = delivered es"
  "delivered (Recv_failed e l # es) = delivered es" "delivered (es @ es') = delivered es @ delivered es'"
  by (simp_all add: delivered_def)

lemma head_loop_reads:
  "head_loop strerror mh buf evs = (buf', eof, err, rest) \<Longrightarrow>
   (\<exists>used. evs = used @ rest \<and> buf' = buf @ delivered used)
   \<and> (find_sub CRLFCRLF buf' \<noteq> None \<longrightarrow> \<not> eof \<and> err = None)"
proof (induction evs arbitrary: buf)
  case Nil
  then show ?case by (auto split: if_splits)
next
  case (Cons e es)
  show ?case
  proof (cases "find_sub CRLFCRLF buf = None \<and> length buf < mh")
    case False
    with Cons.prems show ?thesis by (auto intro!: exI [of _ "[]"])
  next
    case True
    show ?thesis
    proof (cases e)
      case (Recv d)
      show ?thesis
      proof (cases "d = []")
        case True
        with Cons.prems Recv \<open>find_sub CRLFCRLF buf = None \<and> length buf < mh\<close> show ?thesis
          by (auto intro!: exI [of _ "[Recv []]"])
      next
        case False
        with Cons.prems Recv True have "head_loop strerror mh (buf @ d) es = (buf', eof, err, rest)" by simp
        from Cons.IH [OF this] Recv show ?thesis
          by (metis append.assoc append_Cons delivered_simps(2))
      qed
    next
      case Recv_interrupted
      with Cons.prems True have "head_loop strerror mh buf es = (buf', eof, err, rest)" by simp
      from Cons.IH [OF this] Recv_interrupted show ?thesis
        by (metis append_Cons delivered_simps(4))
    next
      case (Recv_option x)
      with Cons.prems True show ?thesis by (auto intro!: exI [of _ "[Recv_option x]"])
    next
      case (Recv_failed x l)
      with Cons.prems True show ?thesis by (auto intro!: exI [of _ "[Recv_failed x l]"])
    qed
  qed
qed

lemma body_loop_reads:
  "body_loop strerror r mb body trunc evs = (body', eof, trunc', err) \<Longrightarrow> length body \<le> mb \<Longrightarrow>
   length body' \<le> mb
   \<and> (\<not> trunc' \<longrightarrow> (\<exists>used rest. evs = used @ rest \<and> body' = body @ delivered used
                      \<and> (eof \<longrightarrow> used \<noteq> [] \<and> last used = Recv [])))"
proof (induction evs arbitrary: body trunc)
  case Nil
  then show ?case by (auto split: if_splits)
next
  case (Cons e es)
  let ?done = "trunc \<or> (framing r = ContentLength \<and> 0 \<le> content_length r \<and> content_length r \<le> int (length body))"
  show ?case
  proof (cases ?done)
    case True
    with Cons.prems have "body' = body" "\<not> eof" by auto
    with Cons.prems(2) show ?thesis by (intro conjI impI exI [of _ "[]"] exI [of _ "e # es"]) simp_all
  next
    case go: False
    have step: "length body' \<le> mb \<and> (\<not> trunc' \<longrightarrow> (\<exists>used rest. e # es = used @ rest
        \<and> body' = body @ delivered used \<and> (eof \<longrightarrow> used \<noteq> [] \<and> last used = Recv [])))"
      if rec: "body_loop strerror r mb (body @ delivered [e]) trunc es = (body', eof, trunc', err)"
        and len: "length (body @ delivered [e]) \<le> mb"
    proof -
      note ih = Cons.IH [OF rec len]
      moreover have "\<exists>used rest. e # es = used @ rest \<and> body' = body @ delivered used
          \<and> (eof \<longrightarrow> used \<noteq> [] \<and> last used = Recv [])" if nt: "\<not> trunc'"
      proof -
        from ih nt obtain used rest where "es = used @ rest" "body' = (body @ delivered [e]) @ delivered used"
          "eof \<longrightarrow> used \<noteq> [] \<and> last used = Recv []" by blast
        then show ?thesis
          by (intro exI [of _ "e # used"] exI [of _ rest]) (simp add: delivered_def)
      qed
      ultimately show ?thesis by blast
    qed
    show ?thesis
    proof (cases e)
      case (Recv d)
      consider "d = []" | "d \<noteq> []" "mb < length (body @ d)" | "d \<noteq> []" "length (body @ d) \<le> mb" by force
      then show ?thesis
      proof cases
        case 1
        with Cons.prems Recv go have "body' = body" "trunc' = trunc" by auto
        with Cons.prems(2) Recv 1 show ?thesis
          by (intro conjI impI exI [of _ "[Recv []]"] exI [of _ es]) simp_all
      next
        case 2
        with Cons.prems Recv go have rec: "body_loop strerror r mb (take mb (body @ d)) True es = (body', eof, trunc', err)"
          by simp
        have "trunc'" using rec by (cases es) auto
        with Cons.IH [OF rec] show ?thesis by simp
      next
        case 3
        with Cons.prems Recv go step show ?thesis by simp
      qed
    next
      case Recv_interrupted
      with Cons.prems go step show ?thesis by simp
    next
      case (Recv_option x)
      with Cons.prems go have "body' = body" "\<not> eof" by auto
      with Cons.prems(2) show ?thesis by (intro conjI impI exI [of _ "[]"] exI [of _ "e # es"]) simp_all
    next
      case (Recv_failed x l)
      with Cons.prems go have "body' = body" "\<not> eof" by auto
      with Cons.prems(2) show ?thesis by (intro conjI impI exI [of _ "[]"] exI [of _ "e # es"]) simp_all
    qed
  qed
qed

text \<open>What each stage leaves alone.\<close>

definition emission :: "raw_response \<Rightarrow> bool \<times> bool \<times> bool \<times> nat" where
  "emission r = (request_sent r, request_partial r, token_bearing r, request_bytes r)"

lemma parse_head_frame:
  "emission (parse_head r) = emission r" "head_complete (parse_head r) = head_complete r"
  "head_bytes (parse_head r) = head_bytes r" "transport_error (parse_head r) = transport_error r"
  "message_complete (parse_head r) = message_complete r" "body_octets (parse_head r) = body_octets r"
  by (auto simp: parse_head_def emission_def Let_def split: option.splits prod.splits)

lemma classify_framing_frame:
  "emission (classify_framing r) = emission r" "head_complete (classify_framing r) = head_complete r"
  "head_bytes (classify_framing r) = head_bytes r" "transport_error (classify_framing r) = transport_error r"
  "head_malformed (classify_framing r) = head_malformed r" "hdr_fields (classify_framing r) = hdr_fields r"
  "status (classify_framing r) = status r"
  by (auto simp: classify_framing_def emission_def Let_def split: option.splits)

lemma finish_body_frame:
  "emission (finish_body strerror r mb body eof evs) = emission r"
  "head_complete (finish_body strerror r mb body eof evs) = head_complete r"
  "head_bytes (finish_body strerror r mb body eof evs) = head_bytes r"
  "head_malformed (finish_body strerror r mb body eof evs) = head_malformed r"
  "hdr_fields (finish_body strerror r mb body eof evs) = hdr_fields r"
  "framing (finish_body strerror r mb body eof evs) = framing r"
  "content_length (finish_body strerror r mb body eof evs) = content_length r"
  "status (finish_body strerror r mb body eof evs) = status r"
  by (auto simp: finish_body_def emission_def Let_def split: option.splits prod.splits framing.splits)

lemmas stage_frames = parse_head_frame classify_framing_frame finish_body_frame

lemma emission_update [simp]:
  "emission (r\<lparr>head_bytes := h\<rparr>) = emission r" "emission (r\<lparr>head_complete := b\<rparr>) = emission r"
  "emission (r\<lparr>transport_error := b\<rparr>) = emission r" "emission (r\<lparr>error := e\<rparr>) = emission r"
  by (simp_all add: emission_def)

lemma receive_response_emission:
  "emission (receive_response strerror r mh mb evs) = emission r"
  by (simp add: receive_response_def stage_frames Let_def split: prod.split option.split)

text \<open>The receipt as it stands when the last request byte has been accepted.\<close>

definition sent_receipt :: "bool \<Rightarrow> nat \<Rightarrow> string \<Rightarrow> raw_response" where
  "sent_receipt tb n err =
     empty_response\<lparr>token_bearing := tb, request_bytes := n, error := err, request_sent := True\<rparr>"

lemma emission_sent_receipt: "emission (sent_receipt tb n err) = (True, False, tb, n)"
  by (simp add: sent_receipt_def emission_def empty_response_def)

lemma raw_http_get_cases:
  assumes "raw_http_get strerror net host target headers mh mb = Inr r"
  obtains (unsent) req tb where "build_request host target headers = Inr (req, tb)"
      "token_bearing r = tb" "\<not> request_sent r" "request_bytes r < length req" "transport_error r"
      "\<not> head_complete r" "\<not> message_complete r" "request_partial r \<longleftrightarrow> 0 < request_bytes r"
      "body_octets r = 0" "head_bytes r = []"
  | (sent) req tb err where "build_request host target headers = Inr (req, tb)"
      "r = receive_response strerror (sent_receipt tb (length req) err) mh mb (net_recvs net)"
      "emission r = (True, False, tb, length req)"
proof -
  obtain req tb where b: "build_request host target headers = Inr (req, tb)"
    using assms by (auto simp: raw_http_get_def bind_res_Inr)
  then have "0 < length req" by (simp add: build_request_Inr print_lines_def)
  obtain off err where s: "send_loop strerror (length req) 0 (net_sends net) = (off, err)" by force
  then have "off \<le> length req" using send_loop_bounds by blast
  then consider "r = receive_response strerror (sent_receipt tb (length req) err) mh mb (net_recvs net)"
    | "\<not> request_sent r" "token_bearing r = tb" "request_bytes r < length req" "transport_error r"
      "\<not> head_complete r" "\<not> message_complete r" "request_partial r \<longleftrightarrow> 0 < request_bytes r"
      "body_octets r = 0" "head_bytes r = []"
    using assms b s \<open>0 < length req\<close>
    by (cases "net_resolution net"; cases "off < length req")
      (auto simp: raw_http_get_def empty_response_def sent_receipt_def Let_def split: prod.splits if_splits)
  then show ?thesis
  proof cases
    case 1
    then show ?thesis
      using b receive_response_emission emission_sent_receipt by (intro sent [OF b]) simp_all
  next
    case 2
    then show ?thesis by (intro unsent [OF b])
  qed
qed

lemma parse_head_malformed_mono: "head_malformed r \<Longrightarrow> head_malformed (parse_head r)"
  by (auto simp: parse_head_def Let_def split: option.splits prod.splits)

text \<open>What the body stage has read when it declares the message complete.\<close>

lemma finish_body_complete:
  assumes r': "r' = finish_body strerror r mb body False evs"
    and "message_complete r'" "\<not> transport_error r"
  obtains used rest read where "evs = used @ rest" "read = body @ delivered used"
    "body_octets r' = length read" "body_content r' = length read" "length read \<le> mb"
    "\<not> transport_error r'" "\<not> body_truncated r'"
    "framing r' = ContentLength \<and> content_length r' = int (length read)
     \<or> framing r' = CloseDelimited \<and> used \<noteq> [] \<and> last used = Recv []"
proof -
  obtain read eof' trunc err where bl: "body_loop strerror r mb (if mb < length body then take mb body else body)
      (mb < length body) evs = (read, eof', trunc, err)"
    by (metis prod_cases4)
  with assms have err: "err = None" and nt: "\<not> trunc"
    by (auto simp: r' finish_body_def Let_def split: framing.splits option.splits if_splits)
  have short: "length body \<le> mb"
  proof (rule ccontr)
    assume "\<not> length body \<le> mb"
    with bl nt show False by (cases evs) auto
  qed
  with bl nt body_loop_reads [OF bl] obtain used rest where "evs = used @ rest" "read = body @ delivered used"
    "length read \<le> mb" "eof' \<longrightarrow> used \<noteq> [] \<and> last used = Recv []"
    by auto
  with assms bl short err nt show ?thesis
    by (intro that [of used rest read])
      (auto simp: r' finish_body_def Let_def split: framing.splits)
qed

lemma finish_body_bound: "body_octets (finish_body strerror r mb body eof evs) \<le> mb"
proof -
  obtain read eof' trunc err where bl: "body_loop strerror r mb (if mb < length body then take mb body else body)
      (mb < length body) evs = (read, eof', trunc, err)"
    by (metis prod_cases4)
  then have "length read \<le> mb" using body_loop_reads [OF bl] by simp
  with bl show ?thesis
    by (auto simp: finish_body_def Let_def split: framing.splits option.splits)
qed

lemma receive_response_bounds:
  "body_octets r \<le> mb \<Longrightarrow> length (head_bytes (receive_response strerror r mh mb evs)) \<le> mh
   \<and> body_octets (receive_response strerror r mh mb evs) \<le> mb"
  by (auto simp: receive_response_def Let_def stage_frames finish_body_bound split: prod.split option.split)

text \<open>The stages a complete message has passed, and the octets it consists of.\<close>

lemma receive_response_complete:
  assumes r: "r = receive_response strerror r0 mh mb evs" and mc: "message_complete r"
    and r0: "\<not> message_complete r0" "\<not> transport_error r0"
  obtains used rest body where "evs = used @ rest" "delivered used = head_bytes r @ body"
    "head_complete r" "\<not> head_malformed r" "\<not> transport_error r" "\<not> body_truncated r"
    "body_octets r = length body" "body_content r = length body"
    "find_sub CRLFCRLF (head_bytes r @ body) = Some (length (head_bytes r) - 4)"
    "framing r = ContentLength \<and> content_length r = int (length body)
     \<or> framing r = CloseDelimited \<and> used \<noteq> [] \<and> last used = Recv []"
proof -
  obtain buf eof err rest where hl: "head_loop strerror mh [] evs = (buf, eof, err, rest)" by (metis prod_cases4)
  from head_loop_reads [OF this] obtain used where used: "evs = used @ rest" "buf = delivered used"
    and found: "find_sub CRLFCRLF buf \<noteq> None \<longrightarrow> \<not> eof \<and> err = None" by auto
  have "find_sub CRLFCRLF buf \<noteq> None"
    using mc r0 hl by (auto simp: r receive_response_def Let_def split: option.splits if_splits)
  then obtain he where he: "find_sub CRLFCRLF buf = Some he" "\<not> eof" "err = None" using found by auto
  define rh where "rh = parse_head (r0\<lparr>head_complete := True, head_bytes := take (he + 4) buf\<rparr>)"
  have stage: "r = finish_body strerror (classify_framing rh) mb (drop (he + 4) buf) False rest"
    and ok: "\<not> head_malformed rh"
    using mc r0 hl he
    by (auto simp: r receive_response_def Let_def rh_def [symmetric] stage_frames split: option.splits if_splits)
      (simp_all add: rh_def stage_frames)
  have te: "\<not> transport_error (classify_framing rh)" using r0 by (simp add: rh_def stage_frames)
  have hb: "head_bytes r = take (he + 4) buf" and hc: "head_complete r"
    by (simp_all add: stage rh_def stage_frames)
  have len: "he + 4 \<le> length buf" using he(1) by (auto dest: find_sub_Some)
  obtain used' rest' read where b: "rest = used' @ rest'" "read = drop (he + 4) buf @ delivered used'"
    "body_octets r = length read" "body_content r = length read" "\<not> transport_error r" "\<not> body_truncated r"
    "framing r = ContentLength \<and> content_length r = int (length read)
     \<or> framing r = CloseDelimited \<and> used' \<noteq> [] \<and> last used' = Recv []"
    using finish_body_complete [OF stage mc te] by metis
  have "head_bytes r @ read = buf @ delivered used'" by (simp add: hb b(2) flip: append_assoc)
  with len hb have "find_sub CRLFCRLF (head_bytes r @ read) = Some (length (head_bytes r) - 4)"
    using find_sub_extend [OF he(1), of "delivered used'"] by simp
  with b used hb hc ok show ?thesis
    by (intro that [of "used @ used'" rest' read]) (auto simp: stage stage_frames)
qed

section \<open>A cooperative network\<close>

lemma connect_loop_cooperates:
  "list_all (\<lambda>e. e = No_socket \<or> (\<exists>n. e = Conn_error n)) fails \<Longrightarrow>
   connect_loop strerror err (fails @ Connected # others) = (True, [])"
  by (induction fails arbitrary: err) auto

lemma send_loop_cooperates:
  "off \<le> len \<Longrightarrow> len \<le> off + sum_list (map Suc ns) \<Longrightarrow> send_loop strerror len off (map Sent ns) = (len, [])"
proof (induction ns arbitrary: off)
  case Nil
  then show ?case by simp
next
  case (Cons n ns)
  show ?case
  proof (cases "off < len")
    case True
    with Cons.prems Cons.IH [of "off + min (Suc n) (len - off)"] show ?thesis by (auto simp: min_def)
  next
    case False
    with Cons.prems show ?thesis by simp
  qed
qed

lemma head_loop_cooperates:
  assumes "find_sub CRLFCRLF (h @ body) = Some (length h - 4)" "4 \<le> length h" "length h \<le> mh"
  shows "buf @ concat ds = h @ body \<Longrightarrow> list_all (\<lambda>d. d \<noteq> []) ds \<Longrightarrow>
    \<exists>ds1 ds2. ds = ds1 @ ds2 \<and> find_sub CRLFCRLF (buf @ concat ds1) = Some (length h - 4)
      \<and> head_loop strerror mh buf (map Recv ds) = (buf @ concat ds1, False, None, map Recv ds2)"
proof (induction ds arbitrary: buf)
  case Nil
  with assms show ?case by simp
next
  case (Cons d ds)
  show ?case
  proof (cases "find_sub CRLFCRLF buf")
    case (Some i)
    with Cons.prems assms(1) have "i = length h - 4" using find_sub_extend [OF Some, of "concat (d # ds)"] by simp
    with Some show ?thesis by (intro exI [of _ "[]"] exI [of _ "d # ds"]) simp
  next
    case None
    have "length buf < length h"
    proof (rule ccontr)
      assume "\<not> length buf < length h"
      with assms(2) have "length h - 4 + length CRLFCRLF \<le> length buf" by simp
      then have "find_sub CRLFCRLF buf = Some (length h - 4)"
        using find_sub_shrink [of CRLFCRLF buf "concat (d # ds)"] assms(1) Cons.prems(1) by simp
      with None show False by simp
    qed
    moreover obtain ds1 ds2 where "ds = ds1 @ ds2" "find_sub CRLFCRLF ((buf @ d) @ concat ds1) = Some (length h - 4)"
      "head_loop strerror mh (buf @ d) (map Recv ds) = ((buf @ d) @ concat ds1, False, None, map Recv ds2)"
      using Cons.IH [of "buf @ d"] Cons.prems by auto
    ultimately show ?thesis
      using None Cons.prems(2) assms(3) by (intro exI [of _ "d # ds1"] exI [of _ ds2]) simp
  qed
qed

lemma body_loop_cooperates:
  assumes "framing r = ContentLength" "content_length r = int (length full)" "length full \<le> mb"
  shows "body @ concat ds = full \<Longrightarrow> list_all (\<lambda>d. d \<noteq> []) ds \<Longrightarrow>
    body_loop strerror r mb body False (map Recv ds) = (full, False, False, None)"
proof (induction ds arbitrary: body)
  case Nil
  with assms show ?case by simp
next
  case (Cons d ds)
  then have "length body < length full" by (cases d) auto
  moreover have "length (body @ d) \<le> mb" using Cons.prems(1) assms(3) by auto
  ultimately show ?case using Cons assms by simp
qed

lemma merge_lengths_one:
  "field_count r ''content-length'' = 1 \<Longrightarrow> field_first r ''content-length'' = Some f \<Longrightarrow>
   merge_lengths (-1) (hdr_fields r) = map_option int (parse_decimal (rf_value f))"
proof -
  have none: "merge_lengths v fs = Some v" if "filter (\<lambda>f. rf_lower_name f = ''content-length'') fs = []" for v fs
    using that by (induction fs) (auto split: if_splits)
  have "length (filter (\<lambda>f. rf_lower_name f = ''content-length'') fs) = 1 \<Longrightarrow>
      find (\<lambda>f. rf_lower_name f = ''content-length'') fs = Some f \<Longrightarrow>
      merge_lengths (-1) fs = map_option int (parse_decimal (rf_value f))" for fs
    by (induction fs) (auto simp: none split: if_splits option.splits)
  then show "field_count r ''content-length'' = 1 \<Longrightarrow> field_first r ''content-length'' = Some f \<Longrightarrow> ?thesis"
    by (simp add: field_count_def field_first_def)
qed

lemma find_sub_skip:
  "c \<notin> set xs \<Longrightarrow> find_sub (c # p) (xs @ ys) = map_option ((+) (length xs)) (find_sub (c # p) ys)"
  by (induction xs; cases "find_sub (c # p) ys") (auto simp: starts_with_def)

lemma find_head_end:
  "ls \<noteq> [] \<Longrightarrow> \<forall>l \<in> set ls. CR \<notin> set l \<and> l \<noteq> [] \<Longrightarrow>
   find_sub CRLFCRLF (print_lines ls @ CRLF @ rest) = Some (length (print_lines ls) - 2)"
proof (induction ls)
  case Nil
  then show ?case by simp
next
  case (Cons l ls)
  show ?case
  proof (cases ls)
    case Nil
    with Cons.prems find_sub_append [of CR l "[LF, CR, LF]" rest] show ?thesis by (simp add: print_lines_def)
  next
    case (Cons m ms)
    with Cons.prems obtain c cs where m: "m = c # cs" "c \<noteq> CR" by (cases m) auto
    then have "find_sub CRLFCRLF (CRLF @ print_lines ls @ CRLF @ rest)
        = map_option ((+) 2) (find_sub CRLFCRLF (print_lines ls @ CRLF @ rest))"
      using Cons by (simp add: print_lines_def starts_with_def option.map_comp comp_def)
    also have "\<dots> = Some (2 + (length (print_lines ls) - 2))" using Cons.IH Cons Cons.prems by simp
    finally show ?thesis
      using find_sub_skip [of CR l "[LF, CR, LF]" "CRLF @ print_lines ls @ CRLF @ rest"] Cons.prems Cons
      by (simp add: print_lines_def)
  qed
qed

lemma print_head_end:
  assumes "x < 10" "a < 10" "b < 10" "c < 10" "valid_field_value reas" "list_all response_field_ok hs"
  shows "find_sub CRLFCRLF (print_head x a b c reas hs @ rest) = Some (length (print_head x a b c reas hs) - 4)"
    and "4 \<le> length (print_head x a b c reas hs)"
proof -
  define l where "l = ''HTTP/1.'' @ [digit_char x, SP, digit_char a, digit_char b, digit_char c, SP] @ reas"
  have "CR \<notin> set l \<and> l \<noteq> []"
    using assms valid_field_value_no_crlf digit_char_not_cr by (fastforce simp: l_def)
  then have "\<forall>m \<in> set (l # map print_field hs). CR \<notin> set m \<and> m \<noteq> []"
    using assms(6) response_field_no_cr by (auto simp: list_all_iff)
  from find_head_end [OF _ this, of rest]
  show "find_sub CRLFCRLF (print_head x a b c reas hs @ rest) = Some (length (print_head x a b c reas hs) - 4)"
    by (simp add: print_head_def l_def)
  show "4 \<le> length (print_head x a b c reas hs)" by (simp add: print_head_def print_lines_def)
qed

lemma field_count_printed: "hdr_fields r = map field_of hs \<Longrightarrow>
   field_count r n = length (filter (\<lambda>h. lower_ascii (fst h) = n) hs)"
  by (simp add: field_count_def filter_map comp_def field_of_def)

lemma field_first_printed: "hdr_fields r = map field_of hs \<Longrightarrow>
   filter (\<lambda>h. lower_ascii (fst h) = n) hs = h # more_hs \<Longrightarrow> field_first r n = Some (field_of h)"
proof -
  have "filter (\<lambda>h. lower_ascii (fst h) = n) hs = h # more_hs \<Longrightarrow>
      find (\<lambda>f. rf_lower_name f = n) (map field_of hs) = Some (field_of h)"
    by (induction hs) (auto simp: field_of_def split: if_splits)
  then show "hdr_fields r = map field_of hs \<Longrightarrow> filter (\<lambda>h. lower_ascii (fst h) = n) hs = h # more_hs \<Longrightarrow> ?thesis"
    by (simp add: field_first_def)
qed

lemma scan_decimal: "list_all is_digit s \<Longrightarrow> scan decimal_step n s = Some (dec_value_from n s)"
  by (induction s arbitrary: n) (auto simp: decimal_step_def mult.commute)

lemma classify_content_length:
  assumes "hdr_fields r = map field_of hs" "filter (\<lambda>h. lower_ascii (fst h) = ''transfer-encoding'') hs = []"
    "filter (\<lambda>h. lower_ascii (fst h) = ''content-length'') hs = [(n, to_string len)]" "length (to_string len) \<le> 18"
  shows "classify_framing r = r\<lparr>framing := ContentLength, content_length := int len\<rparr>"
proof -
  have "field_first r ''content-length'' = Some (field_of (n, to_string len))"
    using field_first_printed [OF assms(1,3)] .
  then have "merge_lengths (-1) (hdr_fields r) = Some (int len)"
    using merge_lengths_one [of r] assms field_count_printed [OF assms(1)]
    by (simp add: field_of_def parse_decimal_def scan_decimal [OF to_string_digits])
  then show ?thesis using assms field_count_printed [OF assms(1)] by (simp add: classify_framing_def)
qed

section \<open>Properties\<close>

text \<open>A concrete exchange: the answer arrives in two pieces, the first ends inside the head.\<close>

definition demo_net :: net where
  "demo_net = \<lparr>net_resolution = Resolved [No_socket, Connected], net_sends = [Sent 40, Send_interrupted, Sent 400],
     net_recvs = [Recv (''HTTP/1.1 200 OK'' @ CRLF @ ''Content-Len''), Recv_interrupted,
                  Recv (''gth: 2'' @ CRLF @ CRLF @ ''hi'')]\<rparr>"

definition demo_get :: "raw_response result" where
  "demo_get = raw_http_get (\<lambda>_. []) demo_net ''h:80'' ''/b/k'' [(''x-amz-rdma-token'', ''t'')] 64 16"

lemma demo_get_ok:
  obtains r where "demo_get = Inr r" "message_complete r" "status r = 200" "request_sent r" "token_bearing r"
proof -
  have "case demo_get of Inl _ \<Rightarrow> False
    | Inr r \<Rightarrow> message_complete r \<and> status r = 200 \<and> request_sent r \<and> token_bearing r"
    by code_simp
  then show ?thesis using that by (auto split: sum.splits)
qed

text \<open>No header injection. An accepted request consists of exactly the lines the caller asked for:
  the request line, one Host line, one line per caller field in order, \<^verbatim>\<open>Connection: close\<close> and the empty
  line; and it is flagged token-bearing exactly when a non-empty RDMA token field is among them.\<close>

lemma build_request_exact:
  assumes "build_request host target headers = Inr (req, tb)"
  shows "crlf_lines req = [''GET '' @ target @ '' HTTP/1.1'', ''Host: '' @ host] @ map print_field headers
           @ [''Connection: close'', [], []]
         \<and> list_all caller_header_ok headers \<and> SP \<notin> set target \<and> hd target = CHR ''/''
         \<and> (tb \<longleftrightarrow> list_ex is_token_header headers)"
proof -
  have "SP \<notin> set target" using assms pchar_not by (auto simp: build_request_Inr list_all_iff)
  then show ?thesis using assms request_lines [OF assms] by (simp add: build_request_Inr)
qed

text \<open>The emission record cannot lie: for every behaviour of the network, \<^verbatim>\<open>request_sent\<close> means that
  all bytes of the request were accepted, \<^verbatim>\<open>request_partial\<close> that some but not all were, and neither
  flag that none was; an unsent request is a transport error and claims no response.\<close>

lemma emission_truthful:
  assumes "raw_http_get strerror net host target headers mh mb = Inr r"
  shows "\<exists>req. build_request host target headers = Inr (req, token_bearing r)
           \<and> request_bytes r \<le> length req
           \<and> (request_sent r \<longleftrightarrow> request_bytes r = length req)
           \<and> (request_partial r \<longleftrightarrow> 0 < request_bytes r \<and> request_bytes r < length req)
           \<and> (\<not> request_sent r \<longrightarrow> transport_error r \<and> \<not> head_complete r \<and> \<not> message_complete r)"
  using assms
proof (cases rule: raw_http_get_cases)
  case unsent
  then show ?thesis by auto
next
  case sent
  then show ?thesis by (auto simp: emission_def)
qed

lemma complete_receipt:
  assumes "raw_http_get strerror net host target headers mh mb = Inr r" and "message_complete r"
  shows "request_sent r \<and> head_complete r \<and> \<not> head_malformed r \<and> \<not> transport_error r \<and> \<not> body_truncated r
    \<and> (\<exists>used rest body. net_recvs net = used @ rest \<and> delivered used = head_bytes r @ body
         \<and> find_sub CRLFCRLF (head_bytes r @ body) = Some (length (head_bytes r) - 4)
         \<and> body_octets r = length body \<and> body_content r = length body
         \<and> (framing r = ContentLength \<and> content_length r = int (length body)
            \<or> framing r = CloseDelimited \<and> used \<noteq> [] \<and> last used = Recv []))"
  using assms(1)
proof (cases rule: raw_http_get_cases)
  case (unsent req tb)
  with assms(2) show ?thesis by simp
next
  case (sent req tb err)
  have "\<not> message_complete (sent_receipt tb (length req) err)" "\<not> transport_error (sent_receipt tb (length req) err)"
    by (simp_all add: sent_receipt_def empty_response_def)
  from receive_response_complete [OF sent(2) assms(2) this] sent(3) show ?thesis
    by (auto simp: emission_def) metis+
qed

text \<open>C10. A receipt that claims a complete message is backed by the octets received: the request went
  out whole, the head is complete and well-formed, no error or truncation happened, and the octets
  read from the socket are the recorded head (ending at the first empty line) followed by exactly the
  body, delimited by its declared length or by the end of the stream.\<close>

theorem message_complete_sound:
  assumes "raw_http_get strerror net host target headers mh mb = Inr r" and "message_complete r"
  shows "request_sent r \<and> head_complete r \<and> \<not> head_malformed r \<and> \<not> transport_error r \<and> \<not> body_truncated r
    \<and> (\<exists>used rest body. net_recvs net = used @ rest \<and> delivered used = head_bytes r @ body
         \<and> find_sub CRLFCRLF (head_bytes r @ body) = Some (length (head_bytes r) - 4)
         \<and> body_octets r = length body \<and> body_content r = length body
         \<and> (framing r = ContentLength \<and> content_length r = int (length body)
            \<or> framing r = CloseDelimited \<and> used \<noteq> [] \<and> last used = Recv []))"
  using complete_receipt [OF assms] .

theorem message_complete_sound_witness:
  "\<exists>r used rest body. demo_get = Inr r \<and> net_recvs demo_net = used @ rest \<and> delivered used = head_bytes r @ body"
proof -
  obtain r where "demo_get = Inr r" "message_complete r" using demo_get_ok by metis
  with message_complete_sound [OF this(1) [unfolded demo_get_def] this(2)] show ?thesis by metis
qed

text \<open>The evidence kept is bounded by the caps whatever the peer sends.\<close>

lemma receipt_bounded:
  assumes "raw_http_get strerror net host target headers mh mb = Inr r"
  shows "length (head_bytes r) \<le> mh \<and> body_octets r \<le> mb"
  using assms
proof (cases rule: raw_http_get_cases)
  case unsent
  then show ?thesis by simp
next
  case (sent req tb err)
  then show ?thesis
    using receive_response_bounds [of "sent_receipt tb (length req) err" mb strerror mh "net_recvs net"]
    by (simp add: sent_receipt_def empty_response_def)
qed

lemma exchange_whole:
  assumes req: "build_request host target headers = Inr (req, tb)"
    and conn: "net_resolution net = Resolved (fails @ Connected # others)"
      "list_all (\<lambda>e. e = No_socket \<or> (\<exists>n. e = Conn_error n)) fails"
    and sends: "net_sends net = map Sent ns" "length req \<le> sum_list (map Suc ns)"
    and recvs: "net_recvs net = map Recv ds" "list_all (\<lambda>d. d \<noteq> []) ds"
      "concat ds = print_head x a b c reas hs @ body"
    and head: "x < 10" "a < 10" "b < 10" "c < 10" "valid_field_value reas" "list_all response_field_ok hs"
    and te: "filter (\<lambda>h. lower_ascii (fst h) = ''transfer-encoding'') hs = []"
    and cl: "filter (\<lambda>h. lower_ascii (fst h) = ''content-length'') hs = [(n, to_string (length body))]"
      "length (to_string (length body)) \<le> 18"
    and caps: "length (print_head x a b c reas hs) \<le> mh" "length body \<le> mb"
  shows "\<exists>r. raw_http_get strerror net host target headers mh mb = Inr r \<and> message_complete r
    \<and> status r = a * 100 + b * 10 + c \<and> hdr_fields r = map field_of hs \<and> body_octets r = length body"
proof -
  define h where "h = print_head x a b c reas hs"
  define r0 where "r0 = sent_receipt tb (length req) []"
  obtain ds1 ds2 where ds: "ds = ds1 @ ds2" "find_sub CRLFCRLF (concat ds1) = Some (length h - 4)"
    "head_loop strerror mh [] (map Recv ds) = (concat ds1, False, None, map Recv ds2)"
    using head_loop_cooperates [of h body mh "[]" ds strerror] print_head_end [OF head] caps(1) recvs(2,3)
    by (auto simp: h_def)
  have h4: "4 \<le> length h" using print_head_end(2) [OF head] by (simp add: h_def)
  then have le: "length h \<le> length (concat ds1)" using conjunct2 [OF find_sub_Some [OF ds(2)]] by simp
  have split: "concat ds1 @ concat ds2 = h @ body" using recvs(3) ds(1) by (simp add: h_def)
  have hb: "take (length h) (concat ds1) = h"
    using arg_cong [OF split, of "take (length h)"] le by simp
  have bd: "drop (length h) (concat ds1) @ concat ds2 = body"
    using arg_cong [OF split, of "drop (length h)"] le by simp
  define rh where "rh = r0\<lparr>head_complete := True, head_bytes := h, http_version := ''HTTP/1.'' @ [digit_char x],
      status := a * 100 + b * 10 + c, reason := reas, hdr_fields := map field_of hs\<rparr>"
  have ph: "parse_head (r0\<lparr>head_complete := True, head_bytes := h\<rparr>) = rh"
    using parse_head_print [OF head, of "r0\<lparr>head_complete := True, head_bytes := h\<rparr>"]
    by (simp add: h_def rh_def r0_def sent_receipt_def empty_response_def)
  have cf: "classify_framing rh = rh\<lparr>framing := ContentLength, content_length := int (length body)\<rparr>"
    using classify_content_length [of rh hs n "length body"] te cl by (simp add: rh_def)
  have bl: "body_loop strerror (classify_framing rh) mb (drop (length h) (concat ds1)) False (map Recv ds2)
      = (body, False, False, None)"
    using recvs(2) ds(1) caps(2) bd by (intro body_loop_cooperates) (simp_all add: cf)
  have short: "length (drop (length h) (concat ds1)) \<le> mb" using bd caps(2) by auto
  have "\<not> head_malformed rh" by (simp add: rh_def r0_def sent_receipt_def empty_response_def)
  then have "receive_response strerror r0 mh mb (net_recvs net)
      = finish_body strerror (classify_framing rh) mb (drop (length h) (concat ds1)) False (map Recv ds2)"
    using ds h4 hb ph caps(1) by (simp add: receive_response_def recvs(1) h_def [symmetric])
  moreover have "\<dots> = (classify_framing rh)\<lparr>body_octets := length body, body_truncated := False,
      body_content := length body, message_complete := True\<rparr>"
    using bl short by (simp add: finish_body_def cf)
  moreover have "raw_http_get strerror net host target headers mh mb
      = Inr (receive_response strerror r0 mh mb (net_recvs net))"
    using req conn connect_loop_cooperates [OF conn(2)] send_loop_cooperates [of 0 "length req" ns] sends
    by (simp add: raw_http_get_def r0_def sent_receipt_def)
  moreover have "status rh = a * 100 + b * 10 + c" "hdr_fields rh = map field_of hs" by (simp_all add: rh_def)
  ultimately show ?thesis by (simp add: stage_frames)
qed

text \<open>C11. A well-behaved exchange completes. If some address connects, the socket takes the whole
  request and the peer delivers, in any segmentation, a well-formed head within the cap that carries
  one correct Content-Length and the announced body within its cap, then the receipt is complete and
  reports exactly the status, the fields and the body size that were sent.\<close>

theorem exchange_completes:
  assumes req: "build_request host target headers = Inr (req, tb)"
    and conn: "net_resolution net = Resolved (fails @ Connected # others)"
      "list_all (\<lambda>e. e = No_socket \<or> (\<exists>n. e = Conn_error n)) fails"
    and sends: "net_sends net = map Sent ns" "length req \<le> sum_list (map Suc ns)"
    and recvs: "net_recvs net = map Recv ds" "list_all (\<lambda>d. d \<noteq> []) ds"
      "concat ds = print_head x a b c reas hs @ body"
    and head: "x < 10" "a < 10" "b < 10" "c < 10" "valid_field_value reas" "list_all response_field_ok hs"
    and te: "filter (\<lambda>h. lower_ascii (fst h) = ''transfer-encoding'') hs = []"
    and cl: "filter (\<lambda>h. lower_ascii (fst h) = ''content-length'') hs = [(n, to_string (length body))]"
      "length (to_string (length body)) \<le> 18"
    and caps: "length (print_head x a b c reas hs) \<le> mh" "length body \<le> mb"
  shows "\<exists>r. raw_http_get strerror net host target headers mh mb = Inr r \<and> message_complete r
    \<and> status r = a * 100 + b * 10 + c \<and> hdr_fields r = map field_of hs \<and> body_octets r = length body"
  using exchange_whole [OF assms] .

theorem exchange_completes_witness:
  "\<exists>r. raw_http_get (\<lambda>_. []) \<lparr>net_resolution = Resolved [Connected], net_sends = [Sent 400],
       net_recvs = [Recv (print_head 1 2 0 0 ''OK'' [(''Content-Length'', ''2'')] @ ''hi'')]\<rparr> ''h:80'' ''/b/k'' [] 64 16 = Inr r
     \<and> message_complete r \<and> status r = 200"
proof -
  let ?hs = "[(''Content-Length'', ''2'')]"
  have "case build_request ''h:80'' ''/b/k'' [] of Inl _ \<Rightarrow> False | Inr (req, tb) \<Rightarrow> length req \<le> 400"
    by code_simp
  then obtain req tb where b: "build_request ''h:80'' ''/b/k'' [] = Inr (req, tb)" and "length req \<le> 400"
    by (auto split: sum.splits)
  moreover have "list_all response_field_ok ?hs" "to_string (Suc (Suc 0)) = ''2''"
    "filter (\<lambda>h. lower_ascii (fst h) = ''transfer-encoding'') ?hs = []"
    "filter (\<lambda>h. lower_ascii (fst h) = ''content-length'') ?hs = ?hs"
    "length (print_head 1 2 0 0 ''OK'' ?hs) \<le> 64" "valid_field_value ''OK''"
    by code_simp+
  ultimately have "\<exists>r. raw_http_get (\<lambda>_. []) \<lparr>net_resolution = Resolved [Connected], net_sends = [Sent 400],
       net_recvs = [Recv (print_head 1 2 0 0 ''OK'' ?hs @ ''hi'')]\<rparr> ''h:80'' ''/b/k'' [] 64 16 = Inr r
     \<and> message_complete r \<and> status r = 2 * 100 + 0 * 10 + 0 \<and> hdr_fields r = map field_of ?hs
     \<and> body_octets r = length ''hi''"
    by (intro exchange_completes [OF b, where fails = "[]" and others = "[]" and ns = "[400]"
          and ds = "[print_head 1 2 0 0 ''OK'' ?hs @ ''hi'']" and x = 1 and reas = "''OK''"
          and n = "''Content-Length''"]) simp_all
  then show ?thesis by auto
qed

end
