(* ===== verification/Base64.thy ===== *)
theory Base64
  imports Prelude
begin

text \<open>
  \<^verbatim>\<open>common/base64.hpp\<close>: the encoder works on groups of three bytes packed into a 32-bit word,
  the decoder shifts six bits at a time through an \<^verbatim>\<open>int\<close> accumulator that is never masked and
  so keeps stale high bits; the round trip shows that they never reach the output.
\<close>

unbundle bit_operations_syntax

section \<open>Definitions\<close>

definition b64_tbl :: string where
  "b64_tbl = ''ABCDEFGHIJKLMNOPQRSTUVWXYZabcdefghijklmnopqrstuvwxyz0123456789+/''"

definition byte_word :: "char \<Rightarrow> u32" where
  "byte_word c = word_of_nat (ord c)"

definition b64_char :: "u32 \<Rightarrow> char" where
  "b64_char w = b64_tbl ! unat (w AND 0x3F)"

fun base64_encode :: "string \<Rightarrow> string" where
  "base64_encode [] = []"
| "base64_encode (a # r) =
     (let n = push_bit 16 (byte_word a);
          n = (case r of [] \<Rightarrow> n | b # _ \<Rightarrow> n OR push_bit 8 (byte_word b));
          n = (case r of _ # c # _ \<Rightarrow> n OR byte_word c | _ \<Rightarrow> n)
      in b64_char (drop_bit 18 n) # b64_char (drop_bit 12 n)
         # (if r \<noteq> [] then b64_char (drop_bit 6 n) else CHR ''='')
         # (if 1 < length r then b64_char n else CHR ''='')
         # base64_encode (drop 2 r))"

text \<open>The lambda \<^verbatim>\<open>val\<close> of the decoder: \<open>-1\<close> for padding and every byte outside the alphabet.\<close>

definition b64_val :: "char \<Rightarrow> int" where
  "b64_val c =
     (if is_upper c then int (ord c) - 65
      else if is_lower c then int (ord c) - 97 + 26
      else if is_digit c then int (ord c) - 48 + 52
      else if c = CHR ''+'' then 62
      else if c = CHR ''/'' then 63
      else -1)"

text \<open>
  \<^verbatim>\<open>buf\<close> is a C++ \<^verbatim>\<open>int\<close>: \<^verbatim>\<open>(buf << 6) | v\<close> drops the bits shifted out of the 32-bit word and
  \<^verbatim>\<open>>>\<close> is the arithmetic shift.
\<close>

fun base64_decode_loop :: "u32 \<Rightarrow> nat \<Rightarrow> string \<Rightarrow> string" where
  "base64_decode_loop buf bits [] = []"
| "base64_decode_loop buf bits (c # cs) =
     (let v = b64_val c in
      if v < 0 then base64_decode_loop buf bits cs
      else
        let buf = push_bit 6 buf OR word_of_int v; bits = bits + 6 in
        if 8 \<le> bits then
          char_of (unat (signed_drop_bit (bits - 8) buf AND 0xFF))
            # base64_decode_loop buf (bits - 8) cs
        else base64_decode_loop buf bits cs)"

definition base64_decode :: "string \<Rightarrow> string" where
  "base64_decode s = base64_decode_loop 0 0 s"

section \<open>The alphabet\<close>

lemma b64_tbl_length [simp]: "length b64_tbl = 64"
  by (simp add: b64_tbl_def)

lemma b64_val_tbl_all: "\<forall>n \<in> set [0..<64]. b64_val (b64_tbl ! n) = int n"
  by (simp add: upt_conv_Cons b64_tbl_def b64_val_def is_upper_def is_lower_def is_digit_def)

lemma b64_val_tbl: "n < 64 \<Longrightarrow> b64_val (b64_tbl ! n) = int n"
  using b64_val_tbl_all by simp

lemma and_3F_bound: "unat ((w :: u32) AND 0x3F) < 64"
proof -
  have "w AND 0x3F \<le> 0x3F" by (rule word_and_le1)
  then have "unat (w AND 0x3F) \<le> unat (0x3F :: u32)" by (simp only: word_le_nat_alt)
  then show ?thesis by simp
qed

lemma b64_val_char [simp]: "b64_val (b64_char w) = int (unat (w AND 0x3F))"
  by (simp add: b64_char_def b64_val_tbl and_3F_bound)

lemma b64_char_in_alphabet: "b64_char w \<in> set b64_tbl"
  by (simp add: b64_char_def and_3F_bound)

section \<open>Bit lemmas\<close>

lemma word_3F: "(0x3F :: u32) = mask 6" and word_FF: "(0xFF :: u32) = mask 8"
  by (simp_all add: mask_eq_exp_minus_1)

lemma unat_byte_word [simp]: "unat (byte_word c) = ord c"
proof -
  have "ord c < 2 ^ 32" using ord_lt_256 [of c] by (rule less_trans) simp
  then show ?thesis by (simp add: byte_word_def unat_of_nat)
qed

lemma byte_word_masked: "byte_word c AND 0xFF = byte_word c"
proof -
  have "unat (take_bit 8 (byte_word c)) = unat (byte_word c)"
    by (simp add: take_bit_eq_mod unat_mod)
  then have "take_bit 8 (byte_word c) = byte_word c" by (simp only: word_unat_eq_iff)
  then show ?thesis by (simp add: word_FF take_bit_eq_mask)
qed

lemma bit_byte_word: "bit (byte_word c) k \<Longrightarrow> k < 8"
  using byte_word_masked [of c] by (metis bit_and_iff bit_mask_iff word_FF)

text \<open>One sextet shifted into the accumulator, and three bytes packed into a group word.\<close>

definition acc6 :: "u32 \<Rightarrow> u32 \<Rightarrow> u32" where
  "acc6 buf w = push_bit 6 buf OR (w AND 0x3F)"

definition pack3 :: "char \<Rightarrow> char \<Rightarrow> char \<Rightarrow> u32" where
  "pack3 a b c = (push_bit 16 (byte_word a) OR push_bit 8 (byte_word b)) OR byte_word c"

lemmas bit_reading = acc6_def word_3F word_FF bit_simps

lemma first_byte:
  "signed_drop_bit 4 (acc6 (acc6 buf (drop_bit 18 n)) (drop_bit 12 n)) AND 0xFF = drop_bit 16 n AND 0xFF"
  by (rule bit_word_eqI) (auto simp: bit_reading)

lemma second_byte:
  "signed_drop_bit 2 (acc6 (acc6 buf (drop_bit 12 n)) (drop_bit 6 n)) AND 0xFF = drop_bit 8 n AND 0xFF"
  by (rule bit_word_eqI) (auto simp: bit_reading)

lemma third_byte:
  "signed_drop_bit 0 (acc6 (acc6 buf (drop_bit 6 n)) n) AND 0xFF = n AND 0xFF"
  by (rule bit_word_eqI) (auto simp: bit_reading)

lemma packed_bytes:
  "drop_bit 16 (pack3 a b c) AND 0xFF = byte_word a"
  "drop_bit 8 (pack3 a b c) AND 0xFF = byte_word b"
  "pack3 a b c AND 0xFF = byte_word c"
  unfolding pack3_def word_FF
  by (rule bit_word_eqI; force simp: bit_simps dest: bit_byte_word)+

section \<open>Round trip\<close>

lemma byte_word_NUL [simp]: "byte_word NUL = 0"
  by (simp add: byte_word_def)

lemma encode_groups:
  "base64_encode [a] = [b64_char (drop_bit 18 (pack3 a NUL NUL)), b64_char (drop_bit 12 (pack3 a NUL NUL)),
     CHR ''='', CHR ''='']"
  "base64_encode [a, b] = [b64_char (drop_bit 18 (pack3 a b NUL)), b64_char (drop_bit 12 (pack3 a b NUL)),
     b64_char (drop_bit 6 (pack3 a b NUL)), CHR ''='']"
  "base64_encode (a # b # c # s) = b64_char (drop_bit 18 (pack3 a b c)) # b64_char (drop_bit 12 (pack3 a b c))
     # b64_char (drop_bit 6 (pack3 a b c)) # b64_char (pack3 a b c) # base64_encode s"
  by (simp_all add: pack3_def Let_def)

lemma b64_val_pad [simp]: "b64_val (CHR ''='') = -1"
  by (simp add: b64_val_def is_upper_def is_lower_def is_digit_def)

lemma decode_pad [simp]: "base64_decode_loop buf bits (CHR ''='' # cs) = base64_decode_loop buf bits cs"
  by simp

lemma decode_collect:
  "bits < 2 \<Longrightarrow> base64_decode_loop buf bits (b64_char w # cs) = base64_decode_loop (acc6 buf w) (bits + 6) cs"
  by (simp add: Let_def acc6_def)

lemma decode_emit:
  "2 \<le> bits \<Longrightarrow> base64_decode_loop buf bits (b64_char w # cs)
     = char_of (unat (signed_drop_bit (bits - 2) (acc6 buf w) AND 0xFF))
       # base64_decode_loop (acc6 buf w) (bits - 2) cs"
  by (simp add: Let_def acc6_def)

declare base64_decode_loop.simps(2) [simp del] base64_encode.simps(2) [simp del]

lemma byte_word_char: "char_of (unat (byte_word c)) = c"
  by simp

lemmas decode_group = encode_groups decode_collect decode_emit first_byte second_byte third_byte packed_bytes
  byte_word_char

lemma decode_loop_encode: "base64_decode_loop buf 0 (base64_encode s) = s"
proof (induction s arbitrary: buf rule: base64_encode.induct)
  case 1
  then show ?case by simp
next
  case (2 a r)
  consider "r = []" | b where "r = [b]" | b c cs where "r = b # c # cs"
    by (cases r; cases "tl r") auto
  then show ?case
  proof cases
    case 1
    then show ?thesis by (simp add: decode_group del: unat_byte_word)
  next
    case (2 b)
    then show ?thesis by (simp add: decode_group del: unat_byte_word)
  next
    case (3 b c cs)
    with "2.IH" have "\<And>buf. base64_decode_loop buf 0 (base64_encode cs) = cs" by simp
    with 3 show ?thesis
      using third_byte [of _ "pack3 a b c"] by (simp add: decode_group del: unat_byte_word signed_drop_bit_0)
  qed
qed

interpretation b64: codec base64_encode base64_decode "\<lambda>_. True"
  by unfold_locales (simp add: base64_decode_def decode_loop_encode)

section \<open>Properties\<close>

text \<open>C36. Decoding an encoded byte string gives it back, for strings of every length and content, with the
  32-bit accumulator shifting out its old bits as the code does.\<close>

theorem base64_roundtrip: "base64_decode (base64_encode s) = s"
  by (simp add: b64.dec_enc)

end
