(* ===== verification/S3_Util.thy ===== *)
theory S3_Util
  imports Prelude
begin

text \<open>
  \<^verbatim>\<open>common/s3_util.hpp\<close>: header names, the buffer address in an RDMA descriptor, the
  \<^verbatim>\<open>/bucket/object\<close> request path and the \<^verbatim>\<open>bytes=a-b\<close> range. The lemmas give the accepted
  languages, the bounds a valid range guarantees and the confinement of a valid path.
\<close>

section \<open>Definitions\<close>

definition kHdrRdmaToken :: string where "kHdrRdmaToken = ''x-amz-rdma-token''"
definition kHdrRdmaReply :: string where "kHdrRdmaReply = ''x-amz-rdma-reply''"
definition kHdrRdmaBytesTransferred :: string where
  "kHdrRdmaBytesTransferred = ''x-amz-rdma-bytes-transferred''"

definition parse_rdma_remote_addr :: "string \<Rightarrow> u64" where
  "parse_rdma_remote_addr rdma_descr = (case find_char CHR '':'' rdma_descr of
      None \<Rightarrow> 0
    | Some colon \<Rightarrow>
        if colon = 0 then 0
        else (case stoull 16 (take colon rdma_descr) of None \<Rightarrow> 0 | Some (v, _) \<Rightarrow> v))"

record object_path =
  op_bucket :: string
  op_object :: string
  op_valid :: bool

definition no_object_path :: object_path where
  "no_object_path = \<lparr>op_bucket = [], op_object = [], op_valid = False\<rparr>"

definition parse_object_path :: "string \<Rightarrow> object_path" where
  "parse_object_path path =
     (if path = [] \<or> hd path \<noteq> CHR ''/'' then no_object_path
      else case find_char CHR ''/'' (drop 1 path) of
        None \<Rightarrow> no_object_path
      | Some i \<Rightarrow>
          let slash = i + 1 in
          if length path \<le> slash + 1 then no_object_path
          else
            let bucket = take (slash - 1) (drop 1 path); object = drop (slash + 1) path;
                p = \<lparr>op_bucket = bucket, op_object = object, op_valid = False\<rparr>
            in if bucket = ''.'' \<or> bucket = ''..'' \<or> find_char CHR ''/'' bucket \<noteq> None then p
               else if object = ''.'' \<or> object = ''..'' \<or> find_sub ''/../'' object \<noteq> None
                       \<or> starts_with ''../'' object \<or> (3 \<le> length object \<and> ends_with ''/..'' object)
               then p
               else p\<lparr>op_valid := bucket \<noteq> [] \<and> object \<noteq> []\<rparr>)"

record byte_range =
  br_start :: u64
  br_end :: u64
  br_present :: bool
  br_valid :: bool

definition no_range :: byte_range where
  "no_range = \<lparr>br_start = 0, br_end = 0, br_present = False, br_valid = False\<rparr>"

definition parse_range :: "string \<Rightarrow> u64 \<Rightarrow> byte_range" where
  "parse_range spec file_size =
     (if spec = [] then no_range
      else let r = no_range\<lparr>br_present := True\<rparr> in
        if \<not> starts_with ''bytes='' spec then r
        else let body = drop 6 spec in
          case find_char CHR ''-'' body of
            None \<Rightarrow> r
          | Some dash \<Rightarrow>
              (case stoull 10 (take dash body) of
                 None \<Rightarrow> r
               | Some (a, _) \<Rightarrow>
                   let r = r\<lparr>br_start := a\<rparr> in
                   (case stoull 10 (drop (dash + 1) body) of
                      None \<Rightarrow> r
                    | Some (b, _) \<Rightarrow>
                        let r = r\<lparr>br_end := b\<rparr> in
                        if b < a \<or> file_size \<le> b then r else r\<lparr>br_valid := True\<rparr>)))"

text \<open>
  Specification of path resolution: walk the components of a request path below a directory,
  \<open>..\<close> dropping the last component.
\<close>

fun lex_walk :: "string list \<Rightarrow> string list \<Rightarrow> string list" where
  "lex_walk dir [] = dir"
| "lex_walk dir (c # cs) =
     lex_walk (if c = [] \<or> c = ''.'' then dir else if c = ''..'' then tl dir else c # dir) cs"

section \<open>RDMA descriptor\<close>

lemma parse_remote_addr_to_hex:
  "parse_rdma_remote_addr (to_hex (unat a) @ CHR '':'' # rest) = a"
  by (simp add: parse_rdma_remote_addr_def find_char_append [OF to_hex_no_colon]
      stoull_to_hex [OF unat_u64_lt])

lemma parse_remote_addr_no_colon: "CHR '':'' \<notin> set d \<Longrightarrow> parse_rdma_remote_addr d = 0"
  by (simp add: parse_rdma_remote_addr_def find_char_None [symmetric])

section \<open>Object paths\<close>

text \<open>The tests \<^verbatim>\<open>parse_object_path\<close> makes on the object part.\<close>

definition object_escapes :: "string \<Rightarrow> bool" where
  "object_escapes k \<longleftrightarrow> k = ''.'' \<or> k = ''..'' \<or> find_sub ''/../'' k \<noteq> None \<or> starts_with ''../'' k
     \<or> (3 \<le> length k \<and> ends_with ''/..'' k)"

lemma parse_object_path_split:
  assumes "CHR ''/'' \<notin> set b" and "k \<noteq> []"
  shows "parse_object_path (CHR ''/'' # b @ CHR ''/'' # k)
     = \<lparr>op_bucket = b, op_object = k, op_valid = (b \<notin> {[], ''.'', ''..''} \<and> \<not> object_escapes k)\<rparr>"
  using assms
  by (simp add: parse_object_path_def find_char_append find_char_None object_escapes_def Let_def)

lemma parse_object_path_malformed:
  assumes "\<And>b k. CHR ''/'' \<notin> set b \<Longrightarrow> k \<noteq> [] \<Longrightarrow> path \<noteq> CHR ''/'' # b @ CHR ''/'' # k"
  shows "parse_object_path path = no_object_path"
proof (cases "path = [] \<or> hd path \<noteq> CHR ''/''")
  case True
  then show ?thesis by (simp add: parse_object_path_def)
next
  case False
  then obtain q where q: "path = CHR ''/'' # q" by (cases path) auto
  show ?thesis
  proof (cases "find_char CHR ''/'' q")
    case None
    with q show ?thesis by (simp add: parse_object_path_def)
  next
    case (Some i)
    from find_char_split [OF Some] assms [of "take i q" "drop (Suc i) q"] q
    have "drop (Suc i) q = []" by auto
    with Some q show ?thesis by (simp add: parse_object_path_def)
  qed
qed

lemma no_dotdot_component: "\<not> object_escapes k \<Longrightarrow> ''..'' \<notin> set (split_on CHR ''/'' k)"
proof
  assume ok: "\<not> object_escapes k" and "''..'' \<in> set (split_on CHR ''/'' k)"
  from split_on_component [OF this(2)] consider "k = ''..''" | x where "k = ''../'' @ x"
    | x where "k = x @ ''/..''" | x y where "k = x @ ''/../'' @ y" by auto
  then show False
  proof cases
    case 4
    then have "find_sub ''/../'' k \<noteq> None" unfolding find_sub_None by blast
    with ok show False by (simp add: object_escapes_def)
  qed (use ok in \<open>auto simp: object_escapes_def starts_with_iff ends_with_iff\<close>)
qed

lemma parse_object_path_valid:
  assumes "op_valid (parse_object_path path)"
  obtains b k where "path = CHR ''/'' # b @ CHR ''/'' # k" and "CHR ''/'' \<notin> set b"
    and "b \<notin> {[], ''.'', ''..''}" and "k \<noteq> []" and "\<not> object_escapes k"
    and "parse_object_path path = \<lparr>op_bucket = b, op_object = k, op_valid = True\<rparr>"
proof -
  obtain b k where bk: "CHR ''/'' \<notin> set b" "k \<noteq> []" "path = CHR ''/'' # b @ CHR ''/'' # k"
    using parse_object_path_malformed [of path] assms by (metis no_object_path_def object_path.select_convs(3))
  with parse_object_path_split [OF bk(1,2)] assms show ?thesis by (intro that) simp_all
qed

lemma lex_walk_confined: "''..'' \<notin> set cs \<Longrightarrow> \<exists>t. lex_walk dir cs = t @ dir"
proof (induction cs arbitrary: dir)
  case Nil
  then show ?case by simp
next
  case (Cons c cs)
  then obtain t where "lex_walk (if c = [] \<or> c = ''.'' then dir else c # dir) cs
      = t @ (if c = [] \<or> c = ''.'' then dir else c # dir)" by fastforce
  with Cons.prems show ?case by (auto split: if_splits intro: exI [of _ "t @ [c]"])
qed

section \<open>Byte ranges\<close>

lemma parse_range_valid_bounds:
  assumes "br_valid (parse_range spec fsz)"
  shows "br_present (parse_range spec fsz)"
    and "br_start (parse_range spec fsz) \<le> br_end (parse_range spec fsz)"
    and "br_end (parse_range spec fsz) < fsz"
  using assms
  by (auto simp: parse_range_def no_range_def Let_def not_less not_le split: if_splits option.splits)

lemma parse_range_present: "br_present (parse_range spec fsz) \<longleftrightarrow> spec \<noteq> []"
  by (auto simp: parse_range_def no_range_def Let_def split: option.splits)

text \<open>The length of a valid range fits in 64 bits and ends inside the file.\<close>

lemma range_length:
  fixes a b n :: u64
  assumes "a \<le> b" and "b < n"
  shows "unat (b - a + 1) = unat b - unat a + 1" and "unat a + unat (b - a + 1) \<le> unat n"
    and "0 < b - a + 1"
proof -
  have sub: "unat (b - a) = unat b - unat a" using assms(1) by (simp add: unat_sub)
  have lt: "unat b < unat n" using assms(2) by (simp add: word_less_nat_alt)
  have le: "unat a \<le> unat b" using assms(1) by (simp add: word_le_nat_alt)
  have "unat (b - a) + 1 < 2 ^ 64" using sub lt unat_u64_lt [of n] by linarith
  then have "unat (b - a + 1) = unat (b - a) + 1" by (simp add: unat_word_ariths)
  with sub show l: "unat (b - a + 1) = unat b - unat a + 1" by simp
  with lt le show "unat a + unat (b - a + 1) \<le> unat n" by linarith
  from l show "0 < b - a + 1" by (simp add: word_less_nat_alt)
qed

lemma dash_not_digit: "\<not> is_digit CHR ''-''"
  by (simp add: is_digit_def)

lemma dash_notin_to_string: "CHR ''-'' \<notin> set (to_string n)"
  using to_string_digits [of n] dash_not_digit by (auto simp: list_all_iff)

lemma parse_range_print:
  assumes "a < 2 ^ 64" and "b < 2 ^ 64"
  shows "parse_range (''bytes='' @ to_string a @ ''-'' @ to_string b) fsz
     = \<lparr>br_start = word_of_nat a, br_end = word_of_nat b, br_present = True,
        br_valid = (a \<le> b \<and> b < unat fsz)\<rparr>"
proof -
  have "starts_with ''bytes='' (''bytes='' @ to_string a @ ''-'' @ to_string b)" by (rule starts_with_append)
  moreover have "find_char CHR ''-'' (to_string a @ ''-'' @ to_string b) = Some (length (to_string a))"
    using find_char_append [OF dash_notin_to_string] by simp
  moreover have "stoull 10 (to_string a) = Some (word_of_nat a, length (to_string a))"
    and "stoull 10 (to_string b) = Some (word_of_nat b, length (to_string b))"
    using stoull_to_string [of a "[]"] stoull_to_string [of b "[]"] assms by simp_all
  moreover have "(word_of_nat b :: u64) < word_of_nat a \<longleftrightarrow> b < a"
    and "fsz \<le> word_of_nat b \<longleftrightarrow> unat fsz \<le> b"
    using assms by (simp_all add: word_less_nat_alt word_le_nat_alt unat_of_nat)
  ultimately show ?thesis
    by (auto simp: parse_range_def no_range_def Let_def)
qed

section \<open>Properties\<close>

text \<open>C40. An accepted object path cannot leave the store: bucket and object are the two parts of the request
  path, no component below the bucket is \<^verbatim>\<open>..\<close>, and walking the components down from any directory ends at
  that directory or below it, so without an embedded NUL the file that is opened lies below the data
  directory.\<close>

theorem object_path_confined:
  assumes "op_valid (parse_object_path path)" and "NUL \<notin> set path"
  defines "key \<equiv> op_bucket (parse_object_path path) @ ''/'' @ op_object (parse_object_path path)"
  shows "path = ''/'' @ key \<and> c_str key = key \<and> ''..'' \<notin> set (split_on CHR ''/'' key)
    \<and> (\<exists>t. lex_walk dir (split_on CHR ''/'' key) = t @ dir)"
proof -
  obtain b k where path: "path = CHR ''/'' # b @ CHR ''/'' # k" and b: "CHR ''/'' \<notin> set b" "b \<notin> {[], ''.'', ''..''}"
    and k: "\<not> object_escapes k"
    and p: "parse_object_path path = \<lparr>op_bucket = b, op_object = k, op_valid = True\<rparr>"
    using parse_object_path_valid [OF assms(1)] by metis
  then have key: "key = b @ CHR ''/'' # k" by (simp add: key_def)
  have "split_on CHR ''/'' key = b # split_on CHR ''/'' k" using b(1) by (simp add: key split_on_append)
  then have "''..'' \<notin> set (split_on CHR ''/'' key)" using no_dotdot_component [OF k] b(2) by auto
  moreover have "c_str key = key"
    unfolding c_str_def takeWhile_eq_all_conv using assms(2) by (auto simp: path key)
  ultimately show ?thesis using lex_walk_confined by (simp add: path key)
qed

theorem object_path_confined_witness:
  "''..'' \<notin> set (split_on CHR ''/'' ''b/d/o'') \<and> op_valid (parse_object_path ''/b/d/o'')"
proof -
  have p: "parse_object_path ''/b/d/o'' = \<lparr>op_bucket = ''b'', op_object = ''d/o'', op_valid = True\<rparr>" by code_simp
  then show ?thesis using object_path_confined [of "''/b/d/o''"] by simp
qed

text \<open>The check looks at the whole string, the system call only at the part before the first NUL: a
  decoded path with an embedded NUL passes although the file name that reaches \<^verbatim>\<open>open\<close> ends in \<^verbatim>\<open>..\<close>.\<close>

lemma object_path_nul:
  "\<exists>path. op_valid (parse_object_path path)
     \<and> c_str (op_bucket (parse_object_path path) @ ''/'' @ op_object (parse_object_path path)) = ''b/..''"
proof -
  have "parse_object_path (''/b/..'' @ [NUL] @ ''x'')
      = \<lparr>op_bucket = ''b'', op_object = ''..'' @ [NUL] @ ''x'', op_valid = True\<rparr>" by code_simp
  then show ?thesis by (intro exI [of _ "''/b/..'' @ [NUL] @ ''x''"]) (simp add: c_str_def)
qed

text \<open>Byte ranges: a printed range is read back exactly and accepted iff it is non-empty and inside the
  file; and whatever the header says, an accepted range has its length in 64 bits and ends inside the file.\<close>

lemma parse_range_exact:
  assumes "a < 2 ^ 64" and "b < 2 ^ 64"
  shows "parse_range (''bytes='' @ to_string a @ ''-'' @ to_string b) fsz
     = \<lparr>br_start = word_of_nat a, br_end = word_of_nat b, br_present = True, br_valid = (a \<le> b \<and> b < unat fsz)\<rparr>
   \<and> (br_valid (parse_range spec fsz) \<longrightarrow>
        unat (br_start (parse_range spec fsz))
          + unat (br_end (parse_range spec fsz) - br_start (parse_range spec fsz) + 1) \<le> unat fsz)"
  using parse_range_print [OF assms] parse_range_valid_bounds [of spec fsz]
    range_length(2) [of "br_start (parse_range spec fsz)" "br_end (parse_range spec fsz)" fsz] by simp

end
