(* ===== verification/S3_Protocol.thy ===== *)
theory S3_Protocol
  imports Base64 S3_Util SigV4
begin

text \<open>
  \<^verbatim>\<open>common/s3_protocol.hpp\<close>: control-plane options, token encoding, request headers and the two
  reply fields. \<^verbatim>\<open>parse_rdma_reply\<close> and \<^verbatim>\<open>parse_rdma_bytes_transferred\<close> are instances of the
  digit-loop interface.
\<close>

section \<open>Definitions\<close>

definition kRdmaReplyDeclined :: nat where "kRdmaReplyDeclined = 501"

datatype token_encoding = Verbatim | Base64
datatype auth_mode = AuthNone | AuthSigV4

record protocol_options =
  po_token_encoding :: token_encoding
  po_auth :: auth_mode
  po_region :: string
  po_credentials :: sigv4_credentials

definition default_protocol_options :: protocol_options where
  "default_protocol_options = \<lparr>po_token_encoding = Base64, po_auth = AuthNone, po_region = ''us-east-1'',
     po_credentials = \<lparr>access_key = [], secret_key = [], session_token = []\<rparr>\<rparr>"

definition parse_token_encoding :: "string \<Rightarrow> token_encoding option" where
  "parse_token_encoding s =
     (if s = ''verbatim'' then Some Verbatim else if s = ''base64'' then Some Base64 else None)"

definition parse_auth_mode :: "string \<Rightarrow> auth_mode option" where
  "parse_auth_mode s =
     (if s = ''none'' then Some AuthNone else if s = ''sigv4'' then Some AuthSigV4 else None)"

record protocol_flag =
  pf_matched :: bool
  pf_used_value :: bool
  pf_ok :: bool

text \<open>A missing argument val (\<^verbatim>\<open>nullptr\<close>) is \<^const>\<open>None\<close>.\<close>

definition parse_protocol_flag ::
  "string \<Rightarrow> string option \<Rightarrow> protocol_options \<Rightarrow> protocol_flag \<times> protocol_options" where
  "parse_protocol_flag arg val opts =
     (let f = \<lparr>pf_matched = False, pf_used_value = False, pf_ok = True\<rparr> in
      if arg = ''--gateway''
      then (f\<lparr>pf_matched := True\<rparr>, opts\<lparr>po_token_encoding := Verbatim, po_auth := AuthSigV4\<rparr>)
      else if arg \<noteq> ''--token-encoding'' \<and> arg \<noteq> ''--auth'' \<and> arg \<noteq> ''--region'' then (f, opts)
      else
        let f = f\<lparr>pf_matched := True, pf_used_value := True\<rparr> in
        case val of
          None \<Rightarrow> (f\<lparr>pf_ok := False\<rparr>, opts)
        | Some v \<Rightarrow>
            if v = [] \<or> hd v = CHR ''-'' then (f\<lparr>pf_ok := False\<rparr>, opts)
            else if arg = ''--token-encoding'' then
              (case parse_token_encoding v of
                 None \<Rightarrow> (f\<lparr>pf_ok := False\<rparr>, opts)
               | Some t \<Rightarrow> (f, opts\<lparr>po_token_encoding := t\<rparr>))
            else if arg = ''--auth'' then
              (case parse_auth_mode v of
                 None \<Rightarrow> (f\<lparr>pf_ok := False\<rparr>, opts)
               | Some a \<Rightarrow> (f, opts\<lparr>po_auth := a\<rparr>))
            else (f, opts\<lparr>po_region := v\<rparr>))"

definition finish_protocol_options ::
  "(string \<Rightarrow> string option) \<Rightarrow> protocol_options \<Rightarrow> protocol_options option" where
  "finish_protocol_options getenv opts =
     (if po_auth opts = AuthSigV4 then
        (case sigv4_credentials_from_env getenv (po_credentials opts) of
           None \<Rightarrow> None
         | Some cred \<Rightarrow> Some (opts\<lparr>po_credentials := cred\<rparr>))
      else Some opts)"

definition http_host_header :: "string \<Rightarrow> int \<Rightarrow> string" where
  "http_host_header host port =
     (let authority = (if find_char CHR '':'' host \<noteq> None \<and> hd host \<noteq> CHR ''['' then ''['' @ host @ '']'' else host)
      in if port \<noteq> 80 then authority @ '':'' @ to_string_int port else authority)"

definition control_plane_target :: "protocol_options \<Rightarrow> string \<Rightarrow> string" where
  "control_plane_target opts raw_path =
     (if po_token_encoding opts = Base64 \<and> po_auth opts = AuthNone then raw_path
      else uri_encode True raw_path)"

text \<open>\<^verbatim>\<open>while (len > 0 && desc[len - 1] == 0) --len;\<close>\<close>

fun strip_nul_len :: "string \<Rightarrow> nat \<Rightarrow> nat" where
  "strip_nul_len desc 0 = 0"
| "strip_nul_len desc (Suc n) = (if desc ! n = NUL then strip_nul_len desc n else Suc n)"

definition encode_rdma_token :: "string \<Rightarrow> token_encoding \<Rightarrow> string" where
  "encode_rdma_token desc enc =
     (if enc = Base64 then base64_encode desc else take (strip_nul_len desc (length desc)) desc)"

definition control_plane_headers ::
  "(string \<Rightarrow> string option) \<Rightarrow> (string \<Rightarrow> string \<Rightarrow> string option) \<Rightarrow> protocol_options \<Rightarrow> string \<Rightarrow>
   string \<Rightarrow> string \<Rightarrow> string \<Rightarrow> string \<Rightarrow> tm \<Rightarrow> header_list result" where
  "control_plane_headers SHA256 HMAC opts method host_header path range_hdr token now =
     (let own = (if token \<noteq> [] then [(kHdrRdmaToken, token)] else [])
                @ (if range_hdr \<noteq> [] then [(''Range'', range_hdr)] else []) in
      if po_auth opts \<noteq> AuthSigV4 then Inr own
      else
        let req = \<lparr>sr_method = method, sr_host = host_header, sr_path = path, sr_query = [],
                   sr_headers = own, sr_payload_hash = kUnsignedPayload\<rparr> in
        bind_res (sigv4_sign SHA256 HMAC req (po_credentials opts) (po_region opts) ''s3'' (sigv4_amz_date now))
          (\<lambda>r. Inr (own @ sv_headers r)))"

datatype reply_kind = Declined | Code | Malformed

record rdma_reply =
  rr_kind :: reply_kind
  rr_code :: nat

definition all_digits :: "string \<Rightarrow> bool" where
  "all_digits s \<longleftrightarrow> s \<noteq> [] \<and> list_all is_digit s"

definition reply_step :: "nat \<Rightarrow> char \<Rightarrow> nat option" where
  "reply_step code c =
     (let digit = digit_val c in
      if (599 - digit) div 10 < code then None else Some (code * 10 + digit))"

definition parse_rdma_reply :: "bool \<Rightarrow> string \<Rightarrow> rdma_reply" where
  "parse_rdma_reply present val =
     (let declined = \<lparr>rr_kind = Declined, rr_code = 0\<rparr>; malformed = \<lparr>rr_kind = Malformed, rr_code = 0\<rparr> in
      if \<not> present \<or> val = [] then declined
      else if \<not> all_digits val then malformed
      else case scan reply_step 0 val of
        None \<Rightarrow> malformed
      | Some code \<Rightarrow>
          if code < 100 then malformed
          else if code = kRdmaReplyDeclined then declined
          else \<lparr>rr_kind = Code, rr_code = code\<rparr>)"

definition LONG_MAX :: nat where "LONG_MAX = 2 ^ 63 - 1"

definition bytes_step :: "u64 \<Rightarrow> u64 \<Rightarrow> char \<Rightarrow> u64 option" where
  "bytes_step limit n c =
     (let digit = word_of_nat (digit_val c) in
      if limit div 10 < n \<or> (n = limit div 10 \<and> limit mod 10 < digit) then None
      else Some (n * 10 + digit))"

text \<open>\<^verbatim>\<open>static_cast<long>(n)\<close> of a \<^verbatim>\<open>size_t\<close> reads the word as signed.\<close>

definition parse_rdma_bytes_transferred :: "bool \<Rightarrow> string \<Rightarrow> u64 \<Rightarrow> int" where
  "parse_rdma_bytes_transferred present val buf_size =
     (if \<not> present \<or> val = [] then 0
      else if \<not> all_digits val then -1
      else
        let max_return = word_of_nat LONG_MAX;
            limit = (if buf_size < max_return then buf_size else max_return)
        in case scan (bytes_step limit) 0 val of
             None \<Rightarrow> -1
           | Some n \<Rightarrow> sint n)"

section \<open>The digit loops\<close>

interpretation reply: decimal_scan reply_step id 599
  by unfold_locales (auto simp: reply_step_def Let_def dest: digit_val_lt)

lemma bytes_step_guard:
  fixes n limit :: u64 and d :: nat
  assumes "d < 10"
  shows "(limit div 10 < n \<or> (n = limit div 10 \<and> limit mod 10 < word_of_nat d))
     \<longleftrightarrow> unat limit < 10 * unat n + d"
proof -
  have d: "unat (word_of_nat d :: u64) = d" using assms by (simp add: unat_of_nat)
  have "(limit div 10 < n \<or> (n = limit div 10 \<and> limit mod 10 < word_of_nat d))
     \<longleftrightarrow> (unat limit div 10 < unat n \<or> (unat n = unat limit div 10 \<and> unat limit mod 10 < d))"
    by (simp add: word_less_nat_alt unat_div unat_mod word_unat_eq_iff d)
  also have "\<dots> \<longleftrightarrow> unat limit < 10 * unat n + d" using assms by (rule digit_guard)
  finally show ?thesis .
qed

lemma bytes_step_value:
  fixes n limit :: u64
  assumes "d < 10" and "10 * unat n + d \<le> unat limit"
  shows "unat (n * 10 + word_of_nat d) = 10 * unat n + d"
proof -
  have "10 * unat n + d < 2 ^ 64" using assms(2) unat_u64_lt [of limit] by linarith
  then show ?thesis using assms(1) by (simp add: unat_word_ariths unat_of_nat mult.commute)
qed

interpretation bytes: decimal_scan "bytes_step limit" unat "unat limit"
  by unfold_locales
    (auto simp: bytes_step_def Let_def bytes_step_guard bytes_step_value digit_val_lt not_less)

section \<open>Reply fields\<close>

lemma parse_rdma_reply_spec:
  "parse_rdma_reply present val =
     (if \<not> present \<or> val = [] then \<lparr>rr_kind = Declined, rr_code = 0\<rparr>
      else if \<not> list_all is_digit val \<or> dec_value val < 100 \<or> 599 < dec_value val
      then \<lparr>rr_kind = Malformed, rr_code = 0\<rparr>
      else if dec_value val = 501 then \<lparr>rr_kind = Declined, rr_code = 0\<rparr>
      else \<lparr>rr_kind = Code, rr_code = dec_value val\<rparr>)"
  using reply.scan_digits [of val 0]
  by (auto simp: parse_rdma_reply_def all_digits_def kRdmaReplyDeclined_def Let_def split: if_splits)

lemma sint_small: "unat (w :: u64) \<le> LONG_MAX \<Longrightarrow> sint w = int (unat w)"
proof -
  assume "unat w \<le> LONG_MAX"
  then have u: "uint w < 2 ^ 63" by (simp add: LONG_MAX_def uint_nat del: of_nat_unat)
  have "sint w = signed_take_bit 63 (uint w)" by (simp add: sint_uint)
  also have "\<dots> = uint w" using u by (intro signed_take_bit_int_eq_self) (auto intro: order_trans [OF _ uint_ge_0])
  finally show ?thesis by simp
qed

lemma parse_rdma_bytes_transferred_spec:
  "parse_rdma_bytes_transferred present val buf_size =
     (if \<not> present \<or> val = [] then 0
      else if list_all is_digit val \<and> dec_value val \<le> min (unat buf_size) LONG_MAX
      then int (dec_value val) else -1)"
proof -
  define limit :: u64 where "limit = (if buf_size < word_of_nat LONG_MAX then buf_size else word_of_nat LONG_MAX)"
  have "unat (word_of_nat LONG_MAX :: u64) = LONG_MAX" by (simp add: LONG_MAX_def unat_of_nat)
  then have lim: "unat limit = min (unat buf_size) LONG_MAX"
    by (simp add: limit_def word_less_nat_alt min_def)
  show ?thesis
    using bytes.scan_digits [of val 0 limit]
    by (auto simp: sint_small simp del: of_nat_unat simp: parse_rdma_bytes_transferred_def all_digits_def Let_def lim limit_def [symmetric]
        split: if_splits)
qed

section \<open>Tokens\<close>

lemma strip_nul_len_le: "strip_nul_len d n \<le> n"
  by (induction n) auto

lemma strip_nul_len_take:
  "n \<le> length d \<Longrightarrow> \<exists>k. take n d = take (strip_nul_len d n) d @ replicate k NUL"
proof (induction n)
  case 0
  then show ?case by simp
next
  case (Suc n)
  then obtain k where k: "take n d = take (strip_nul_len d n) d @ replicate k NUL" by auto
  show ?case
  proof (cases "d ! n = NUL")
    case True
    with k Suc.prems have "take (Suc n) d = take (strip_nul_len d n) d @ replicate (Suc k) NUL"
      by (simp add: take_Suc_conv_app_nth replicate_append_same)
    with True show ?thesis by (intro exI [of _ "Suc k"]) simp
  next
    case False
    then show ?thesis by (intro exI [of _ 0]) simp
  qed
qed

lemma verbatim_token: "\<exists>k. desc = encode_rdma_token desc Verbatim @ replicate k NUL"
  using strip_nul_len_take [of "length desc" desc] by (simp add: encode_rdma_token_def)

lemma strip_nul_len_last: "0 < strip_nul_len d n \<Longrightarrow> d ! (strip_nul_len d n - 1) \<noteq> NUL"
  by (induction n) auto

lemma verbatim_token_last:
  "encode_rdma_token desc Verbatim \<noteq> [] \<Longrightarrow> last (encode_rdma_token desc Verbatim) \<noteq> NUL"
proof -
  let ?l = "strip_nul_len desc (length desc)"
  assume "encode_rdma_token desc Verbatim \<noteq> []"
  then have "0 < ?l" by (auto simp: encode_rdma_token_def)
  moreover have "last (take ?l desc) = desc ! (?l - 1)"
    using strip_nul_len_le [of desc "length desc"] \<open>0 < ?l\<close> by (subst last_conv_nth) auto
  ultimately show ?thesis using strip_nul_len_last by (simp add: encode_rdma_token_def)
qed

lemma base64_encode_chars: "c \<in> set (base64_encode s) \<Longrightarrow> c \<in> set b64_tbl \<or> c = CHR ''=''"
  by (induction s rule: base64_encode.induct)
    (auto simp: base64_encode.simps(2) Let_def b64_char_in_alphabet split: if_splits)

lemma base64_no_colon: "CHR '':'' \<notin> set (base64_encode s)"
  using base64_encode_chars [of "CHR '':''" s] by (auto simp: b64_tbl_def)

section \<open>Properties\<close>

text \<open>The two reply fields are decided by their value as a number: the reply code is declined when absent or
  501, malformed unless it is decimal between 100 and 599, else that code; the byte count is 0 when
  absent, and otherwise the decimal value if it fits both the buffer and a signed long, else -1. No
  number of leading zeros or digits overflows either loop.\<close>

lemma reply_fields_exact:
  "parse_rdma_reply True s =
     (if s = [] then \<lparr>rr_kind = Declined, rr_code = 0\<rparr>
      else if list_all is_digit s \<and> 100 \<le> dec_value s \<and> dec_value s \<le> 599
      then (if dec_value s = 501 then \<lparr>rr_kind = Declined, rr_code = 0\<rparr> else \<lparr>rr_kind = Code, rr_code = dec_value s\<rparr>)
      else \<lparr>rr_kind = Malformed, rr_code = 0\<rparr>)
   \<and> parse_rdma_bytes_transferred True s buf_size =
     (if s = [] then 0
      else if list_all is_digit s \<and> dec_value s \<le> min (unat buf_size) (2 ^ 63 - 1) then int (dec_value s) else -1)"
  by (auto simp: parse_rdma_reply_spec parse_rdma_bytes_transferred_spec LONG_MAX_def)

end
