(* ===== verification/Completion.thy ===== *)
theory Completion
  imports Raw_Http S3_Protocol
begin

text \<open>
  \<^verbatim>\<open>common/completion_authority.hpp\<close> and \<^verbatim>\<open>common/guard_witness.hpp\<close>: when a raw receipt may be
  reported as a completed transfer, and when a sequence of callback entries witnesses that an injected
  error was answered by guarded re-entries only.
\<close>

section \<open>Receipts\<close>

definition plain_digits :: "string \<Rightarrow> nat \<Rightarrow> nat \<Rightarrow> bool" where
  "plain_digits s min_len max_len \<longleftrightarrow> \<not> (length s < min_len \<or> max_len < length s) \<and> list_all is_digit s"

record receipt_view =
  rv_present :: bool
  rv_complete :: bool
  rv_status :: nat
  rv_reply_count :: nat
  rv_count_count :: nat
  rv_reply_raw :: string
  rv_count_raw :: string
  rv_reply_plain :: bool
  rv_count_plain :: bool
  rv_declared :: int
  rv_body_content :: nat
  rv_body_octets :: nat
  rv_body_truncated :: bool
  rv_framing :: framing

definition first_value :: "raw_response \<Rightarrow> string \<Rightarrow> string" where
  "first_value r lname = (case field_first r lname of None \<Rightarrow> [] | Some f \<Rightarrow> rf_value f)"

definition view_receipt :: "raw_response \<Rightarrow> u64 \<Rightarrow> receipt_view" where
  "view_receipt r callback_size =
     (let present = head_complete r \<and> \<not> head_malformed r;
          reply_count = field_count r kHdrRdmaReply;
          count_count = field_count r kHdrRdmaBytesTransferred;
          reply_raw = first_value r kHdrRdmaReply;
          count_raw = first_value r kHdrRdmaBytesTransferred
      in \<lparr>rv_present = present,
          rv_complete = present \<and> message_complete r \<and> \<not> transport_error r \<and> \<not> body_truncated r,
          rv_status = status r,
          rv_reply_count = reply_count, rv_count_count = count_count,
          rv_reply_raw = reply_raw, rv_count_raw = count_raw,
          rv_reply_plain = reply_count = 1 \<and> plain_digits reply_raw 3 3,
          rv_count_plain = count_count = 1 \<and> plain_digits count_raw 1 20,
          rv_declared = parse_rdma_bytes_transferred (0 < count_count) count_raw callback_size,
          rv_body_content = body_content r, rv_body_octets = body_octets r,
          rv_body_truncated = body_truncated r, rv_framing = framing r\<rparr>)"

definition completion_authority :: "receipt_view \<Rightarrow> protocol_options \<Rightarrow> u64 \<Rightarrow> u64 \<Rightarrow> bool" where
  "completion_authority v proto expected requested =
     (if \<not> rv_complete v then False
      else if rv_status v \<noteq> 200 \<and> rv_status v \<noteq> 206 then False
      else if \<not> rv_reply_plain v \<or> \<not> rv_count_plain v then False
      else
        let reply = digit_val (rv_reply_raw v ! 0) * 100 + digit_val (rv_reply_raw v ! 1) * 10
                    + digit_val (rv_reply_raw v ! 2)
        in if rv_declared v < 0 \<or> word_of_int (rv_declared v) \<noteq> expected then False
           else if po_token_encoding proto = Base64 then reply = 200 \<and> expected = requested
           else reply = rv_status v \<and> rv_body_content v = 0)"

section \<open>Guarded re-entry\<close>

record guard_attempt =
  ga_invocation :: int
  ga_t_begin :: int
  ga_t_end :: int
  ga_cb_size :: int
  ga_cb_offset :: int
  ga_injected :: bool
  ga_guarded :: bool
  ga_http_attempt :: bool
  ga_partial :: bool
  ga_entered_while_active :: bool
  ga_thread :: nat

text \<open>The message-counting loop; \<^const>\<open>None\<close> is the early return on a partial write.\<close>

fun count_messages :: "nat \<Rightarrow> guard_attempt list \<Rightarrow> nat option" where
  "count_messages n [] = Some n"
| "count_messages n (x # xs) =
     (let n = n + (if ga_http_attempt x then 1 else 0)
      in if ga_partial x then None else count_messages n xs)"

definition later_refused :: "guard_attempt \<Rightarrow> guard_attempt \<Rightarrow> string option" where
  "later_refused a0 later =
     (if \<not> ga_guarded later then Some ''a later entry was not guarded''
      else if ga_t_begin later \<le> ga_t_end a0 then Some ''re-entry not strictly after the injected return marker''
      else if ga_thread later \<noteq> ga_thread a0
      then Some ''re-entry on a different thread: return order not provable from probe intervals''
      else if ga_cb_size later \<noteq> ga_cb_size a0 \<or> ga_cb_offset later \<noteq> ga_cb_offset a0
      then Some ''re-entry shape differs from the original request''
      else None)"

fun check_later :: "guard_attempt \<Rightarrow> guard_attempt list \<Rightarrow> bool \<times> string" where
  "check_later a0 [] = (True, [])"
| "check_later a0 (x # xs) = (case later_refused a0 x of None \<Rightarrow> check_later a0 xs | Some why \<Rightarrow> (False, why))"

definition guard_witness :: "guard_attempt list \<Rightarrow> bool \<times> string" where
  "guard_witness a =
     (if length a < 2 then (False, ''no re-entry'')
      else
        let a0 = a ! 0 in
        if list_ex ga_entered_while_active a then (False, ''overlapping callback entries (including the first)'')
        else if \<not> ga_injected a0 \<or> ga_guarded a0 \<or> \<not> ga_http_attempt a0
        then (False, ''first entry was not an emitted, injected transfer'')
        else case count_messages 0 a of
          None \<Rightarrow> (False, ''partial write present'')
        | Some messages \<Rightarrow>
            if messages \<noteq> 1 then (False, ''message count != 1'') else check_later a0 (drop 1 a))"

section \<open>Lemmas\<close>

lemma list_all_conj: "list_all (\<lambda>x. P x \<and> Q x) xs \<longleftrightarrow> list_all P xs \<and> list_all Q xs"
  by (induction xs) auto

lemma dec_value_3: "dec_value [a, b, c] = digit_val a * 100 + digit_val b * 10 + digit_val c"
  by simp

lemma three_chars: "length s = 3 \<Longrightarrow> s = [s ! 0, s ! 1, s ! 2]"
  by (auto simp: numeral_3_eq_3 length_Suc_conv)

lemma declared_Some:
  fixes expected :: u64
  assumes "s \<noteq> []" "list_all is_digit s"
  shows "0 \<le> parse_rdma_bytes_transferred True s cs
           \<and> word_of_int (parse_rdma_bytes_transferred True s cs) = expected
     \<longleftrightarrow> dec_value s = unat expected \<and> unat expected \<le> min (unat cs) LONG_MAX"
proof (cases "dec_value s \<le> min (unat cs) LONG_MAX")
  case True
  then have "dec_value s < 2 ^ 64" by (simp add: LONG_MAX_def)
  then have "(word_of_nat (dec_value s) :: u64) = expected \<longleftrightarrow> dec_value s = unat expected"
    by (rule word_of_nat_eq_u64)
  with True assms show ?thesis by (auto simp: parse_rdma_bytes_transferred_spec)
next
  case False
  with assms show ?thesis by (auto simp: parse_rdma_bytes_transferred_spec)
qed

lemma count_messages_Some:
  "count_messages n xs = Some m \<longleftrightarrow> list_all (\<lambda>x. \<not> ga_partial x) xs \<and> m = n + length (filter ga_http_attempt xs)"
  by (induction xs arbitrary: n) (auto simp: Let_def)

lemma check_later_ok: "fst (check_later a0 xs) \<longleftrightarrow> list_all (\<lambda>x. later_refused a0 x = None) xs"
  by (induction xs) (auto split: option.splits)

lemma check_later_why: "fst (check_later a0 xs) \<longleftrightarrow> snd (check_later a0 xs) = []"
  by (induction xs) (auto simp: later_refused_def split: option.splits if_splits)

section \<open>Properties\<close>

text \<open>Completion authority, decided from the receipt alone: the message is complete and clean, the
  status is 200 or 206, there is exactly one reply field of three digits and one byte-count field of
  at most twenty digits, the count is the expected size and fits the callback buffer, and the reply
  agrees with the profile: 200 for the whole request with base64 tokens, the HTTP status and an empty
  body with verbatim tokens.\<close>

lemma completion_authority_iff:
  "completion_authority (view_receipt r cs) proto expected requested \<longleftrightarrow>
     head_complete r \<and> \<not> head_malformed r \<and> message_complete r \<and> \<not> transport_error r \<and> \<not> body_truncated r
     \<and> status r \<in> {200, 206}
     \<and> field_count r kHdrRdmaReply = 1 \<and> plain_digits (first_value r kHdrRdmaReply) 3 3
     \<and> field_count r kHdrRdmaBytesTransferred = 1 \<and> plain_digits (first_value r kHdrRdmaBytesTransferred) 1 20
     \<and> dec_value (first_value r kHdrRdmaBytesTransferred) = unat expected
     \<and> unat expected \<le> min (unat cs) LONG_MAX
     \<and> (if po_token_encoding proto = Base64
        then dec_value (first_value r kHdrRdmaReply) = 200 \<and> expected = requested
        else dec_value (first_value r kHdrRdmaReply) = status r \<and> body_content r = 0)"
    (is "?auth \<longleftrightarrow> ?spec")
proof (cases "plain_digits (first_value r kHdrRdmaReply) 3 3
    \<and> plain_digits (first_value r kHdrRdmaBytesTransferred) 1 20 \<and> field_count r kHdrRdmaBytesTransferred = 1")
  case True
  let ?reply = "first_value r kHdrRdmaReply" and ?cnt = "first_value r kHdrRdmaBytesTransferred"
  have reply: "?reply = [?reply ! 0, ?reply ! 1, ?reply ! 2]"
    using True by (intro three_chars) (simp add: plain_digits_def)
  have code: "dec_value ?reply = digit_val (?reply ! 0) * 100 + digit_val (?reply ! 1) * 10 + digit_val (?reply ! 2)"
    by (subst reply) (rule dec_value_3)
  have "?cnt \<noteq> []" "list_all is_digit ?cnt" using True by (auto simp: plain_digits_def)
  note declared = declared_Some [OF this, of cs expected]
  show ?thesis
    using True declared by (auto simp: completion_authority_def view_receipt_def Let_def code split: if_splits)
next
  case False
  then show ?thesis by (auto simp: completion_authority_def view_receipt_def Let_def)
qed

text \<open>C31. From the wire: authority over a receipt that \<^verbatim>\<open>raw_http_get\<close> produced means that the whole
  request was emitted and that the octets read are the recorded head followed by the recorded body;
  under verbatim tokens that body is empty, so the object did not arrive in it.\<close>

theorem completion_from_wire:
  assumes "raw_http_get strerror net host target headers mh mb = Inr r"
    and "completion_authority (view_receipt r cs) proto expected requested"
  shows "request_sent r \<and> (\<exists>used rest body. net_recvs net = used @ rest \<and> delivered used = head_bytes r @ body
    \<and> length body = body_octets r \<and> (po_token_encoding proto = Verbatim \<longrightarrow> body = []))"
  using assms(1)
proof (cases rule: raw_http_get_cases)
  case unsent
  with assms(2) show ?thesis by (simp add: completion_authority_def view_receipt_def Let_def)
next
  case (sent req tb err)
  have mc: "message_complete r" and body: "po_token_encoding proto = Verbatim \<longrightarrow> body_content r = 0"
    using assms(2) by (auto simp: completion_authority_def view_receipt_def Let_def split: if_splits)
  have "\<not> message_complete (sent_receipt tb (length req) err)" "\<not> transport_error (sent_receipt tb (length req) err)"
    by (simp_all add: sent_receipt_def empty_response_def)
  from receive_response_complete [OF sent(2) mc this] sent(3) body show ?thesis
    by (metis emission_def length_0_conv prod.inject)
qed

text \<open>A verbatim-profile answer: two RDMA fields and no body.\<close>

definition gateway_net :: net where
  "gateway_net = \<lparr>net_resolution = Resolved [Connected], net_sends = [Sent 400],
     net_recvs = [Recv (''HTTP/1.1 206 OK'' @ CRLF @ kHdrRdmaReply @ '': 206'' @ CRLF
                        @ kHdrRdmaBytesTransferred @ '': 4096'' @ CRLF @ ''Content-Length: 0'' @ CRLF @ CRLF)]\<rparr>"

definition gateway_options :: protocol_options where
  "gateway_options = default_protocol_options\<lparr>po_token_encoding := Verbatim\<rparr>"

lemma gateway_authority:
  obtains r where "raw_http_get (\<lambda>_. []) gateway_net ''h:80'' ''/b/k'' [] 256 16 = Inr r"
    "completion_authority (view_receipt r 8192) gateway_options 4096 8192"
proof -
  have "case raw_http_get (\<lambda>_. []) gateway_net ''h:80'' ''/b/k'' [] 256 16 of Inl _ \<Rightarrow> False
    | Inr r \<Rightarrow> head_complete r \<and> \<not> head_malformed r \<and> message_complete r \<and> \<not> transport_error r
        \<and> \<not> body_truncated r \<and> status r = 206 \<and> body_content r = 0 \<and> field_count r kHdrRdmaReply = 1
        \<and> field_count r kHdrRdmaBytesTransferred = 1 \<and> first_value r kHdrRdmaReply = ''206''
        \<and> first_value r kHdrRdmaBytesTransferred = ''4096''"
    by code_simp
  then show ?thesis
    using that by (auto simp: completion_authority_def view_receipt_def parse_rdma_bytes_transferred_spec
        plain_digits_def is_digit_def digit_val_def gateway_options_def LONG_MAX_def split: sum.splits)
qed

theorem completion_from_wire_witness:
  "\<exists>r used rest. raw_http_get (\<lambda>_. []) gateway_net ''h:80'' ''/b/k'' [] 256 16 = Inr r
     \<and> request_sent r \<and> net_recvs gateway_net = used @ rest \<and> delivered used = head_bytes r"
proof -
  obtain r where r: "raw_http_get (\<lambda>_. []) gateway_net ''h:80'' ''/b/k'' [] 256 16 = Inr r"
    "completion_authority (view_receipt r 8192) gateway_options 4096 8192"
    by (rule gateway_authority)
  have "po_token_encoding gateway_options = Verbatim" by (simp add: gateway_options_def)
  with completion_from_wire [OF r] r show ?thesis by (metis append.right_neutral)
qed

text \<open>The re-entry witness holds exactly for a run of at least two entries, none entered while
  another was active, whose first entry emitted the only message and had its result replaced, whose
  later entries were all guarded, on the same thread, of the same shape and strictly after the first
  one's return marker, and in which no write was partial. A refusal always says why.\<close>

lemma guard_witness_iff:
  "(fst (guard_witness a) \<longleftrightarrow>
     2 \<le> length a \<and> list_all (\<lambda>x. \<not> ga_entered_while_active x \<and> \<not> ga_partial x) a
     \<and> ga_injected (hd a) \<and> \<not> ga_guarded (hd a) \<and> ga_http_attempt (hd a)
     \<and> list_all (\<lambda>x. ga_guarded x \<and> \<not> ga_http_attempt x \<and> ga_t_end (hd a) < ga_t_begin x
          \<and> ga_thread x = ga_thread (hd a) \<and> ga_cb_size x = ga_cb_size (hd a)
          \<and> ga_cb_offset x = ga_cb_offset (hd a)) (tl a))
   \<and> (fst (guard_witness a) \<longleftrightarrow> snd (guard_witness a) = [])"
proof (cases a)
  case Nil
  then show ?thesis by (simp add: guard_witness_def)
next
  case (Cons x xs)
  have none: "length (filter ga_http_attempt xs) = 0 \<longleftrightarrow> list_all (\<lambda>x. \<not> ga_http_attempt x) xs"
    by (induction xs) auto
  have later: "list_all (\<lambda>y. later_refused x y = None) xs \<longleftrightarrow> list_all (\<lambda>y. ga_guarded y \<and> ga_t_end x < ga_t_begin y
      \<and> ga_thread y = ga_thread x \<and> ga_cb_size y = ga_cb_size x \<and> ga_cb_offset y = ga_cb_offset x) xs"
    by (intro list.pred_cong) (auto simp: later_refused_def not_le)
  have why: "fst (guard_witness a) \<longleftrightarrow> snd (guard_witness a) = []"
    using check_later_why [of x xs] by (auto simp: guard_witness_def Cons Let_def split: option.splits)
  have "fst (guard_witness a) \<longleftrightarrow> 2 \<le> length a \<and> \<not> list_ex ga_entered_while_active a
      \<and> ga_injected x \<and> \<not> ga_guarded x \<and> ga_http_attempt x \<and> count_messages 0 a = Some 1
      \<and> list_all (\<lambda>y. later_refused x y = None) xs"
    by (auto simp: guard_witness_def Cons Let_def check_later_ok Suc_le_eq split: option.splits)
  moreover have hd: "hd a = x" "tl a = xs" by (simp_all add: Cons)
  moreover have "list_ex ga_entered_while_active a \<longleftrightarrow> \<not> list_all (\<lambda>y. \<not> ga_entered_while_active y) a"
    by (simp add: list_all_iff list_ex_iff)
  moreover have "count_messages 0 a = Some 1 \<and> ga_http_attempt x \<longleftrightarrow>
      list_all (\<lambda>y. \<not> ga_partial y) a \<and> ga_http_attempt x \<and> list_all (\<lambda>x. \<not> ga_http_attempt x) xs"
    unfolding count_messages_Some none [symmetric] by (auto simp: Cons)
  ultimately show ?thesis
    using why later unfolding hd list_all_conj by blast
qed

end
