(* ===== verification/Jsonl.thy ===== *)
theory Jsonl
  imports Prelude
begin

text \<open>
  \<^verbatim>\<open>common/jsonl.hpp\<close>: the record writer of the probes. A record is its body string; the standard
  output and the sticky failure flag are an explicit state, and what \<^verbatim>\<open>printf\<close> and \<^verbatim>\<open>fflush\<close> return
  is an argument. The specification reads the printed text back.
\<close>

section \<open>Definitions\<close>

abbreviation (input) DQ :: char where "DQ \<equiv> CHR 0x22"
abbreviation (input) BSL :: char where "BSL \<equiv> CHR 0x5C"

text \<open>\<^verbatim>\<open>snprintf(b, sizeof b, "\\u%04x", c)\<close> of one byte.\<close>

definition u_escape :: "char \<Rightarrow> string" where
  "u_escape c = [BSL] @ ''u00'' @ [hex_char (ord c div 16), hex_char (ord c mod 16)]"

definition json_escape_char :: "char \<Rightarrow> string" where
  "json_escape_char c =
     (if c = DQ \<or> c = BSL then [BSL, c]
      else if ord c < 32 \<or> 127 \<le> ord c then u_escape c
      else [c])"

definition json_escape :: "string \<Rightarrow> string" where
  "json_escape s = concat (map json_escape_char s)"

definition hex_bytes :: "string \<Rightarrow> string" where
  "hex_bytes bs = concat (map (\<lambda>c. [hex_char (ord c div 16), hex_char (ord c mod 16)]) bs)"

type_synonym json_rec = string

definition rec_raw :: "string \<Rightarrow> string \<Rightarrow> json_rec \<Rightarrow> json_rec" where
  "rec_raw k v body = (if body \<noteq> [] then body @ '','' else body) @ [DQ] @ k @ [DQ] @ '':'' @ v"

definition rec_str :: "string \<Rightarrow> string \<Rightarrow> json_rec \<Rightarrow> json_rec" where
  "rec_str k v = rec_raw k ([DQ] @ json_escape v @ [DQ])"

definition rec_hex :: "string \<Rightarrow> string \<Rightarrow> json_rec \<Rightarrow> json_rec" where
  "rec_hex k v = rec_raw k ([DQ] @ hex_bytes v @ [DQ])"

definition rec_num :: "string \<Rightarrow> int \<Rightarrow> json_rec \<Rightarrow> json_rec" where
  "rec_num k v = rec_raw k (to_string_int v)"

definition rec_boolean :: "string \<Rightarrow> bool \<Rightarrow> json_rec \<Rightarrow> json_rec" where
  "rec_boolean k v = rec_raw k (if v then ''true'' else ''false'')"

definition rec_null :: "string \<Rightarrow> json_rec \<Rightarrow> json_rec" where
  "rec_null k = rec_raw k ''null''"

definition rec_new :: "string \<Rightarrow> json_rec" where
  "rec_new event = rec_raw ''event'' ([DQ] @ json_escape event @ [DQ]) []"

record jsonl_state =
  jl_stdout :: string
  jl_output_failed :: bool

text \<open>\<open>printed\<close> and \<open>flushed\<close>: \<^verbatim>\<open>printf\<close> did not return a negative number, \<^verbatim>\<open>fflush\<close> returned 0.\<close>

definition rec_emit :: "bool \<Rightarrow> bool \<Rightarrow> json_rec \<Rightarrow> jsonl_state \<Rightarrow> jsonl_state" where
  "rec_emit printed flushed body s =
     (let s = (if printed then s\<lparr>jl_stdout := jl_stdout s @ ''{'' @ c_str body @ ''}'' @ [LF]\<rparr> else s)
      in if \<not> printed \<or> \<not> flushed then s\<lparr>jl_output_failed := True\<rparr> else s)"

section \<open>Specification: values and a reader\<close>

datatype json_value = JStr string | JHex string | JNum int | JBool bool | JNull

fun rec_put :: "string \<times> json_value \<Rightarrow> json_rec \<Rightarrow> json_rec" where
  "rec_put (k, JStr v) = rec_str k v"
| "rec_put (k, JHex v) = rec_hex k v"
| "rec_put (k, JNum v) = rec_num k v"
| "rec_put (k, JBool v) = rec_boolean k v"
| "rec_put (k, JNull) = rec_null k"

definition print_value :: "json_value \<Rightarrow> string" where
  "print_value v = (case v of
      JStr s \<Rightarrow> [DQ] @ json_escape s @ [DQ]
    | JHex s \<Rightarrow> [DQ] @ hex_bytes s @ [DQ]
    | JNum i \<Rightarrow> to_string_int i
    | JBool b \<Rightarrow> (if b then ''true'' else ''false'')
    | JNull \<Rightarrow> ''null'')"

text \<open>The string literal at the head of the input: its val and what follows the closing quote.\<close>

fun read_json_string :: "string \<Rightarrow> (string \<times> string) option" where
  "read_json_string [] = None"
| "read_json_string (c # cs) =
     (if c = DQ then Some ([], cs)
      else if c = BSL then
        (case cs of
           u # z0 # z1 # h # l # more_cs \<Rightarrow>
             if u = CHR ''u'' then
               (case (base_digit 16 h, base_digit 16 l) of
                  (Some a, Some b) \<Rightarrow> map_option (apfst (Cons (char_of (16 * a + b)))) (read_json_string more_cs)
                | _ \<Rightarrow> None)
             else map_option (apfst (Cons u)) (read_json_string (z0 # z1 # h # l # more_cs))
         | x # xs \<Rightarrow> map_option (apfst (Cons x)) (read_json_string xs)
         | [] \<Rightarrow> None)
      else map_option (apfst (Cons c)) (read_json_string cs))"

section \<open>Lemmas\<close>

lemma read_json_string_escape:
  "read_json_string (json_escape_char c @ rest) = map_option (apfst (Cons c)) (read_json_string rest)"
proof -
  have "char_of (16 * (ord c div 16) + ord c mod 16) = c" by simp
  moreover have "ord c div 16 < 16" by (simp add: less_mult_imp_div_less)
  moreover have "c = DQ \<or> c = BSL \<Longrightarrow> c \<noteq> CHR ''u''" by auto
  ultimately show ?thesis
    by (auto simp: json_escape_char_def u_escape_def split: list.split)
qed

lemma read_json_string_append:
  "read_json_string (json_escape s @ DQ # rest) = Some (s, rest)"
  by (induction s) (auto simp: json_escape_def read_json_string_escape)

lemma printable_hex_char: "d < 16 \<Longrightarrow> 32 \<le> ord (hex_char d) \<and> ord (hex_char d) < 127"
  by (auto simp: hex_char_def)

lemma json_escape_printable: "c \<in> set (json_escape s) \<Longrightarrow> 32 \<le> ord c \<and> ord c < 127"
proof (induction s)
  case Nil
  then show ?case by (simp add: json_escape_def)
next
  case (Cons x xs)
  have "ord x div 16 < 16" by (simp add: less_mult_imp_div_less)
  then have "\<forall>y \<in> set (json_escape_char x). 32 \<le> ord y \<and> ord y < 127"
    using printable_hex_char by (auto simp: json_escape_char_def u_escape_def)
  with Cons show ?case by (auto simp: json_escape_def)
qed

lemma hex_bytes_printable: "c \<in> set (hex_bytes s) \<Longrightarrow> 32 \<le> ord c \<and> ord c < 127"
  using printable_hex_char by (force simp: hex_bytes_def less_mult_imp_div_less)

lemma to_string_int_printable: "c \<in> set (to_string_int i) \<Longrightarrow> 32 \<le> ord c \<and> ord c < 127"
  using to_string_digits [of "nat i"] to_string_digits [of "nat (- i)"]
  by (fastforce simp: to_string_int_def list_all_iff is_digit_def split: if_splits)

lemma rec_put_raw: "rec_put (k, v) body = rec_raw k (print_value v) body"
  by (cases v) (simp_all add: rec_str_def rec_hex_def rec_num_def rec_boolean_def rec_null_def print_value_def)

lemma print_value_printable: "c \<in> set (print_value v) \<Longrightarrow> 32 \<le> ord c \<and> ord c < 127"
  using json_escape_printable hex_bytes_printable to_string_int_printable
  by (auto simp: print_value_def split: json_value.splits if_splits)

definition print_pair :: "string \<times> json_value \<Rightarrow> string" where
  "print_pair kv = [DQ] @ fst kv @ [DQ] @ '':'' @ print_value (snd kv)"

lemma print_pair_not_Nil [simp]: "print_pair kv \<noteq> []"
  by (simp add: print_pair_def)

lemma fold_rec_put:
  "body \<noteq> [] \<Longrightarrow> fold rec_put kvs body = body @ concat (map (\<lambda>kv. '','' @ print_pair kv) kvs)"
proof (induction kvs arbitrary: body)
  case Nil
  then show ?case by simp
next
  case (Cons kv kvs)
  obtain k v where kv: "kv = (k, v)" by force
  have "rec_put kv body = body @ '','' @ print_pair kv"
    using Cons.prems by (simp add: kv rec_put_raw rec_raw_def print_pair_def)
  with Cons.IH [of "rec_put kv body"] show ?case by simp
qed

lemma record_body:
  "fold rec_put kvs (rec_new ev) = join_on CHR '','' (map print_pair ((''event'', JStr ev) # kvs))"
proof -
  have new: "rec_new ev = print_pair (''event'', JStr ev)"
    by (simp add: rec_new_def rec_raw_def print_pair_def print_value_def)
  have "join_on CHR '','' (x # map print_pair kvs) = x @ concat (map (\<lambda>kv. '','' @ print_pair kv) kvs)" for x
    by (simp add: join_on_Cons comp_def)
  then show ?thesis using new fold_rec_put [of "rec_new ev" kvs] by simp
qed

section \<open>Properties\<close>

text \<open>No value can break out of its string: reading a printed string literal returns the original
  bytes and stops exactly at the closing quote the writer put, whatever follows.\<close>

lemma json_string_roundtrip:
  "read_json_string (json_escape s @ [DQ] @ rest) = Some (s, rest)"
  by (simp add: read_json_string_append)

interpretation esc: codec json_escape "\<lambda>t. fst (the (read_json_string (t @ [DQ])))" "\<lambda>_. True"
  using read_json_string_append [of _ "[]"] by unfold_locales simp

text \<open>One record, one line. A record built from an event name and any values under printable keys
  is emitted as a single line of printable ASCII: the braces around the key-value pairs in the order
  they were added, joined by commas. The failure flag is set exactly when printing or flushing failed
  and is never cleared.\<close>

lemma record_line:
  assumes "\<forall>(k, v) \<in> set kvs. \<forall>c \<in> set k. 32 \<le> ord c \<and> ord c < 127"
  shows "(\<forall>c \<in> set (fold rec_put kvs (rec_new ev)). 32 \<le> ord c \<and> ord c < 127)
    \<and> rec_emit True flushed (fold rec_put kvs (rec_new ev)) s
        = s\<lparr>jl_stdout := jl_stdout s @ ''{'' @ join_on CHR '','' (map print_pair ((''event'', JStr ev) # kvs)) @ ''}'' @ [LF],
            jl_output_failed := jl_output_failed s \<or> \<not> flushed\<rparr>
    \<and> rec_emit False flushed (fold rec_put kvs (rec_new ev)) s = s\<lparr>jl_output_failed := True\<rparr>"
proof -
  have sep: "set (join_on CHR '','' xs) \<subseteq> insert CHR '','' (\<Union> (set ` set xs))" for xs
    by (induction "CHR '',''" xs rule: join_on.induct) auto
  have pair: "\<forall>kv \<in> set ((''event'', JStr ev) # kvs). \<forall>c \<in> set (print_pair kv). 32 \<le> ord c \<and> ord c < 127"
  proof
    fix kv
    assume kv: "kv \<in> set ((''event'', JStr ev) # kvs)"
    have "\<forall>c \<in> set ''event''. 32 \<le> ord c \<and> ord c < 127" by simp
    with kv assms have "\<forall>c \<in> set (fst kv). 32 \<le> ord c \<and> ord c < 127" by auto
    then show "\<forall>c \<in> set (print_pair kv). 32 \<le> ord c \<and> ord c < 127"
      using print_value_printable [of _ "snd kv"] by (auto simp: print_pair_def)
  qed
  have "c \<in> insert CHR '','' (\<Union> (set ` set (map print_pair ((''event'', JStr ev) # kvs)))) \<Longrightarrow> 32 \<le> ord c \<and> ord c < 127" for c
    using pair by auto
  then have all: "\<forall>c \<in> set (fold rec_put kvs (rec_new ev)). 32 \<le> ord c \<and> ord c < 127"
    unfolding record_body by (intro ballI) (drule subsetD [OF sep])
  then have "c_str (fold rec_put kvs (rec_new ev)) = fold rec_put kvs (rec_new ev)"
    unfolding c_str_def by (intro takeWhile_eq_all_conv [THEN iffD2]) force
  with all show ?thesis by (cases s) (simp add: rec_emit_def record_body Let_def)
qed

end
