(* ===== verification/Manifest.thy ===== *)
theory Manifest
  imports Prelude
begin

text \<open>
  \<^verbatim>\<open>common/verify/manifest.cpp\<close>: the strict reader of the digest manifest and the closure check that
  a verified run performs before it starts. An input stream is its text together with the flag
  whether an I/O error ended it. The two \<^verbatim>\<open>std::map\<close>s are ordered association lists.
\<close>

section \<open>Data\<close>

record manifest_entry =
  me_key :: string
  me_size :: u64
  me_full_sha256 :: string
  me_prefix_sha256 :: "(u64 \<times> string) list"

type_synonym manifest = "(string \<times> manifest_entry) list"

record parse_status =
  ps_ok :: bool
  ps_error :: string
  ps_line :: nat

record requested_span =
  rs_key :: string
  rs_offset :: u64
  rs_size :: u64

record closure_status =
  cs_ok :: bool
  cs_error :: string

section \<open>Fields\<close>

definition is_lower_hex_64 :: "string \<Rightarrow> bool" where
  "is_lower_hex_64 s \<longleftrightarrow> length s = 64 \<and> list_all is_lower_hex s"

definition UINT64_MAX :: u64 where "UINT64_MAX = - 1"

definition u64_step :: "u64 \<Rightarrow> char \<Rightarrow> u64 option" where
  "u64_step v c =
     (if \<not> is_digit c then None
      else let digit = word_of_nat (digit_val c) in
        if (UINT64_MAX - digit) div 10 < v then None else Some (v * 10 + digit))"

definition parse_u64_strict :: "string \<Rightarrow> u64 option" where
  "parse_u64_strict s = (if s = [] then None else scan u64_step 0 s)"

definition split_tabs :: "string \<Rightarrow> string list" where
  "split_tabs line = split_on TAB line"

section \<open>Records\<close>

definition quoted :: "string \<Rightarrow> string" where
  "quoted s = [CHR 0x27] @ s @ [CHR 0x27]"

definition prefix_tag :: string where "prefix_tag = ''prefix:''"

definition add_prefix :: "manifest_entry \<Rightarrow> string \<Rightarrow> string + manifest_entry" where
  "add_prefix entry token =
     (if \<not> starts_with prefix_tag token then Inl (''malformed prefix token '' @ quoted token)
      else case find_char CHR ''='' (drop (length prefix_tag) token) of
        None \<Rightarrow> Inl (''prefix token '' @ quoted token @ '' has no '' @ quoted ''='')
      | Some eq \<Rightarrow>
          let len_str = take eq (drop (length prefix_tag) token) in
          case parse_u64_strict len_str of
            None \<Rightarrow> Inl (''invalid prefix length '' @ quoted len_str)
          | Some prefix_len \<Rightarrow>
              if prefix_len = 0 then Inl ''zero prefix length''
              else if me_size entry < prefix_len
              then Inl (''prefix length '' @ len_str @ '' exceeds object size '' @ to_string (unat (me_size entry))
                        @ '' for key '' @ quoted (me_key entry))
              else
                let digest = drop (eq + 1) (drop (length prefix_tag) token) in
                if \<not> is_lower_hex_64 digest
                then Inl (''prefix digest at length '' @ len_str @ '' is not exactly 64 lowercase hex chars'')
                else case omap_emplace prefix_len digest (me_prefix_sha256 entry) of
                  (m, fresh) \<Rightarrow>
                    if \<not> fresh
                    then Inl (''duplicate prefix length '' @ len_str @ '' for key '' @ quoted (me_key entry))
                    else Inr (entry\<lparr>me_prefix_sha256 := m\<rparr>))"

fun add_prefixes :: "manifest_entry \<Rightarrow> string list \<Rightarrow> string + manifest_entry" where
  "add_prefixes entry [] = Inr entry"
| "add_prefixes entry (t # ts) = (case add_prefix entry t of Inl e \<Rightarrow> Inl e | Inr entry' \<Rightarrow> add_prefixes entry' ts)"

definition parse_record :: "string \<Rightarrow> string + manifest_entry" where
  "parse_record line =
     (case split_tabs line of
        key # size_str # sha # tokens \<Rightarrow>
          if key = [] then Inl ''empty object key''
          else (case parse_u64_strict size_str of
              None \<Rightarrow> Inl (''invalid size '' @ quoted size_str @ '' for key '' @ quoted key)
            | Some sz \<Rightarrow>
                if sz = 0 then Inl (''zero size for key '' @ quoted key)
                else if \<not> is_lower_hex_64 sha
                then Inl (''full digest for key '' @ quoted key @ '' is not exactly 64 lowercase hex chars'')
                else add_prefixes \<lparr>me_key = key, me_size = sz, me_full_sha256 = sha, me_prefix_sha256 = []\<rparr> tokens)
      | _ \<Rightarrow> Inl ''expected key<TAB>size<TAB>full_sha256'')"

text \<open>\<^verbatim>\<open>std::getline\<close>: the pieces between line feeds, without an empty one after the last.\<close>

definition getlines :: "string \<Rightarrow> string list" where
  "getlines text = (let ls = split_on LF text in if last ls = [] then butlast ls else ls)"

definition skipped_line :: "string \<Rightarrow> bool" where
  "skipped_line line \<longleftrightarrow>
     (case dropWhile (\<lambda>c. c = SP) line of [] \<Rightarrow> True | c # _ \<Rightarrow> c = CHR ''#'')"

definition parse_fail :: "nat \<Rightarrow> string \<Rightarrow> parse_status" where
  "parse_fail line_no msg = \<lparr>ps_ok = False, ps_error = msg, ps_line = line_no\<rparr>"

fun parse_lines :: "bool \<Rightarrow> nat \<Rightarrow> manifest \<Rightarrow> string list \<Rightarrow> manifest \<times> parse_status" where
  "parse_lines bad line_no m [] =
     (if bad then (m, parse_fail line_no ''stream I/O error while reading the manifest'')
      else (m, \<lparr>ps_ok = True, ps_error = [], ps_line = 0\<rparr>))"
| "parse_lines bad line_no m (l # ls) =
     (let line_no = line_no + 1 in
      if skipped_line l then parse_lines bad line_no m ls
      else case parse_record l of
        Inl e \<Rightarrow> (m, parse_fail line_no e)
      | Inr entry \<Rightarrow>
          (case omap_emplace (me_key entry) entry m of
             (m', fresh) \<Rightarrow>
               if \<not> fresh then (m, parse_fail line_no (''duplicate record for key '' @ quoted (me_key entry)))
               else parse_lines bad line_no m' ls))"

definition parse_manifest :: "string \<Rightarrow> bool \<Rightarrow> manifest \<times> parse_status" where
  "parse_manifest text bad = parse_lines bad 0 [] (getlines text)"

section \<open>Closure\<close>

definition check_span :: "manifest \<Rightarrow> (string \<times> u64) list \<Rightarrow> requested_span \<Rightarrow> string option" where
  "check_span m head_sizes span =
     (case omap_lookup (rs_key span) m of
        None \<Rightarrow> Some (''key '' @ quoted (rs_key span) @ '' absent from the manifest'')
      | Some entry \<Rightarrow>
          (case omap_lookup (rs_key span) head_sizes of
             None \<Rightarrow> Some (''key '' @ quoted (rs_key span) @ '' absent from the HEAD results'')
           | Some head_size \<Rightarrow>
               if me_size entry \<noteq> head_size
               then Some (''size mismatch for key '' @ quoted (rs_key span) @ '': manifest ''
                          @ to_string (unat (me_size entry)) @ '' vs HEAD '' @ to_string (unat head_size))
               else if rs_offset span \<noteq> 0
               then Some (''unsupported span for key '' @ quoted (rs_key span)
                          @ '': only full-object and prefix spans are verifiable'')
               else if me_size entry < rs_size span
               then Some (''requested span '' @ to_string (unat (rs_size span)) @ '' for key '' @ quoted (rs_key span)
                          @ '' exceeds object size '' @ to_string (unat (me_size entry)))
               else if rs_size span = 0 then
                 (if \<not> is_lower_hex_64 (me_full_sha256 entry)
                  then Some (''full digest for key '' @ quoted (rs_key span) @ '' is not a valid SHA256'') else None)
               else (case omap_lookup (rs_size span) (me_prefix_sha256 entry) of
                   None \<Rightarrow> Some (''no prefix digest for key '' @ quoted (rs_key span) @ '' at length ''
                                 @ to_string (unat (rs_size span)))
                 | Some digest \<Rightarrow>
                     if \<not> is_lower_hex_64 digest
                     then Some (''prefix digest for key '' @ quoted (rs_key span) @ '' at length ''
                                @ to_string (unat (rs_size span)) @ '' is not a valid SHA256'')
                     else None)))"

fun check_spans :: "manifest \<Rightarrow> (string \<times> u64) list \<Rightarrow> requested_span list \<Rightarrow> closure_status" where
  "check_spans m head_sizes [] = \<lparr>cs_ok = True, cs_error = []\<rparr>"
| "check_spans m head_sizes (s # ss) =
     (case check_span m head_sizes s of
        Some e \<Rightarrow> \<lparr>cs_ok = False, cs_error = e\<rparr>
      | None \<Rightarrow> check_spans m head_sizes ss)"

definition validate_closure :: "manifest \<Rightarrow> requested_span list \<Rightarrow> (string \<times> u64) list \<Rightarrow> closure_status" where
  "validate_closure m spans head_sizes =
     (if spans = [] then \<lparr>cs_ok = False,
         cs_error = ''no requested spans: a verified run must check at least one span''\<rparr>
      else check_spans m head_sizes spans)"

section \<open>Decimal sizes\<close>

lemma u64_step_guard:
  fixes v :: u64
  assumes "d < 10"
  shows "(UINT64_MAX - word_of_nat d) div 10 < v \<longleftrightarrow> 2 ^ 64 - 1 < 10 * unat v + d"
proof -
  have u: "unat UINT64_MAX = 2 ^ 64 - 1"
    by (simp add: UINT64_MAX_def unsigned_minus_1_eq_mask mask_eq_exp_minus_1)
  have d: "unat (word_of_nat d :: u64) = d" using assms by simp
  have "word_of_nat d \<le> UINT64_MAX" by (simp add: UINT64_MAX_def)
  then have "unat ((UINT64_MAX - word_of_nat d) div 10) = (2 ^ 64 - 1 - d) div 10"
    by (simp add: unat_div unat_sub_u64 u d)
  then show ?thesis using assms by (auto simp: word_less_nat_alt)
qed

interpretation u64s: strict_decimal_scan u64_step unat "2 ^ 64 - 1"
proof unfold_locales
  fix c :: char and a :: u64
  assume c: "is_digit c"
  then have d: "digit_val c < 10" by (rule digit_val_lt)
  show "u64_step a c = None" if "2 ^ 64 - 1 < 10 * unat a + digit_val c"
    using that c d by (simp add: u64_step_def Let_def u64_step_guard)
  show "\<exists>b. u64_step a c = Some b \<and> unat b = 10 * unat a + digit_val c" if "10 * unat a + digit_val c \<le> 2 ^ 64 - 1"
  proof -
    have "10 * unat a + digit_val c < 2 ^ 64" using that by simp
    then have "unat (a * 10 + word_of_nat (digit_val c)) = 10 * unat a + digit_val c"
      using d by (simp add: unat_word_ariths mult.commute)
    then show ?thesis using that c d by (simp add: u64_step_def Let_def u64_step_guard)
  qed
next
  fix c :: char and a :: u64
  assume "\<not> is_digit c"
  then show "u64_step a c = None" by (simp add: u64_step_def)
qed

lemma parse_u64_strict_iff:
  "parse_u64_strict s = Some w \<longleftrightarrow> s \<noteq> [] \<and> list_all is_digit s \<and> dec_value s = unat w"
proof (cases "s = []")
  case True
  then show ?thesis by (simp add: parse_u64_strict_def)
next
  case False
  show ?thesis
  proof
    assume "parse_u64_strict s = Some w"
    then have "scan u64_step 0 s = Some w" using False by (simp add: parse_u64_strict_def)
    then show "s \<noteq> [] \<and> list_all is_digit s \<and> dec_value s = unat w"
      using False u64s.scan_Some_iff [of 0 s] u64s.scan_value [of 0 s w] by auto
  next
    assume *: "s \<noteq> [] \<and> list_all is_digit s \<and> dec_value s = unat w"
    then have "dec_value s \<le> 2 ^ 64 - 1" using unat_u64_le [of w] by simp
    with * obtain b where "scan u64_step 0 s = Some b" "unat b = dec_value s"
      using u64s.scan_digits [of s 0] by auto
    with * show "parse_u64_strict s = Some w" by (simp add: parse_u64_strict_def word_unat_eq_iff)
  qed
qed

lemma parse_u64_strict_print: "parse_u64_strict (to_string (unat w)) = Some w"
  by (simp add: parse_u64_strict_iff to_string_digits)

section \<open>Well-formed manifests\<close>

definition entry_ok :: "manifest_entry \<Rightarrow> bool" where
  "entry_ok e \<longleftrightarrow> me_key e \<noteq> [] \<and> me_size e \<noteq> 0 \<and> is_lower_hex_64 (me_full_sha256 e)
     \<and> omap_ok (me_prefix_sha256 e)
     \<and> list_all (\<lambda>(l, d). l \<noteq> 0 \<and> l \<le> me_size e \<and> is_lower_hex_64 d) (me_prefix_sha256 e)"

definition manifest_ok :: "manifest \<Rightarrow> bool" where
  "manifest_ok m \<longleftrightarrow> omap_ok m \<and> list_all (\<lambda>(k, e). me_key e = k \<and> entry_ok e) m"

lemma add_prefix_ok:
  assumes "entry_ok e" "add_prefix e t = Inr e'"
  shows "entry_ok e'"
proof -
  from assms(2) obtain l d m where "l \<noteq> 0" "l \<le> me_size e" "is_lower_hex_64 d"
    and m: "omap_emplace l d (me_prefix_sha256 e) = (m, True)" and e': "e' = e\<lparr>me_prefix_sha256 := m\<rparr>"
    by (auto simp: add_prefix_def Let_def split: if_splits option.splits prod.splits)
  then show ?thesis
    using assms(1) by (auto simp: entry_ok_def omap_emplace_fresh list_all_iff set_omap_put omap_ok_put)
qed

lemma add_prefixes_ok: "entry_ok e \<Longrightarrow> add_prefixes e ts = Inr e' \<Longrightarrow> entry_ok e'"
  by (induction ts arbitrary: e) (auto dest: add_prefix_ok split: sum.splits)

lemma parse_record_ok:
  assumes "parse_record l = Inr e"
  shows "entry_ok e"
proof -
  from assms obtain k sz sha ts where "k \<noteq> []" "sz \<noteq> 0" "is_lower_hex_64 sha"
    and e: "add_prefixes \<lparr>me_key = k, me_size = sz, me_full_sha256 = sha, me_prefix_sha256 = []\<rparr> ts = Inr e"
    by (auto simp: parse_record_def split: list.splits if_splits option.splits)
  then show ?thesis using add_prefixes_ok [OF _ e] by (simp add: entry_ok_def)
qed

text \<open>The loop over the lines: every record of the input is in the result, and nothing else is.\<close>

definition records :: "string list \<Rightarrow> string list" where
  "records ls = filter (\<lambda>l. \<not> skipped_line l) ls"

lemma parse_lines_ok:
  assumes "manifest_ok m" "parse_lines bad n m ls = (m', st)"
  shows "manifest_ok m' \<and> (ps_ok st \<longrightarrow> \<not> bad \<and> length m' = length m + length (records ls)
     \<and> snd ` set m' = snd ` set m \<union> {e. \<exists>l \<in> set (records ls). parse_record l = Inr e}
     \<and> (\<forall>l \<in> set (records ls). \<exists>e. parse_record l = Inr e))"
  using assms
proof (induction ls arbitrary: n m)
  case Nil
  then show ?case by (auto simp: records_def parse_fail_def split: if_splits)
next
  case (Cons l ls)
  show ?case
  proof (cases "skipped_line l")
    case True
    with Cons.prems have "parse_lines bad (n + 1) m ls = (m', st)" by (simp add: Let_def)
    from Cons.IH [OF Cons.prems(1) this] True show ?thesis by (simp add: records_def)
  next
    case False
    show ?thesis
    proof (cases "parse_record l")
      case (Inl e)
      with Cons.prems False show ?thesis by (auto simp: parse_fail_def Let_def)
    next
      case (Inr e)
      obtain m1 fresh where em: "omap_emplace (me_key e) e m = (m1, fresh)" by force
      show ?thesis
      proof (cases fresh)
        case False
        with Cons.prems em Inr \<open>\<not> skipped_line l\<close> show ?thesis by (auto simp: parse_fail_def Let_def)
      next
        case True
        with em have m1: "omap_lookup (me_key e) m = None" "m1 = omap_put (me_key e) e m"
          by (simp_all add: omap_emplace_fresh)
        have "manifest_ok m1"
          using Cons.prems(1) parse_record_ok [OF Inr] m1 omap_ok_put [of m]
          by (auto simp: manifest_ok_def set_omap_put list_all_iff)
        moreover have "parse_lines bad (n + 1) m1 ls = (m', st)"
          using Cons.prems(2) Inr em True False by (simp add: Let_def)
        ultimately show ?thesis
          using Cons.IH [of m1 "n + 1"] False Inr m1
          by (auto simp: records_def set_omap_put length_omap_put)
      qed
    qed
  qed
qed

section \<open>Printing\<close>

definition print_prefix :: "u64 \<times> string \<Rightarrow> string" where
  "print_prefix p = prefix_tag @ to_string (unat (fst p)) @ ''='' @ snd p"

definition print_entry :: "manifest_entry \<Rightarrow> string" where
  "print_entry e = join_on TAB ([me_key e, to_string (unat (me_size e)), me_full_sha256 e]
     @ map print_prefix (me_prefix_sha256 e))"

definition print_manifest :: "manifest \<Rightarrow> string" where
  "print_manifest m = concat (map (\<lambda>(k, e). print_entry e @ [LF]) m)"

definition key_printable :: "string \<Rightarrow> bool" where
  "key_printable k \<longleftrightarrow> TAB \<notin> set k \<and> LF \<notin> set k
     \<and> (case dropWhile (\<lambda>c. c = SP) k of [] \<Rightarrow> True | c # _ \<Rightarrow> c \<noteq> CHR ''#'')"

lemma digits_not: "list_all is_digit s \<Longrightarrow> TAB \<notin> set s \<and> LF \<notin> set s \<and> CHR ''='' \<notin> set s"
  by (auto simp: list_all_iff is_digit_def)

lemma hex_not: "is_lower_hex_64 s \<Longrightarrow> TAB \<notin> set s \<and> LF \<notin> set s"
  by (auto simp: is_lower_hex_64_def list_all_iff is_lower_hex_def is_digit_def)

lemma print_prefix_not: "is_lower_hex_64 (snd p) \<Longrightarrow> TAB \<notin> set (print_prefix p) \<and> LF \<notin> set (print_prefix p)"
  using hex_not digits_not [OF to_string_digits] by (auto simp: print_prefix_def prefix_tag_def)

lemma add_prefix_print:
  assumes "l \<noteq> 0" "l \<le> me_size e" "is_lower_hex_64 d" "\<forall>k \<in> fst ` set (me_prefix_sha256 e). k < l"
  shows "add_prefix e (print_prefix (l, d)) = Inr (e\<lparr>me_prefix_sha256 := me_prefix_sha256 e @ [(l, d)]\<rparr>)"
proof -
  have "CHR ''='' \<notin> set (to_string (unat l))" using digits_not [OF to_string_digits] by blast
  then have "find_char CHR ''='' (to_string (unat l) @ CHR ''='' # d) = Some (length (to_string (unat l)))"
    by (rule find_char_append)
  moreover have "drop (length prefix_tag) (print_prefix (l, d)) = to_string (unat l) @ CHR ''='' # d"
    by (simp add: print_prefix_def)
  moreover have "starts_with prefix_tag (print_prefix (l, d))" by (simp add: print_prefix_def)
  ultimately show ?thesis
    using assms by (simp add: add_prefix_def Let_def parse_u64_strict_print omap_emplace_last not_less)
qed

lemma add_prefixes_print:
  "omap_ok (me_prefix_sha256 e @ ps) \<Longrightarrow> list_all (\<lambda>(l, d). l \<noteq> 0 \<and> l \<le> me_size e \<and> is_lower_hex_64 d) ps \<Longrightarrow>
   add_prefixes e (map print_prefix ps) = Inr (e\<lparr>me_prefix_sha256 := me_prefix_sha256 e @ ps\<rparr>)"
proof (induction ps arbitrary: e)
  case Nil
  then show ?case by simp
next
  case (Cons p ps)
  obtain l d where p: "p = (l, d)" by force
  have "\<forall>k \<in> fst ` set (me_prefix_sha256 e). k < l" using Cons.prems(1) by (auto simp: p sorted_wrt_append)
  then have "add_prefix e (print_prefix p) = Inr (e\<lparr>me_prefix_sha256 := me_prefix_sha256 e @ [p]\<rparr>)"
    using Cons.prems(2) by (simp add: p add_prefix_print)
  with Cons.IH [of "e\<lparr>me_prefix_sha256 := me_prefix_sha256 e @ [p]\<rparr>"] Cons.prems show ?case by simp
qed

lemma parse_record_print:
  assumes "entry_ok e" "key_printable (me_key e)"
  shows "parse_record (print_entry e) = Inr e"
proof -
  have parts: "\<forall>x \<in> set ([me_key e, to_string (unat (me_size e)), me_full_sha256 e]
      @ map print_prefix (me_prefix_sha256 e)). TAB \<notin> set x"
    using assms digits_not [OF to_string_digits] hex_not print_prefix_not
    by (auto simp: entry_ok_def key_printable_def list_all_iff)
  have "split_tabs (print_entry e) = [me_key e, to_string (unat (me_size e)), me_full_sha256 e]
      @ map print_prefix (me_prefix_sha256 e)"
    unfolding split_tabs_def print_entry_def by (rule split_on_join_on [OF _ parts]) simp
  moreover have "add_prefixes \<lparr>me_key = me_key e, me_size = me_size e, me_full_sha256 = me_full_sha256 e,
      me_prefix_sha256 = []\<rparr> (map print_prefix (me_prefix_sha256 e)) = Inr e"
    using assms(1) add_prefixes_print [of "e\<lparr>me_prefix_sha256 := []\<rparr>" "me_prefix_sha256 e"]
    by (cases e) (simp add: entry_ok_def)
  ultimately show ?thesis
    using assms(1) by (simp add: parse_record_def parse_u64_strict_print entry_ok_def)
qed

lemma print_entry_line:
  assumes "entry_ok e" "key_printable (me_key e)"
  shows "LF \<notin> set (print_entry e)" and "\<not> skipped_line (print_entry e)"
proof -
  have cons: "print_entry e = me_key e @ TAB # join_on TAB ([to_string (unat (me_size e)), me_full_sha256 e]
      @ map print_prefix (me_prefix_sha256 e))"
    by (simp add: print_entry_def)
  have sub: "set (join_on TAB xs) \<subseteq> insert TAB (\<Union> (set ` set xs))" for xs
    by (induction TAB xs rule: join_on.induct) auto
  have parts: "\<forall>x \<in> set ([me_key e, to_string (unat (me_size e)), me_full_sha256 e]
      @ map print_prefix (me_prefix_sha256 e)). LF \<notin> set x"
    using assms digits_not [OF to_string_digits] hex_not print_prefix_not
    by (auto simp: entry_ok_def key_printable_def list_all_iff)
  show "LF \<notin> set (print_entry e)"
  proof
    assume "LF \<in> set (print_entry e)"
    then have "LF \<in> insert TAB (\<Union> (set ` set ([me_key e, to_string (unat (me_size e)), me_full_sha256 e]
      @ map print_prefix (me_prefix_sha256 e))))"
      unfolding print_entry_def by (rule subsetD [OF sub])
    with parts show False by auto
  qed
  show "\<not> skipped_line (print_entry e)"
    using assms(2) unfolding cons skipped_line_def key_printable_def
    by (cases "dropWhile (\<lambda>c. c = SP) (me_key e)")
      (auto simp: dropWhile_append dropWhile_eq_Nil_conv)
qed

lemma getlines_print:
  "\<forall>l \<in> set ls. LF \<notin> set l \<Longrightarrow> getlines (concat (map (\<lambda>l. l @ [LF]) ls)) = ls"
proof -
  assume "\<forall>l \<in> set ls. LF \<notin> set l"
  then have "split_on LF (concat (map (\<lambda>l. l @ [LF]) ls)) = ls @ [[]]"
    by (induction ls) (auto simp: split_on_append)
  then show ?thesis by (simp add: getlines_def)
qed

lemma parse_lines_print:
  "omap_ok (m @ m') \<Longrightarrow> list_all (\<lambda>(k, e). me_key e = k \<and> entry_ok e \<and> key_printable k) m' \<Longrightarrow>
   parse_lines False n m (map (\<lambda>(k, e). print_entry e) m') = (m @ m', \<lparr>ps_ok = True, ps_error = [], ps_line = 0\<rparr>)"
proof (induction m' arbitrary: n m)
  case Nil
  then show ?case by simp
next
  case (Cons p m')
  obtain k e where p: "p = (k, e)" by force
  have "omap_emplace k e m = (m @ [(k, e)], True)"
    using Cons.prems(1) by (intro omap_emplace_last) (auto simp: p sorted_wrt_append)
  with Cons.IH [of "m @ [p]" "n + 1"] Cons.prems show ?case
    by (simp add: p Let_def print_entry_line parse_record_print)
qed

section \<open>Properties\<close>

text \<open>C33. Accepted manifests are sound and complete. Whatever the input, every entry that the parser
  keeps is well-formed (non-empty key, positive size, 64-digit digests, strictly increasing prefix
  lengths between 1 and the size); when it reports success the stream had no error and the manifest
  holds exactly one entry per record line, each of which parsed.\<close>

theorem parse_manifest_sound:
  assumes "parse_manifest text bad = (m, st)"
  shows "manifest_ok m \<and> (ps_ok st \<longrightarrow> \<not> bad \<and> length m = length (records (getlines text))
     \<and> snd ` set m = {e. \<exists>l \<in> set (records (getlines text)). parse_record l = Inr e}
     \<and> (\<forall>l \<in> set (records (getlines text)). \<exists>e. parse_record l = Inr e))"
  using parse_lines_ok [of "[]" bad 0 "getlines text" m st] assms
  by (simp add: parse_manifest_def manifest_ok_def)

definition demo_manifest :: manifest where
  "demo_manifest = [(''k1'', \<lparr>me_key = ''k1'', me_size = 10, me_full_sha256 = replicate 64 CHR ''a'',
      me_prefix_sha256 = [(4, replicate 64 CHR ''b''), (8, replicate 64 CHR ''c'')]\<rparr>)]"

lemma demo_manifest_ok: "manifest_ok demo_manifest" "\<forall>(k, e) \<in> set demo_manifest. key_printable k"
  by (simp_all add: demo_manifest_def manifest_ok_def entry_ok_def is_lower_hex_64_def is_lower_hex_def
      is_digit_def list_all_iff key_printable_def)

theorem parse_manifest_sound_witness:
  "length (records (getlines (print_manifest demo_manifest))) = 1"
proof -
  have "getlines (print_manifest demo_manifest) = [print_entry (snd (hd demo_manifest))]"
    using getlines_print [of "[print_entry (snd (hd demo_manifest))]"] print_entry_line(1) demo_manifest_ok
    by (simp add: print_manifest_def demo_manifest_def manifest_ok_def)
  then have "parse_manifest (print_manifest demo_manifest) False
      = (demo_manifest, \<lparr>ps_ok = True, ps_error = [], ps_line = 0\<rparr>)"
    using parse_lines_print [of "[]" demo_manifest 0] demo_manifest_ok
    by (simp add: parse_manifest_def demo_manifest_def manifest_ok_def)
  from parse_manifest_sound [OF this] show ?thesis by (simp add: demo_manifest_def)
qed

text \<open>C32. Printing and reading a manifest is the identity for every well-formed manifest whose keys
  contain no separator and do not look like comments.\<close>

theorem manifest_roundtrip:
  assumes "manifest_ok m" and "\<forall>(k, e) \<in> set m. key_printable k"
  shows "parse_manifest (print_manifest m) False = (m, \<lparr>ps_ok = True, ps_error = [], ps_line = 0\<rparr>)"
proof -
  have all: "list_all (\<lambda>(k, e). me_key e = k \<and> entry_ok e \<and> key_printable k) m"
    using assms by (auto simp: manifest_ok_def list_all_iff)
  then have "\<forall>l \<in> set (map (\<lambda>(k, e). print_entry e) m). LF \<notin> set l"
    using print_entry_line(1) by (fastforce simp: list_all_iff)
  then have "getlines (print_manifest m) = map (\<lambda>(k, e). print_entry e) m"
    using getlines_print [of "map (\<lambda>(k, e). print_entry e) m"]
    by (simp add: print_manifest_def comp_def case_prod_unfold)
  then show ?thesis
    using parse_lines_print [of "[]" m 0] all assms(1) by (simp add: parse_manifest_def manifest_ok_def)
qed

theorem manifest_roundtrip_witness: "fst (parse_manifest (print_manifest demo_manifest) False) = demo_manifest"
  using manifest_roundtrip [OF demo_manifest_ok] by simp

definition span_verifiable :: "manifest \<Rightarrow> (string \<times> u64) list \<Rightarrow> requested_span \<Rightarrow> bool" where
  "span_verifiable m head_sizes span \<longleftrightarrow>
     (case (omap_lookup (rs_key span) m, omap_lookup (rs_key span) head_sizes) of
        (Some e, Some h) \<Rightarrow> me_size e = h \<and> rs_offset span = 0 \<and> rs_size span \<le> me_size e
          \<and> (if rs_size span = 0 then is_lower_hex_64 (me_full_sha256 e)
             else case omap_lookup (rs_size span) (me_prefix_sha256 e) of None \<Rightarrow> False | Some d \<Rightarrow> is_lower_hex_64 d)
      | _ \<Rightarrow> False)"

lemma check_span_None: "check_span m head_sizes span = None \<longleftrightarrow> span_verifiable m head_sizes span"
  by (auto simp: check_span_def span_verifiable_def not_less split: option.splits)

lemma check_span_error: "check_span m head_sizes span = Some e \<Longrightarrow> e \<noteq> []"
  by (auto simp: check_span_def split: option.splits if_splits)

text \<open>The closure gate never fails open: it passes exactly when at least one span is requested and
  for every span the key is in the manifest and in the HEAD results with equal sizes, the span starts
  at 0 within the object, and the digest it will be checked against exists and is well-formed. A
  refusal carries a message.\<close>

lemma validate_closure_iff:
  "(cs_ok (validate_closure m spans head_sizes) \<longleftrightarrow> spans \<noteq> [] \<and> list_all (span_verifiable m head_sizes) spans)
   \<and> (cs_ok (validate_closure m spans head_sizes) \<longleftrightarrow> cs_error (validate_closure m spans head_sizes) = [])"
proof -
  have "cs_ok (check_spans m head_sizes spans) \<longleftrightarrow> list_all (span_verifiable m head_sizes) spans"
    by (induction spans) (auto simp: check_span_None [symmetric] split: option.splits)
  moreover have "cs_ok (check_spans m head_sizes spans) \<longleftrightarrow> cs_error (check_spans m head_sizes spans) = []"
    by (induction spans) (auto dest: check_span_error split: option.splits)
  ultimately show ?thesis by (simp add: validate_closure_def)
qed

end
