(* ===== verification/Sampler.thy ===== *)
theory Sampler
  imports Prelude
begin

unbundle bit_operations_syntax

text \<open>
  \<^verbatim>\<open>common/verify/sampler.cpp\<close>: which occurrences of a key a thread verifies. All arithmetic is the
  code's own: 64-bit words for the mixed key and the phase, 32-bit words for the configuration.
\<close>

section \<open>Definitions\<close>

record sampler =
  sp_seed :: u64
  sp_every :: u32
  sp_thread_id :: u32
  sp_num_threads :: u32

definition mix64 :: "u64 \<Rightarrow> u64" where
  "mix64 x =
     (let x = x + 0x9e3779b97f4a7c15;
          x = (x XOR drop_bit 30 x) * 0xbf58476d1ce4e5b9;
          x = (x XOR drop_bit 27 x) * 0x94d049bb133111eb
      in x XOR drop_bit 31 x)"

definition stride :: "sampler \<Rightarrow> u32" where
  "stride s =
     (let threads = (if sp_num_threads s = 0 then 1 else sp_num_threads s)
      in if sp_every s div threads = 0 then 1 else sp_every s div threads)"

definition keyed_phase :: "sampler \<Rightarrow> u32 \<Rightarrow> u64" where
  "keyed_phase s key_id =
     mix64 (sp_seed s XOR (0x517cc1b727220a95 * (ucast key_id + 1))) mod ucast (sp_every s)"

definition thread_phase :: "sampler \<Rightarrow> u64" where
  "thread_phase s = (ucast (sp_thread_id s) * ucast (stride s)) mod ucast (sp_every s)"

definition phase :: "sampler \<Rightarrow> u32 \<Rightarrow> u64" where
  "phase s key_id = (keyed_phase s key_id + thread_phase s) mod ucast (sp_every s)"

definition should_sample :: "sampler \<Rightarrow> u32 \<Rightarrow> u64 \<Rightarrow> bool" where
  "should_sample s key_id occurrence =
     (if sp_every s = 0 then False
      else if sp_every s = 1 then True
      else occurrence mod ucast (sp_every s) = phase s key_id)"

section \<open>Words as numbers\<close>

lemma unat_ucast_u32 [simp]: "unat (ucast (w :: u32) :: u64) = unat w"
proof -
  have "unat w < 2 ^ 64" using unsigned_less [of w] by (rule less_trans) simp
  then show ?thesis by (simp add: unsigned_ucast_eq take_bit_nat_eq_self_iff)
qed

lemma unat_u32_lt: "unat (w :: u32) < 2 ^ 32"
  using unsigned_less [of w] by simp

lemma unat_mod_every: "unat ((x :: u64) mod ucast (w :: u32)) = unat x mod unat w"
  by (simp add: unat_mod)

text \<open>Neither the product nor the sum of the phases wraps.\<close>

lemma thread_phase_nat: "unat (thread_phase s) = (unat (sp_thread_id s) * unat (stride s)) mod unat (sp_every s)"
proof -
  have "unat (sp_thread_id s) * unat (stride s) \<le> (2 ^ 32 - 1) * (2 ^ 32 - 1)"
    using unat_u32_lt [of "sp_thread_id s"] unat_u32_lt [of "stride s"] by (intro mult_le_mono) auto
  then have "unat (sp_thread_id s) * unat (stride s) < 2 ^ 64" by simp
  then show ?thesis by (simp add: thread_phase_def unat_mod_every unat_mult_u64)
qed

lemma phase_nat:
  assumes "sp_every s \<noteq> 0"
  shows "unat (phase s k) = (unat (keyed_phase s k) + unat (thread_phase s)) mod unat (sp_every s)"
proof -
  have e: "0 < unat (sp_every s)" using assms by (simp add: word_neq_0_conv unat_gt_0)
  then have "unat (keyed_phase s k) < unat (sp_every s)" "unat (thread_phase s) < unat (sp_every s)"
    by (simp_all add: keyed_phase_def thread_phase_def unat_mod_every)
  then have "unat (keyed_phase s k) + unat (thread_phase s) < 2 ^ 64"
    using unat_u32_lt [of "sp_every s"] by simp
  then show ?thesis by (simp add: phase_def unat_mod_every unat_add_u64)
qed

lemma should_sample_nat:
  assumes "1 < unat (sp_every s)"
  shows "should_sample s k occ \<longleftrightarrow> unat occ mod unat (sp_every s) = unat (phase s k)"
proof -
  have "sp_every s \<noteq> 0" "sp_every s \<noteq> 1" using assms by auto
  then show ?thesis by (simp add: should_sample_def word_unat_eq_iff unat_mod_every)
qed

text \<open>A residue is hit exactly once in a window of consecutive numbers.\<close>

lemma window_residue:
  fixes n p a :: nat
  assumes "p < n"
  shows "\<exists>!i. i < n \<and> (a + i) mod n = p"
proof (rule ex1I)
  let ?i = "(p + (n - a mod n)) mod n"
  show "?i < n \<and> (a + ?i) mod n = p"
  proof
    have "a mod n < n" using assms by simp
    have "(a + ?i) mod n = (a mod n + (p + (n - a mod n))) mod n" by (simp add: mod_simps)
    also have "a mod n + (p + (n - a mod n)) = p + n" using \<open>a mod n < n\<close> by simp
    finally show "(a + ?i) mod n = p" using assms by simp
  qed (use assms in simp)
  fix i
  assume i: "i < n \<and> (a + i) mod n = p"
  have "?i = (a + i + (n - a mod n)) mod n" using i by (metis mod_add_left_eq)
  also have "a + i + (n - a mod n) = n * (a div n) + (i + n)"
    using mult_div_mod_eq [of n a] mod_less_divisor [of n a] assms by linarith
  finally show "i = ?i" using i by simp
qed

lemma unat_offset:
  assumes "unat (a :: u64) + n \<le> 2 ^ 64" "i < n"
  shows "unat (a + word_of_nat i) = unat a + i"
  using assms by (subst unat_add_u64) auto

lemma stride_small:
  assumes "sp_num_threads s \<noteq> 0" "sp_num_threads s \<le> sp_every s" "sp_thread_id s < sp_num_threads s"
  shows "unat (sp_thread_id s) * unat (stride s) < unat (sp_every s)" and "0 < unat (stride s)"
proof -
  let ?n = "unat (sp_num_threads s)" and ?e = "unat (sp_every s)" and ?t = "unat (sp_thread_id s)"
  have n: "0 < ?n" "?n \<le> ?e" "?t < ?n" using assms by (auto simp: word_le_nat_alt word_less_nat_alt unat_gt_0)
  have d: "unat (sp_every s div sp_num_threads s) = ?e div ?n" by (simp add: unat_div)
  have pos: "0 < ?e div ?n" using n by (simp add: div_greater_zero_iff)
  then have st: "unat (stride s) = ?e div ?n"
    using assms(1) d by (auto simp: stride_def Let_def word_unat_eq_iff)
  show "0 < unat (stride s)" using st pos by simp
  have "?t * (?e div ?n) < ?n * (?e div ?n)" using n pos by simp
  also have "\<dots> \<le> ?e" by (rule times_div_less_eq_dividend)
  finally show "?t * unat (stride s) < ?e" by (simp add: st)
qed

lemma add_mod_cancel:
  fixes x y k e :: nat
  assumes "x < e" "y < e" "(k + x) mod e = (k + y) mod e"
  shows "x = y"
proof -
  have *: "x = y" if "x \<le> y" "y < e" "(k + x) mod e = (k + y) mod e" for x y :: nat
  proof -
    have "e dvd (k + y) - (k + x)" using that by (metis mod_eq_dvd_iff_nat add_le_mono1 add.commute)
    then have "e dvd y - x" by simp
    with that show ?thesis by (metis diff_is_0_eq dvd_imp_le le_antisym less_imp_diff_less linorder_not_less neq0_conv)
  qed
  show ?thesis using assms * [of x y] * [of y x] by (metis nat_le_linear)
qed

section \<open>Properties\<close>

text \<open>No starvation and no oversampling: in any window of \<^verbatim>\<open>every\<close> consecutive occurrences of a key
  (that does not run over the 64-bit counter) exactly one is sampled, for every seed, thread and key.\<close>

lemma one_sample_per_window:
  assumes "sp_every s \<noteq> 0" and "unat a + unat (sp_every s) \<le> 2 ^ 64"
  shows "\<exists>!i. i < unat (sp_every s) \<and> should_sample s k (a + word_of_nat i)"
proof (cases "sp_every s = 1")
  case True
  then show ?thesis by (auto simp: should_sample_def)
next
  case False
  then have e: "1 < unat (sp_every s)"
    using assms(1) by (metis One_nat_def Suc_lessI unat_1 unat_gt_0 word_unat_eq_iff)
  then have "unat (phase s k) < unat (sp_every s)" using assms(1) by (simp add: phase_nat)
  from window_residue [OF this, of "unat a"] show ?thesis
    by (simp add: should_sample_nat [OF e] unat_offset [OF assms(2)] cong: conj_cong)
qed

text \<open>Threads are out of phase: with no more threads than the window is long, two threads of one run
  never sample the same occurrence of a shared key.\<close>

lemma threads_dephased:
  assumes "sp_num_threads s \<noteq> 0" "sp_num_threads s \<le> sp_every s" "1 < sp_every s"
    and "t1 < sp_num_threads s" "t2 < sp_num_threads s" "t1 \<noteq> t2"
  shows "\<not> (should_sample (s\<lparr>sp_thread_id := t1\<rparr>) k occ \<and> should_sample (s\<lparr>sp_thread_id := t2\<rparr>) k occ)"
proof
  let ?s1 = "s\<lparr>sp_thread_id := t1\<rparr>" and ?s2 = "s\<lparr>sp_thread_id := t2\<rparr>"
  assume both: "should_sample ?s1 k occ \<and> should_sample ?s2 k occ"
  have e: "1 < unat (sp_every s)" "sp_every s \<noteq> 0" using assms(3) by (auto simp: word_less_nat_alt)
  have keyed: "keyed_phase ?s1 k = keyed_phase ?s2 k" by (simp add: keyed_phase_def)
  have st: "stride ?s1 = stride ?s2" by (simp add: stride_def Let_def)
  have b1: "unat t1 * unat (stride ?s1) < unat (sp_every s)" and b2: "unat t2 * unat (stride ?s2) < unat (sp_every s)"
    using stride_small [of ?s1] stride_small [of ?s2] assms by simp_all
  have "unat (phase ?s1 k) = unat (phase ?s2 k)"
    using both e should_sample_nat [of ?s1] should_sample_nat [of ?s2] by simp
  then have "(unat (keyed_phase ?s1 k) + unat t1 * unat (stride ?s1)) mod unat (sp_every s)
      = (unat (keyed_phase ?s1 k) + unat t2 * unat (stride ?s2)) mod unat (sp_every s)"
    using e b1 b2 by (simp add: phase_nat thread_phase_nat keyed)
  then have "unat t1 * unat (stride ?s1) = unat t2 * unat (stride ?s2)" by (rule add_mod_cancel [OF b1 b2])
  moreover have "0 < unat (stride ?s1)" using stride_small(2) [of ?s1] assms by simp
  ultimately show False using assms(6) st by (simp add: word_unat_eq_iff)
qed

text \<open>The limit of that guarantee: with more threads than the window is long (four threads, one
  sample in two), threads 0 and 2 sample exactly the same occurrences of every key.\<close>

lemma crowded_threads_in_phase:
  "should_sample \<lparr>sp_seed = sd, sp_every = 2, sp_thread_id = 0, sp_num_threads = 4\<rparr> k occ
   \<longleftrightarrow> should_sample \<lparr>sp_seed = sd, sp_every = 2, sp_thread_id = 2, sp_num_threads = 4\<rparr> k occ"
  by (simp add: should_sample_def phase_def keyed_phase_def thread_phase_def stride_def)

end
