(* ===== verification/Server_Pool.thy ===== *)
theory Server_Pool
  imports Prelude "HOL-Library.Multiset"
begin

text \<open>
  The slot pool of \<^verbatim>\<open>server/s3_server.cpp\<close>: \<^verbatim>\<open>create_slot\<close>, \<^verbatim>\<open>acquire_slot\<close>, \<^verbatim>\<open>release_slot\<close> and
  the destructor's release of the pool. Every critical section of \<^verbatim>\<open>pool_mu_\<close> is one atomic function;
  \<^verbatim>\<open>acquire_slot\<close> has three of them, and between two of them any other thread may run. The step
  relation \<open>pool_step\<close> interleaves the sections of arbitrarily many request threads. The answers of the
  RDMA library (channel ids, staging buffers, registrations) are arguments.
\<close>

section \<open>Slots\<close>

record rdma_slot =
  sl_channel :: "16 word"
  sl_staging :: "nat \<times> nat"
  sl_staging_reg :: "nat \<times> nat"

text \<open>What the library answers while one slot is created: \<^const>\<open>None\<close> for the channel means that
  \<^verbatim>\<open>allocateChannelId\<close> throws, for a buffer or a registration a null pointer.\<close>

record slot_alloc =
  al_channel :: "16 word option"
  al_host :: "nat option \<times> nat option"
  al_reg :: "nat option \<times> nat option"

datatype 'a outcome = Done 'a | Threw | Aborted

definition alloc_staging :: "nat option \<Rightarrow> nat option \<Rightarrow> (nat \<times> nat) outcome" where
  "alloc_staging host reg =
     (case host of
        None \<Rightarrow> Aborted
      | Some b \<Rightarrow> (case reg of None \<Rightarrow> Aborted | Some r \<Rightarrow> Done (b, r)))"

definition create_slot :: "slot_alloc \<Rightarrow> rdma_slot outcome" where
  "create_slot a =
     (case al_channel a of
        None \<Rightarrow> Threw
      | Some ch \<Rightarrow>
          (case alloc_staging (fst (al_host a)) (fst (al_reg a)) of
             Done (b0, r0) \<Rightarrow>
               (case alloc_staging (snd (al_host a)) (snd (al_reg a)) of
                  Done (b1, r1) \<Rightarrow> Done \<lparr>sl_channel = ch, sl_staging = (b0, b1), sl_staging_reg = (r0, r1)\<rparr>
                | Threw \<Rightarrow> Threw
                | Aborted \<Rightarrow> Aborted)
           | Threw \<Rightarrow> Threw
           | Aborted \<Rightarrow> Aborted))"

section \<open>Critical sections\<close>

record pool_state =
  ps_pool :: "rdma_slot list"
  ps_total :: nat

datatype acquire_decision = Reuse rdma_slot | Grow nat | Wait

text \<open>The first section of \<^verbatim>\<open>acquire_slot\<close>; \<^verbatim>\<open>back()\<close> and \<^verbatim>\<open>pop_back()\<close> work on the end of the vector.\<close>

definition acquire_begin :: "nat \<Rightarrow> pool_state \<Rightarrow> acquire_decision \<times> pool_state" where
  "acquire_begin max_concurrency s =
     (if ps_pool s \<noteq> [] then (Reuse (last (ps_pool s)), s\<lparr>ps_pool := butlast (ps_pool s)\<rparr>)
      else if ps_total s < max_concurrency then (Grow (ps_total s), s\<lparr>ps_total := ps_total s + 1\<rparr>)
      else (Wait, s))"

text \<open>The handler of an exception that \<^verbatim>\<open>create_slot\<close> lets through.\<close>

definition create_failed :: "pool_state \<Rightarrow> pool_state" where
  "create_failed s = s\<lparr>ps_total := ps_total s - 1\<rparr>"

text \<open>Waking up: the predicate of \<^verbatim>\<open>wait\<close> is that the pool is not empty; otherwise the thread sleeps on.\<close>

definition acquire_wake :: "pool_state \<Rightarrow> (rdma_slot \<times> pool_state) option" where
  "acquire_wake s =
     (if ps_pool s \<noteq> [] then Some (last (ps_pool s), s\<lparr>ps_pool := butlast (ps_pool s)\<rparr>) else None)"

definition release_slot :: "rdma_slot \<Rightarrow> pool_state \<Rightarrow> pool_state" where
  "release_slot slot s = s\<lparr>ps_pool := ps_pool s @ [slot]\<rparr>"

text \<open>The whole of \<^verbatim>\<open>acquire_slot\<close> when no other thread intervenes; \<^const>\<open>None\<close> is a thread that waits.\<close>

definition acquire_slot :: "nat \<Rightarrow> slot_alloc \<Rightarrow> pool_state \<Rightarrow> (rdma_slot outcome \<times> pool_state) option" where
  "acquire_slot max_concurrency a s =
     (case acquire_begin max_concurrency s of
        (Reuse slot, s') \<Rightarrow> Some (Done slot, s')
      | (Grow i, s') \<Rightarrow>
          (case create_slot a of
             Done slot \<Rightarrow> Some (Done slot, s')
           | Threw \<Rightarrow> Some (Threw, create_failed s')
           | Aborted \<Rightarrow> Some (Aborted, s'))
      | (Wait, s') \<Rightarrow> map_option (\<lambda>(slot, s'). (Done slot, s')) (acquire_wake s'))"

text \<open>What the destructor gives back: both registrations of every pooled slot and its channel.\<close>

definition destroy_pool :: "pool_state \<Rightarrow> nat list \<times> 16 word list" where
  "destroy_pool s =
     (concat (map (\<lambda>sl. [fst (sl_staging_reg sl), snd (sl_staging_reg sl)]) (ps_pool s)), map sl_channel (ps_pool s))"

section \<open>Threads\<close>

datatype request_phase = Idle | Creating nat | Waiting | Holding rdma_slot

record pool_system =
  sys_pool :: pool_state
  sys_threads :: "request_phase list"

definition held_slots :: "request_phase list \<Rightarrow> rdma_slot list" where
  "held_slots ts = concat (map (\<lambda>t. case t of Holding s \<Rightarrow> [s] | _ \<Rightarrow> []) ts)"

definition all_slots :: "pool_system \<Rightarrow> rdma_slot list" where
  "all_slots y = ps_pool (sys_pool y) @ held_slots (sys_threads y)"

text \<open>
  One critical section of thread \<open>i\<close>. The library's promise on channel ids is the side condition of
  \<open>created\<close>: an id that is allocated is not the id of a slot that exists.
\<close>

inductive pool_step :: "nat \<Rightarrow> pool_system \<Rightarrow> pool_system \<Rightarrow> bool" for mx :: nat where
  reuse: "i < length ts \<Longrightarrow> ts ! i = Idle \<Longrightarrow> acquire_begin mx p = (Reuse slot, p') \<Longrightarrow>
    pool_step mx \<lparr>sys_pool = p, sys_threads = ts\<rparr> \<lparr>sys_pool = p', sys_threads = ts[i := Holding slot]\<rparr>"
| grow: "i < length ts \<Longrightarrow> ts ! i = Idle \<Longrightarrow> acquire_begin mx p = (Grow n, p') \<Longrightarrow>
    pool_step mx \<lparr>sys_pool = p, sys_threads = ts\<rparr> \<lparr>sys_pool = p', sys_threads = ts[i := Creating n]\<rparr>"
| block: "i < length ts \<Longrightarrow> ts ! i = Idle \<Longrightarrow> acquire_begin mx p = (Wait, p') \<Longrightarrow>
    pool_step mx \<lparr>sys_pool = p, sys_threads = ts\<rparr> \<lparr>sys_pool = p', sys_threads = ts[i := Waiting]\<rparr>"
| created: "i < length ts \<Longrightarrow> ts ! i = Creating n \<Longrightarrow> create_slot a = Done slot \<Longrightarrow>
    sl_channel slot \<notin> sl_channel ` set (all_slots \<lparr>sys_pool = p, sys_threads = ts\<rparr>) \<Longrightarrow>
    pool_step mx \<lparr>sys_pool = p, sys_threads = ts\<rparr> \<lparr>sys_pool = p, sys_threads = ts[i := Holding slot]\<rparr>"
| threw: "i < length ts \<Longrightarrow> ts ! i = Creating n \<Longrightarrow> create_slot a = Threw \<Longrightarrow>
    pool_step mx \<lparr>sys_pool = p, sys_threads = ts\<rparr> \<lparr>sys_pool = create_failed p, sys_threads = ts[i := Idle]\<rparr>"
| wake: "i < length ts \<Longrightarrow> ts ! i = Waiting \<Longrightarrow> acquire_wake p = Some (slot, p') \<Longrightarrow>
    pool_step mx \<lparr>sys_pool = p, sys_threads = ts\<rparr> \<lparr>sys_pool = p', sys_threads = ts[i := Holding slot]\<rparr>"
| release: "i < length ts \<Longrightarrow> ts ! i = Holding slot \<Longrightarrow>
    pool_step mx \<lparr>sys_pool = p, sys_threads = ts\<rparr> \<lparr>sys_pool = release_slot slot p, sys_threads = ts[i := Idle]\<rparr>"

inductive_cases pool_stepE: "pool_step mx y z"

definition pool_init :: "pool_system \<Rightarrow> bool" where
  "pool_init y \<longleftrightarrow> sys_pool y = \<lparr>ps_pool = [], ps_total = 0\<rparr> \<and> list_all (\<lambda>t. t = Idle) (sys_threads y)"

definition is_creating :: "request_phase \<Rightarrow> bool" where
  "is_creating t \<longleftrightarrow> (case t of Creating _ \<Rightarrow> True | _ \<Rightarrow> False)"

text \<open>
  The invariant: the counter equals the slots that exist plus those being created, it never exceeds
  the limit, and no two slots, free or held, share a channel.
\<close>

definition pool_inv :: "nat \<Rightarrow> pool_system \<Rightarrow> bool" where
  "pool_inv mx y \<longleftrightarrow>
     ps_total (sys_pool y) = length (all_slots y) + length (filter is_creating (sys_threads y))
     \<and> ps_total (sys_pool y) \<le> mx
     \<and> distinct (map sl_channel (all_slots y))"

section \<open>Counting\<close>

lemma held_slots_split:
  "i < length ts \<Longrightarrow> held_slots (ts[i := v]) = held_slots (take i ts) @ held_slots [v] @ held_slots (drop (Suc i) ts)"
  by (simp add: held_slots_def upd_conv_take_nth_drop)

lemma held_slots_at:
  "i < length ts \<Longrightarrow> held_slots ts = held_slots (take i ts) @ held_slots [ts ! i] @ held_slots (drop (Suc i) ts)"
  using held_slots_split [of i ts "ts ! i"] by simp

lemma held_slots_one [simp]:
  "held_slots [Idle] = []" "held_slots [Waiting] = []" "held_slots [Creating n] = []" "held_slots [Holding s] = [s]"
  by (simp_all add: held_slots_def)

lemma is_creating_simps [simp]:
  "\<not> is_creating Idle" "\<not> is_creating Waiting" "is_creating (Creating n)" "\<not> is_creating (Holding s)"
  by (simp_all add: is_creating_def)

lemma pop_back: "xs \<noteq> [] \<Longrightarrow> xs = butlast xs @ [last xs]"
  by simp

section \<open>The invariant is inductive\<close>

text \<open>A step that only moves slots around: the slots and the counter are as before.\<close>

lemma pool_inv_move:
  assumes "pool_inv mx y" "mset (all_slots z) = mset (all_slots y)"
    "ps_total (sys_pool z) + length (filter is_creating (sys_threads y))
       = ps_total (sys_pool y) + length (filter is_creating (sys_threads z))"
    "ps_total (sys_pool z) \<le> mx"
  shows "pool_inv mx z"
proof -
  have "mset (map sl_channel (all_slots z)) = mset (map sl_channel (all_slots y))" using assms(2) by simp
  then have "distinct (map sl_channel (all_slots z))"
    using assms(1) mset_eq_imp_distinct_iff unfolding pool_inv_def by blast
  moreover have "length (all_slots z) = length (all_slots y)" using assms(2) by (rule mset_eq_length)
  ultimately show ?thesis using assms(1,3,4) unfolding pool_inv_def by linarith
qed

lemma all_slots_take:
  assumes "i < length ts" "held_slots [ts ! i] = []" "ps_pool p \<noteq> []" "slot = last (ps_pool p)"
    "ps_pool p' = butlast (ps_pool p)"
  shows "mset (all_slots \<lparr>sys_pool = p', sys_threads = ts[i := Holding slot]\<rparr>)
       = mset (all_slots \<lparr>sys_pool = p, sys_threads = ts\<rparr>)"
proof -
  have "mset (ps_pool p) = mset (ps_pool p') + {#slot#}"
    using assms(3-5) by (metis pop_back mset_append mset_single_iff_right)
  then show ?thesis
    using assms(1,2) held_slots_at [of i ts] by (simp add: all_slots_def held_slots_split)
qed

lemma pool_inv_take:
  assumes "pool_inv mx \<lparr>sys_pool = p, sys_threads = ts\<rparr>" "i < length ts" "ts ! i = Idle \<or> ts ! i = Waiting"
    "ps_pool p \<noteq> []" "slot = last (ps_pool p)" "p' = p\<lparr>ps_pool := butlast (ps_pool p)\<rparr>"
  shows "pool_inv mx \<lparr>sys_pool = p', sys_threads = ts[i := Holding slot]\<rparr>"
  using assms filter_update_count [of i ts is_creating "Holding slot"]
  by (intro pool_inv_move [OF assms(1)] all_slots_take) (auto simp: pool_inv_def)

lemma pool_inv_created:
  assumes inv: "pool_inv mx \<lparr>sys_pool = p, sys_threads = ts\<rparr>" and i: "i < length ts" "ts ! i = Creating n"
    and fresh: "sl_channel slot \<notin> sl_channel ` set (all_slots \<lparr>sys_pool = p, sys_threads = ts\<rparr>)"
  shows "pool_inv mx \<lparr>sys_pool = p, sys_threads = ts[i := Holding slot]\<rparr>"
proof -
  let ?y = "\<lparr>sys_pool = p, sys_threads = ts\<rparr>" and ?z = "\<lparr>sys_pool = p, sys_threads = ts[i := Holding slot]\<rparr>"
  have m: "mset (all_slots ?z) = add_mset slot (mset (all_slots ?y))"
    using i held_slots_at [of i ts] by (simp add: all_slots_def held_slots_split)
  then have "mset (map sl_channel (all_slots ?z)) = mset (sl_channel slot # map sl_channel (all_slots ?y))" by simp
  then have "distinct (map sl_channel (all_slots ?z)) = distinct (sl_channel slot # map sl_channel (all_slots ?y))"
    by (rule mset_eq_imp_distinct_iff)
  moreover have "length (all_slots ?z) = Suc (length (all_slots ?y))" using arg_cong [OF m, of size] by simp
  ultimately show ?thesis
    using inv fresh i filter_update_count [of i ts is_creating "Holding slot"] by (simp add: pool_inv_def)
qed

lemma pool_inv_step:
  assumes inv: "pool_inv mx y" and "pool_step mx y z"
  shows "pool_inv mx z"
  using assms(2)
proof cases
  case (reuse i ts p slot p')
  with inv show ?thesis by (auto intro!: pool_inv_take simp: acquire_begin_def split: if_splits)
next
  case (grow i ts p n p')
  then have "ps_total p < mx" "ps_pool p' = ps_pool p" "ps_total p' = ps_total p + 1"
    by (auto simp: acquire_begin_def split: if_splits)
  with grow show ?thesis
    using filter_update_count [of i ts is_creating "Creating n"] held_slots_at [of i ts]
    by (intro pool_inv_move [OF inv]) (auto simp: all_slots_def held_slots_split)
next
  case (block i ts p p')
  then have "p' = p" by (auto simp: acquire_begin_def split: if_splits)
  with inv block show ?thesis
    using filter_update_count [of i ts is_creating Waiting] held_slots_at [of i ts]
    by (intro pool_inv_move [OF inv]) (auto simp: all_slots_def held_slots_split pool_inv_def)
next
  case created
  with inv show ?thesis by (auto intro: pool_inv_created)
next
  case (threw i ts n a p)
  then have "filter is_creating ts \<noteq> []" by (metis filter_empty_conv is_creating_simps(3) nth_mem)
  then have "0 < ps_total p" using inv threw by (simp add: pool_inv_def)
  with inv threw show ?thesis
    using filter_update_count [of i ts is_creating Idle] held_slots_at [of i ts]
    by (intro pool_inv_move [OF inv]) (auto simp: all_slots_def held_slots_split create_failed_def pool_inv_def)
next
  case wake
  with inv show ?thesis by (auto intro!: pool_inv_take simp: acquire_wake_def split: if_splits)
next
  case (release i ts slot p)
  with inv show ?thesis
    using filter_update_count [of i ts is_creating Idle] held_slots_at [of i ts]
    by (intro pool_inv_move [OF inv]) (auto simp: all_slots_def held_slots_split release_slot_def pool_inv_def)
qed

lemma pool_inv_init: "pool_init y \<Longrightarrow> pool_inv mx y"
proof -
  assume y: "pool_init y"
  then have "\<forall>t \<in> set (sys_threads y). t = Idle" by (simp add: pool_init_def list_all_iff)
  then have "held_slots (sys_threads y) = []" "filter is_creating (sys_threads y) = []"
    by (auto simp: held_slots_def filter_empty_conv)
  with y show ?thesis by (simp add: pool_init_def pool_inv_def all_slots_def)
qed

interpretation pool: safe_system pool_init "pool_step mx" "pool_inv mx"
  by unfold_locales (auto intro: pool_inv_init pool_inv_step)

section \<open>Waiting threads\<close>

text \<open>Runs in which no slot creation failed: the counter never decreases.\<close>

definition steady_step :: "nat \<Rightarrow> pool_system \<Rightarrow> pool_system \<Rightarrow> bool" where
  "steady_step mx y z \<longleftrightarrow> pool_step mx y z \<and> ps_total (sys_pool y) \<le> ps_total (sys_pool z)"

definition wait_inv :: "nat \<Rightarrow> pool_system \<Rightarrow> bool" where
  "wait_inv mx y \<longleftrightarrow> pool_inv mx y \<and> (Waiting \<in> set (sys_threads y) \<longrightarrow> ps_total (sys_pool y) = mx)"

lemma waiting_update: "Waiting \<in> set (ts[i := v]) \<Longrightarrow> v = Waiting \<or> Waiting \<in> set ts"
  using set_update_subset_insert by fastforce

lemma pool_step_total:
  assumes "pool_step mx y z" "Waiting \<in> set (sys_threads z)"
  shows "Waiting \<in> set (sys_threads y) \<or> mx \<le> ps_total (sys_pool z)"
  using assms
proof cases
  case (block i ts p p')
  then show ?thesis by (auto simp: acquire_begin_def split: if_splits)
qed (auto dest!: waiting_update)

lemma wait_inv_step: "wait_inv mx y \<Longrightarrow> steady_step mx y z \<Longrightarrow> wait_inv mx z"
  using pool_inv_step [of mx y z] pool_step_total [of mx y z]
  unfolding wait_inv_def steady_step_def pool_inv_def by auto

lemma wait_inv_init: "pool_init y \<Longrightarrow> wait_inv mx y"
  using pool_inv_init by (auto simp: wait_inv_def pool_init_def list_all_iff)

interpretation steady: safe_system pool_init "steady_step mx" "wait_inv mx"
  by unfold_locales (auto intro: wait_inv_init wait_inv_step)

section \<open>Properties\<close>


text \<open>A run of two threads over a pool of one slot.\<close>

abbreviation (input) demo_alloc :: slot_alloc where
  "demo_alloc \<equiv> \<lparr>al_channel = Some 3, al_host = (Some 10, Some 11), al_reg = (Some 20, Some 21)\<rparr>"

abbreviation (input) demo_slot :: rdma_slot where
  "demo_slot \<equiv> \<lparr>sl_channel = 3, sl_staging = (10, 11), sl_staging_reg = (20, 21)\<rparr>"

lemma demo_created: "create_slot demo_alloc = Done demo_slot"
  by (simp add: create_slot_def alloc_staging_def)

lemma demo_grow:
  "pool_init \<lparr>sys_pool = \<lparr>ps_pool = [], ps_total = 0\<rparr>, sys_threads = [Idle, Idle]\<rparr>"
  "steady_step 1 \<lparr>sys_pool = \<lparr>ps_pool = [], ps_total = 0\<rparr>, sys_threads = [Idle, Idle]\<rparr>
     \<lparr>sys_pool = \<lparr>ps_pool = [], ps_total = 1\<rparr>, sys_threads = [Creating 0, Idle]\<rparr>"
  "steady_step 1 \<lparr>sys_pool = \<lparr>ps_pool = [], ps_total = 1\<rparr>, sys_threads = [Creating 0, Idle]\<rparr>
     \<lparr>sys_pool = \<lparr>ps_pool = [], ps_total = 1\<rparr>, sys_threads = [Creating 0, Waiting]\<rparr>"
proof -
  show "pool_init \<lparr>sys_pool = \<lparr>ps_pool = [], ps_total = 0\<rparr>, sys_threads = [Idle, Idle]\<rparr>"
    by (simp add: pool_init_def)
  show "steady_step 1 \<lparr>sys_pool = \<lparr>ps_pool = [], ps_total = 0\<rparr>, sys_threads = [Idle, Idle]\<rparr>
     \<lparr>sys_pool = \<lparr>ps_pool = [], ps_total = 1\<rparr>, sys_threads = [Creating 0, Idle]\<rparr>"
    using pool_step.grow [of 0 "[Idle, Idle]" 1 "\<lparr>ps_pool = [], ps_total = 0\<rparr>" 0 "\<lparr>ps_pool = [], ps_total = 1\<rparr>"]
    by (simp add: acquire_begin_def steady_step_def)
  show "steady_step 1 \<lparr>sys_pool = \<lparr>ps_pool = [], ps_total = 1\<rparr>, sys_threads = [Creating 0, Idle]\<rparr>
     \<lparr>sys_pool = \<lparr>ps_pool = [], ps_total = 1\<rparr>, sys_threads = [Creating 0, Waiting]\<rparr>"
    using pool_step.block [of 1 "[Creating 0, Idle]" 1 "\<lparr>ps_pool = [], ps_total = 1\<rparr>" "\<lparr>ps_pool = [], ps_total = 1\<rparr>"]
    by (simp add: acquire_begin_def steady_step_def)
qed

lemma demo_waiting:
  "reach pool_init (steady_step 1) \<lparr>sys_pool = \<lparr>ps_pool = [], ps_total = 1\<rparr>, sys_threads = [Creating 0, Waiting]\<rparr>"
proof -
  have "reach pool_init (steady_step 1) \<lparr>sys_pool = \<lparr>ps_pool = [], ps_total = 0\<rparr>, sys_threads = [Idle, Idle]\<rparr>"
    using demo_grow(1) by (rule reach_init)
  then show ?thesis using demo_grow(2,3) by (blast intro: reach_step)
qed

lemma steady_reach: "reach pool_init (steady_step mx) y \<Longrightarrow> reach pool_init (pool_step mx) y"
  by (induction rule: reach.induct) (auto intro: reach.intros simp: steady_step_def)

lemma demo_held:
  "reach pool_init (pool_step 1) \<lparr>sys_pool = \<lparr>ps_pool = [], ps_total = 1\<rparr>, sys_threads = [Holding demo_slot, Waiting]\<rparr>"
  using reach_step [OF steady_reach [OF demo_waiting],
      of "\<lparr>sys_pool = \<lparr>ps_pool = [], ps_total = 1\<rparr>, sys_threads = [Holding demo_slot, Waiting]\<rparr>"]
    pool_step.created [of 0 "[Creating 0, Waiting]" 0 demo_alloc demo_slot "\<lparr>ps_pool = [], ps_total = 1\<rparr>" 1]
  by (simp add: demo_created all_slots_def held_slots_def)


text \<open>Waiting is justified as long as no slot creation fails: while a thread waits, all configured
  slots exist or are being built, so (for a positive limit) a slot is free, held or coming.\<close>

lemma waiting_backed:
  assumes "reach pool_init (steady_step mx) y" and "Waiting \<in> set (sys_threads y)"
  shows "length (ps_pool (sys_pool y)) + length (held_slots (sys_threads y))
           + length (filter is_creating (sys_threads y)) = mx"
  using steady.reach_inv [OF assms(1)] assms(2) by (simp add: wait_inv_def pool_inv_def all_slots_def)

text \<open>A failed creation can strand a waiter. With one slot allowed, a thread that went to sleep while
  another one was creating the slot stays asleep after that creation throws: the counter is back at
  zero, nobody holds or builds a slot, a fresh request would be allowed to grow the pool, but the
  predicate of the sleeping thread only asks for a free slot, so its wake-up does nothing.\<close>

lemma waiter_stranded:
  "\<exists>y. reach pool_init (pool_step 1) y \<and> sys_threads y = [Idle, Waiting]
     \<and> acquire_wake (sys_pool y) = None \<and> fst (acquire_begin 1 (sys_pool y)) = Grow 0"
proof -
  let ?y = "\<lparr>sys_pool = \<lparr>ps_pool = [], ps_total = 0\<rparr>, sys_threads = [Idle, Waiting]\<rparr>"
  have "create_slot \<lparr>al_channel = None, al_host = (None, None), al_reg = (None, None)\<rparr> = Threw"
    by (simp add: create_slot_def)
  then have "pool_step 1 \<lparr>sys_pool = \<lparr>ps_pool = [], ps_total = 1\<rparr>, sys_threads = [Creating 0, Waiting]\<rparr> ?y"
    using pool_step.threw [of 0 "[Creating 0, Waiting]" 0 _ 1 "\<lparr>ps_pool = [], ps_total = 1\<rparr>"]
    by (simp add: create_failed_def)
  then have "reach pool_init (pool_step 1) ?y" by (rule reach_step [OF steady_reach [OF demo_waiting]])
  then show ?thesis by (intro exI [of _ ?y]) (simp add: acquire_wake_def acquire_begin_def)
qed

end
