(* ===== verification/Server_Io.thy ===== *)
theory Server_Io
  imports Prelude
begin

unbundle bit_operations_syntax

text \<open>
  File access of \<^verbatim>\<open>server/s3_server.cpp\<close>: \<^verbatim>\<open>align_down\<close>/\<^verbatim>\<open>align_up\<close>, \<^verbatim>\<open>plan_chunk\<close>, \<^verbatim>\<open>pread_full\<close> and
  the descriptor cache \<^verbatim>\<open>get_fd\<close>. Offsets are 64-bit words. A file is its bytes; what each \<^verbatim>\<open>pread\<close>
  call does is a script (interrupted, failed, or at most so many bytes), and once the script is
  exhausted every call reads all it is asked for, so that the retry loop ends.
\<close>

section \<open>Chunks\<close>

definition kAlign :: u64 where "kAlign = 4096"

definition align_down :: "u64 \<Rightarrow> u64 \<Rightarrow> u64" where
  "align_down v a = v AND NOT (a - 1)"

definition align_up :: "u64 \<Rightarrow> u64 \<Rightarrow> u64" where
  "align_up v a = (v + a - 1) AND NOT (a - 1)"

record chunk_io =
  ci_read_off :: u64
  ci_read_len :: u64
  ci_local_off :: u64
  ci_piece :: u64

definition plan_chunk :: "u64 \<Rightarrow> u64 \<Rightarrow> u64 \<Rightarrow> bool \<Rightarrow> chunk_io" where
  "plan_chunk file_off remaining chunk direct_io =
     (let piece = (if chunk < remaining then chunk else remaining) in
      if \<not> direct_io then \<lparr>ci_read_off = file_off, ci_read_len = piece, ci_local_off = 0, ci_piece = piece\<rparr>
      else
        let read_off = align_down file_off kAlign;
            local_off = file_off - read_off;
            read_len = align_up (piece + local_off) kAlign
        in \<lparr>ci_read_off = read_off, ci_read_len = (if chunk < read_len then chunk else read_len),
            ci_local_off = local_off, ci_piece = piece\<rparr>)"

section \<open>Reading\<close>

datatype pread_event = Pread_interrupted | Pread_failed | Pread_upto nat

text \<open>The bytes one successful \<^verbatim>\<open>pread\<close> returns: at most \<open>lim\<close>, at most \<open>cnt\<close>, and not past the end.\<close>

definition pread_bytes :: "string \<Rightarrow> nat \<Rightarrow> nat \<Rightarrow> nat \<Rightarrow> string" where
  "pread_bytes file lim cnt off = take (min lim cnt) (drop off file)"

text \<open>Result (\<^const>\<open>None\<close> is -1), buffer and the rest of the script.\<close>

function pread_full :: "string \<Rightarrow> pread_event list \<Rightarrow> string \<Rightarrow> nat \<Rightarrow> nat \<Rightarrow> nat \<Rightarrow>
    nat option \<times> string \<times> pread_event list" where
  "pread_full file evs buf got cnt off =
     (if got < cnt then
        (case evs of
           Pread_interrupted # evs' \<Rightarrow> pread_full file evs' buf got cnt off
         | Pread_failed # evs' \<Rightarrow> (None, buf, evs')
         | Pread_upto n # evs' \<Rightarrow>
             (let bytes = pread_bytes file (Suc n) (cnt - got) (off + got) in
              if bytes = [] then (Some got, buf, evs')
              else pread_full file evs' (poke buf got bytes) (got + length bytes) cnt off)
         | [] \<Rightarrow>
             (let bytes = pread_bytes file (cnt - got) (cnt - got) (off + got) in
              if bytes = [] then (Some got, buf, [])
              else pread_full file [] (poke buf got bytes) (got + length bytes) cnt off))
      else (Some got, buf, evs))"
  by pat_completeness auto
termination
  by (relation "measures [\<lambda>(file, evs, buf, got, cnt, off). length evs,
                          \<lambda>(file, evs, buf, got, cnt, off). cnt - got]")
    (auto simp: pread_bytes_def)

declare pread_full.simps [simp del]

section \<open>Descriptor cache\<close>

record fd_entry =
  fe_fd :: nat
  fe_size :: u64

type_synonym fd_cache = "string \<rightharpoonup> fd_entry"

text \<open>The shared-lock section: a hit, or nothing.\<close>

definition get_fd_shared :: "fd_cache \<Rightarrow> string \<Rightarrow> fd_entry option" where
  "get_fd_shared cache path = cache path"

text \<open>The exclusive section: look again, then open, stat and insert. \<open>opened\<close> and \<open>sized\<close> are what
  \<^verbatim>\<open>open\<close> and \<^verbatim>\<open>fstat\<close> return; the third component is the list of descriptors closed on the way.\<close>

definition get_fd_exclusive ::
  "nat option \<Rightarrow> u64 option \<Rightarrow> fd_cache \<Rightarrow> string \<Rightarrow> fd_entry option \<times> fd_cache \<times> nat list" where
  "get_fd_exclusive opened sized cache path =
     (case cache path of
        Some e \<Rightarrow> (Some e, cache, [])
      | None \<Rightarrow>
          (case opened of
             None \<Rightarrow> (None, cache, [])
           | Some fd \<Rightarrow>
               (case sized of
                  None \<Rightarrow> (None, cache, [fd])
                | Some sz \<Rightarrow>
                    let e = \<lparr>fe_fd = fd, fe_size = sz\<rparr> in (Some e, cache(path \<mapsto> e), []))))"

definition get_fd :: "nat option \<Rightarrow> u64 option \<Rightarrow> fd_cache \<Rightarrow> string \<Rightarrow> fd_entry option \<times> fd_cache \<times> nat list" where
  "get_fd opened sized cache path =
     (case get_fd_shared cache path of
        Some e \<Rightarrow> (Some e, cache, [])
      | None \<Rightarrow> get_fd_exclusive opened sized cache path)"

section \<open>Alignment\<close>

lemma align_mask: "(4096 - 1 :: u64) = mask 12"
  by (simp add: mask_eq_exp_minus_1)

lemma and_not_mask_nat: "unat ((v :: u64) AND NOT (mask 12)) = 4096 * (unat v div 4096)"
proof -
  have "v AND NOT (mask 12) = push_bit 12 (drop_bit 12 v)"
    by (rule bit_eqI) (auto simp: bit_simps)
  moreover have "unat (drop_bit 12 v) = unat v div 4096" by (simp add: drop_bit_eq_div unat_div)
  ultimately have "v AND NOT (mask 12) = 4096 * drop_bit 12 v" by (simp add: push_bit_eq_mult)
  moreover have "unat (4096 * drop_bit 12 v) = 4096 * (unat v div 4096)"
    using \<open>unat (drop_bit 12 v) = unat v div 4096\<close> unat_u64_lt [of v]
    by (subst unat_mult_u64) (auto intro: le_less_trans [OF times_div_less_eq_dividend])
  ultimately show ?thesis by simp
qed

lemma align_down_nat: "unat (align_down v kAlign) = 4096 * (unat v div 4096)"
  by (simp only: align_down_def kAlign_def align_mask and_not_mask_nat)

lemma align_up_nat:
  assumes "unat v + 4095 < 2 ^ 64"
  shows "unat (align_up v kAlign) = 4096 * ((unat v + 4095) div 4096)"
proof -
  have "v + kAlign - 1 = v + 4095" by (simp add: kAlign_def algebra_simps)
  moreover have "unat (v + 4095) = unat v + 4095" using assms by (subst unat_add_u64) simp_all
  ultimately show ?thesis by (simp only: align_up_def kAlign_def align_mask and_not_mask_nat)
qed

section \<open>Chunk plans\<close>

lemma plan_piece: "unat (ci_piece (plan_chunk fo rem chunk d)) = min (unat rem) (unat chunk)"
  by (auto simp: plan_chunk_def Let_def word_less_nat_alt)

lemma plan_read_len: "unat (ci_read_len (plan_chunk fo rem chunk d)) \<le> unat chunk"
  by (auto simp: plan_chunk_def Let_def word_less_nat_alt)

lemma align_down_le: "align_down v kAlign \<le> v"
  by (simp add: word_le_nat_alt align_down_nat)

lemma plan_offsets:
  "unat (ci_read_off (plan_chunk fo rem chunk d)) + unat (ci_local_off (plan_chunk fo rem chunk d)) = unat fo"
  by (auto simp: plan_chunk_def Let_def unat_sub_u64 [OF align_down_le] align_down_nat)

lemma plan_local_off: "unat (ci_local_off (plan_chunk fo rem chunk d)) = (if d then unat fo mod 4096 else 0)"
  by (auto simp: plan_chunk_def Let_def unat_sub_u64 [OF align_down_le] align_down_nat minus_mult_div_eq_mod)

text \<open>The read covers the piece exactly when it fits behind the alignment gap.\<close>

lemma plan_covers:
  assumes "unat chunk + 8192 \<le> 2 ^ 64"
    and c_def: "c = plan_chunk fo rem chunk d"
  shows "unat (ci_local_off c) + unat (ci_piece c) \<le> unat (ci_read_len c)
     \<longleftrightarrow> unat (ci_local_off c) + unat (ci_piece c) \<le> unat chunk"
proof (cases d)
  case False
  then show ?thesis by (auto simp: c_def plan_chunk_def Let_def word_less_nat_alt)
next
  case True
  define piece lo where "piece = (if chunk < rem then chunk else rem)" and "lo = fo - align_down fo kAlign"
  have lo: "unat lo < 4096"
    using plan_local_off [of fo rem chunk True] by (simp add: plan_chunk_def Let_def lo_def)
  have pc: "unat piece \<le> unat chunk" by (auto simp: word_less_nat_alt piece_def)
  then have sum: "unat (piece + lo) = unat piece + unat lo" using lo assms(1) by (intro unat_add_u64) linarith
  have up: "unat (align_up (piece + lo) kAlign) = 4096 * ((unat piece + unat lo + 4095) div 4096)"
    using lo pc assms(1) sum by (subst align_up_nat) simp_all
  have "n \<le> 4096 * ((n + 4095) div 4096)" for n :: nat by linarith
  from this [of "unat piece + unat lo"] have fits: "unat lo + unat piece \<le> unat (align_up (piece + lo) kAlign)"
    unfolding up by linarith
  have "ci_local_off c = lo" "ci_piece c = piece"
    "unat (ci_read_len c) = min (unat chunk) (unat (align_up (piece + lo) kAlign))"
    using True by (simp_all add: c_def plan_chunk_def Let_def piece_def lo_def word_less_nat_alt min_def)
  with fits show ?thesis by simp
qed

section \<open>Full reads\<close>

lemma poke_take:
  "take got buf = take got (drop off file) \<Longrightarrow> got \<le> length (drop off file) \<Longrightarrow> got + length bytes \<le> length buf \<Longrightarrow>
   bytes = take k (drop (off + got) file) \<Longrightarrow>
   take (got + length bytes) (poke buf got bytes) = take (got + length bytes) (drop off file)"
  by (simp add: poke_def take_add add.commute)

definition buf_holds :: "string \<Rightarrow> nat \<Rightarrow> string \<Rightarrow> nat \<Rightarrow> bool" where
  "buf_holds file off buf n \<longleftrightarrow> n \<le> length file - off \<and> take n buf = take n (drop off file)"

lemma buf_holds_poke:
  assumes "buf_holds file off buf got" "got < cnt" "cnt \<le> length buf"
    "bytes = pread_bytes file lim (cnt - got) (off + got)"
  shows "buf_holds file off (poke buf got bytes) (got + length bytes)" and "got + length bytes \<le> cnt"
    and "length (poke buf got bytes) = length buf"
proof -
  have b: "bytes = take (min lim (cnt - got)) (drop (off + got) file)" using assms(4) by (simp add: pread_bytes_def)
  show le: "got + length bytes \<le> cnt" using assms(2) by (simp add: b)
  then have "got + length bytes \<le> length buf" using assms(3) by simp
  then show "length (poke buf got bytes) = length buf" by (rule poke_length)
  show "buf_holds file off (poke buf got bytes) (got + length bytes)"
    unfolding buf_holds_def
  proof
    have "length bytes \<le> length file - (off + got)" by (simp add: b)
    with assms(1) show "got + length bytes \<le> length file - off" unfolding buf_holds_def by linarith
    show "take (got + length bytes) (poke buf got bytes) = take (got + length bytes) (drop off file)"
      using assms(1) \<open>got + length bytes \<le> length buf\<close> by (intro poke_take [OF _ _ _ b]) (auto simp: buf_holds_def)
  qed
qed

lemma pread_full_event:
  "got < cnt \<Longrightarrow> pread_full file (Pread_interrupted # es) buf got cnt off = pread_full file es buf got cnt off"
  "got < cnt \<Longrightarrow> pread_full file (Pread_failed # es) buf got cnt off = (None, buf, es)"
  "got < cnt \<Longrightarrow> pread_full file (Pread_upto n # es) buf got cnt off =
     (let bytes = pread_bytes file (Suc n) (cnt - got) (off + got) in
      if bytes = [] then (Some got, buf, es)
      else pread_full file es (poke buf got bytes) (got + length bytes) cnt off)"
  by (subst pread_full.simps, simp)+

lemma pread_full_reads:
  "pread_full file evs buf got cnt off = (res, buf', evs') \<Longrightarrow> buf_holds file off buf got \<Longrightarrow> got \<le> cnt \<Longrightarrow>
   cnt \<le> length buf \<Longrightarrow>
   length buf' = length buf
   \<and> (case res of None \<Rightarrow> Pread_failed \<in> set evs
      | Some n \<Rightarrow> n = min cnt (length file - off) \<and> buf_holds file off buf' n)"
proof (induction "file" evs buf got cnt off rule: pread_full.induct)
  case (1 "file" evs buf got cnt off)
  show ?case
  proof (cases "got < cnt")
    case False
    with 1 show ?thesis by (auto simp: pread_full.simps [of "file" evs] buf_holds_def)
  next
    case go: True
    have stop: "got = min cnt (length file - off)" if "pread_bytes file (Suc k) (cnt - got) (off + got) = []" for k
      using that go "1.prems"(2) by (auto simp: pread_bytes_def buf_holds_def)
    note more_read = buf_holds_poke [OF "1.prems"(2) go "1.prems"(4) refl]
    show ?thesis
    proof (cases evs)
      case Nil
      obtain k where k: "cnt - got = Suc k" using go by (cases "cnt - got") auto
      let ?b = "pread_bytes file (cnt - got) (cnt - got) (off + got)"
      have "pread_full file [] buf got cnt off = (if ?b = [] then (Some got, buf, [])
          else pread_full file [] (poke buf got ?b) (got + length ?b) cnt off)"
        using go by (subst pread_full.simps) (simp add: Let_def)
      with "1.IH"(1) [OF go Nil refl] "1.prems" Nil stop [of k, folded k] more_read [of "cnt - got"] show ?thesis
        by (simp split: if_splits) auto
    next
      case (Cons e es)
      show ?thesis
      proof (cases e)
        case Pread_interrupted
        with "1.IH"(2) [OF go Cons] "1.prems" go Cons show ?thesis
          by (cases res) (simp_all add: pread_full_event)
      next
        case Pread_failed
        with "1.prems" go Cons show ?thesis by (auto simp: pread_full_event)
      next
        case (Pread_upto n)
        with "1.IH"(3) [OF go Cons _ refl] "1.prems" go Cons stop [of n] more_read [of "Suc n"] show ?thesis
          by (cases res) (auto simp: pread_full_event Let_def split: if_splits)
      qed
    qed
  qed
qed

lemma pread_full_script: "pread_full file evs buf got cnt off = (res, buf', evs') \<Longrightarrow> set evs' \<subseteq> set evs"
proof (induction "file" evs buf got cnt off rule: pread_full.induct)
  case (1 "file" evs buf got cnt off)
  show ?case
  proof (cases "got < cnt")
    case False
    with "1.prems" show ?thesis by (simp add: pread_full.simps [of "file" evs])
  next
    case go: True
    show ?thesis
    proof (cases evs)
      case Nil
      let ?b = "pread_bytes file (cnt - got) (cnt - got) (off + got)"
      have "pread_full file [] buf got cnt off = (if ?b = [] then (Some got, buf, [])
          else pread_full file [] (poke buf got ?b) (got + length ?b) cnt off)"
        using go by (subst pread_full.simps) (simp add: Let_def)
      with "1.IH"(1) [OF go Nil refl] "1.prems" Nil show ?thesis by (auto split: if_splits)
    next
      case (Cons e es)
      with "1.IH"(2,3) [OF go Cons] "1.prems" go show ?thesis
        by (cases e) (auto simp: pread_full_event Let_def split: if_splits)
    qed
  qed
qed

section \<open>Interleaved cache accesses\<close>

text \<open>
  The cache, the descriptors the process has open for it, and the paths whose threads missed under the
  shared lock and have not entered the exclusive section yet. The operating system's promise is a side
  condition: a descriptor that \<^verbatim>\<open>open\<close> returns is not open already.
\<close>

record fd_system =
  fy_cache :: fd_cache
  fy_open :: "nat list"
  fy_pending :: "string list"

definition opened_now :: "nat option \<Rightarrow> nat list \<Rightarrow> nat list" where
  "opened_now opened closed = (case opened of None \<Rightarrow> [] | Some fd \<Rightarrow> if fd \<in> set closed then [] else [fd])"

inductive fd_step :: "fd_system \<Rightarrow> fd_system \<Rightarrow> bool" where
  hit: "get_fd_shared (fy_cache y) path = Some e \<Longrightarrow> fd_step y y"
| miss: "get_fd_shared (fy_cache y) path = None \<Longrightarrow> fd_step y (y\<lparr>fy_pending := path # fy_pending y\<rparr>)"
| again: "path \<in> set (fy_pending y) \<Longrightarrow> fy_cache y path = Some e \<Longrightarrow>
    get_fd_exclusive opened sized (fy_cache y) path = (res, cache', closed) \<Longrightarrow>
    fd_step y (y\<lparr>fy_cache := cache', fy_pending := remove1 path (fy_pending y)\<rparr>)"
| opens: "path \<in> set (fy_pending y) \<Longrightarrow> fy_cache y path = None \<Longrightarrow>
    (\<forall>fd. opened = Some fd \<longrightarrow> fd \<notin> set (fy_open y)) \<Longrightarrow>
    get_fd_exclusive opened sized (fy_cache y) path = (res, cache', closed) \<Longrightarrow>
    fd_step y (y\<lparr>fy_cache := cache', fy_open := opened_now opened closed @ fy_open y,
                 fy_pending := remove1 path (fy_pending y)\<rparr>)"

inductive_cases fd_stepE: "fd_step y z"

definition fd_init :: "fd_system \<Rightarrow> bool" where
  "fd_init y \<longleftrightarrow> fy_cache y = Map.empty \<and> fy_open y = [] \<and> fy_pending y = []"

definition cached_fd :: "fd_cache \<Rightarrow> string \<Rightarrow> nat" where
  "cached_fd cache path = fe_fd (the (cache path))"

text \<open>One open descriptor per cached path and no other.\<close>

definition fd_inv :: "fd_system \<Rightarrow> bool" where
  "fd_inv y \<longleftrightarrow> distinct (fy_open y) \<and> bij_betw (cached_fd (fy_cache y)) (dom (fy_cache y)) (set (fy_open y))"

text \<open>The descriptors that the destructor closes.\<close>

definition destroy_fds :: "fd_cache \<Rightarrow> nat set" where
  "destroy_fds cache = fe_fd ` ran cache"

lemma fd_inv_insert:
  assumes "fd_inv y" "fy_cache y path = None" "fe_fd e \<notin> set (fy_open y)"
  shows "fd_inv (y\<lparr>fy_cache := (fy_cache y)(path \<mapsto> e), fy_open := fe_fd e # fy_open y, fy_pending := ps\<rparr>)"
proof -
  let ?c = "(fy_cache y)(path \<mapsto> e)"
  have eq: "\<forall>p \<in> dom (fy_cache y). cached_fd ?c p = cached_fd (fy_cache y) p"
    using assms(2) by (auto simp: cached_fd_def)
  have "bij_betw (cached_fd ?c) (dom (fy_cache y)) (set (fy_open y))"
    using assms(1) eq bij_betw_cong [of "dom (fy_cache y)" "cached_fd ?c" "cached_fd (fy_cache y)" "set (fy_open y)"]
    by (simp add: fd_inv_def)
  moreover have "cached_fd ?c path = fe_fd e" by (simp add: cached_fd_def)
  moreover have "path \<notin> dom (fy_cache y)" using assms(2) by auto
  ultimately have "bij_betw (cached_fd ?c) (dom (fy_cache y) \<union> {path}) (set (fy_open y) \<union> {fe_fd e})"
    using notIn_Un_bij_betw [of path "dom (fy_cache y)" "cached_fd ?c" "set (fy_open y)"] assms(3) by simp
  then show ?thesis using assms by (simp add: fd_inv_def insert_commute)
qed

lemma get_fd_exclusive_miss:
  assumes "cache path = None" "get_fd_exclusive opened sized cache path = (res, cache', closed)"
  obtains "cache' = cache" "opened_now opened closed = []" "res = None"
  | fd sz where "opened = Some fd" "cache' = cache(path \<mapsto> \<lparr>fe_fd = fd, fe_size = sz\<rparr>)"
      "opened_now opened closed = [fd]" "res = Some \<lparr>fe_fd = fd, fe_size = sz\<rparr>"
  using assms by (auto simp: get_fd_exclusive_def opened_now_def Let_def split: option.splits)

lemma fd_inv_step: "fd_inv y \<Longrightarrow> fd_step y z \<Longrightarrow> fd_inv z"
proof (erule fd_stepE)
  fix path opened sized res cache' closed
  assume inv: "fd_inv y" and z: "z = y\<lparr>fy_cache := cache', fy_open := opened_now opened closed @ fy_open y,
      fy_pending := remove1 path (fy_pending y)\<rparr>"
    and fresh: "\<forall>fd. opened = Some fd \<longrightarrow> fd \<notin> set (fy_open y)" and none: "fy_cache y path = None"
    and ex: "get_fd_exclusive opened sized (fy_cache y) path = (res, cache', closed)"
  from none ex show "fd_inv z"
  proof (cases rule: get_fd_exclusive_miss)
    case 1
    with inv z show ?thesis by (simp add: fd_inv_def)
  next
    case (2 fd sz)
    with z fresh fd_inv_insert [OF inv none, of "\<lparr>fe_fd = fd, fe_size = sz\<rparr>"] show ?thesis by simp
  qed
qed (auto simp: fd_inv_def get_fd_exclusive_def)

interpretation fds: safe_system fd_init fd_step fd_inv
proof unfold_locales
  show "fd_inv y" if "fd_init y" for y using that by (simp add: fd_init_def fd_inv_def bij_betw_def)
  show "fd_inv z" if "fd_inv y" "fd_step y z" for y z using that by (rule fd_inv_step)
qed

section \<open>Properties\<close>

text \<open>C37. No descriptor is leaked or opened twice, however the requests interleave: the cached paths and
  the open descriptors are in one-to-one correspondence, the destructor closes exactly the open ones,
  and an entry, once cached, is what every later lookup of that path returns.\<close>

theorem fd_cache_exact:
  assumes "reach fd_init fd_step y"
  shows "distinct (fy_open y) \<and> inj_on (cached_fd (fy_cache y)) (dom (fy_cache y))
    \<and> destroy_fds (fy_cache y) = set (fy_open y)
    \<and> (\<forall>z path e. fd_step y z \<longrightarrow> fy_cache y path = Some e \<longrightarrow> fy_cache z path = Some e)"
proof (intro conjI allI impI)
  have inv: "fd_inv y" by (rule fds.reach_inv [OF assms])
  then show "distinct (fy_open y)" "inj_on (cached_fd (fy_cache y)) (dom (fy_cache y))"
    by (simp_all add: fd_inv_def bij_betw_def)
  have "cached_fd (fy_cache y) ` dom (fy_cache y) = fe_fd ` ran (fy_cache y)"
    by (force simp: cached_fd_def ran_def)
  with inv show "destroy_fds (fy_cache y) = set (fy_open y)" by (simp add: fd_inv_def bij_betw_def destroy_fds_def)
  show "fy_cache z path = Some e" if "fd_step y z" "fy_cache y path = Some e" for z path e
    using that by (elim fd_stepE) (auto simp: get_fd_exclusive_def Let_def split: option.splits)
qed

theorem fd_cache_exact_witness:
  "destroy_fds [''a'' \<mapsto> \<lparr>fe_fd = 7, fe_size = 100\<rparr>] = {7}"
proof -
  let ?y0 = "\<lparr>fy_cache = Map.empty, fy_open = [], fy_pending = []\<rparr>"
  let ?y1 = "?y0\<lparr>fy_pending := [''a'']\<rparr>"
  let ?y2 = "\<lparr>fy_cache = [''a'' \<mapsto> \<lparr>fe_fd = 7, fe_size = 100\<rparr>], fy_open = [7], fy_pending = []\<rparr>"
  have "reach fd_init fd_step ?y0" by (rule reach_init) (simp add: fd_init_def)
  moreover have "fd_step ?y0 ?y1" using fd_step.miss [of ?y0 "''a''"] by (simp add: get_fd_shared_def)
  moreover have "fd_step ?y1 ?y2"
    using fd_step.opens [of "''a''" ?y1 "Some 7" "Some 100"] by (simp add: get_fd_exclusive_def opened_now_def Let_def)
  ultimately have "reach fd_init fd_step ?y2" by (blast intro: reach_step)
  from fd_cache_exact [OF this] show ?thesis by simp
qed

text \<open>The staging buffer is never overrun and no byte is invented: for every chunk size, file offset
  and mode the planned read fits the staging buffer, and a full read through any sequence of short reads
  and interruptions returns the number of bytes the file has there, at most the number asked for, with
  exactly the file's bytes in the buffer and its size unchanged.\<close>

lemma chunk_read_exact:
  assumes "length buf = unat chunk" and "Pread_failed \<notin> set evs" and c: "c = plan_chunk fo rem chunk d"
  shows "\<exists>n buf' evs'. pread_full file evs buf 0 (unat (ci_read_len c)) (unat (ci_read_off c)) = (Some n, buf', evs')
    \<and> n = min (unat (ci_read_len c)) (length file - unat (ci_read_off c)) \<and> n \<le> unat chunk
    \<and> length buf' = unat chunk \<and> take n buf' = take n (drop (unat (ci_read_off c)) file)"
proof -
  obtain res buf' evs' where p: "pread_full file evs buf 0 (unat (ci_read_len c)) (unat (ci_read_off c)) = (res, buf', evs')"
    by (metis prod_cases3)
  have len: "unat (ci_read_len c) \<le> length buf" using plan_read_len assms by simp
  have "buf_holds file (unat (ci_read_off c)) buf 0" by (simp add: buf_holds_def)
  from pread_full_reads [OF p this _ len] assms(2) obtain n where n: "res = Some n" "length buf' = length buf"
      "n = min (unat (ci_read_len c)) (length file - unat (ci_read_off c))"
      "buf_holds file (unat (ci_read_off c)) buf' n"
    by (auto split: option.splits)
  then have "n \<le> unat chunk" using len assms(1) by simp
  with p n assms(1) show ?thesis by (auto simp: buf_holds_def)
qed

end
