(* ===== verification/Server.thy ===== *)
theory Server
  imports Base64 S3_Util Server_Pool Server_Io
begin

unbundle bit_operations_syntax

text \<open>
  The request path of \<^verbatim>\<open>server/s3_server.cpp\<close>: \<^verbatim>\<open>handle_get\<close> with its double-buffered transfer loop,
  and the routes installed by \<^verbatim>\<open>run\<close>. The RDMA library, the file system and the HTTP library are
  arguments: \<open>get_env\<close> says what \<^verbatim>\<open>open\<close>, \<^verbatim>\<open>fstat\<close>, the \<^verbatim>\<open>pread\<close> calls, slot creation and each
  \<^verbatim>\<open>handleGetObject\<close> return, and for each overlapped pair whether the adapter reads the staging buffer
  before or after the concurrent \<^verbatim>\<open>pread\<close> has filled the other one. Every RDMA write the server
  asks for is recorded with the bytes the adapter finds in the staging buffer.
\<close>

section \<open>Data\<close>

record server_config =
  cfg_data_dir :: string
  cfg_ip :: string
  cfg_rdma_port :: "16 word"
  cfg_http_port :: "16 word"
  cfg_max_concurrency :: u32
  cfg_chunk_size :: u64
  cfg_direct_io :: bool

definition default_config :: server_config where
  "default_config = \<lparr>cfg_data_dir = ''./data'', cfg_ip = ''0.0.0.0'', cfg_rdma_port = 18515, cfg_http_port = 8080,
     cfg_max_concurrency = 1024, cfg_chunk_size = 2 * 1024 * 1024, cfg_direct_io = False\<rparr>"

record server_state =
  sv_pool :: pool_state
  sv_fds :: fd_cache

record get_env =
  ge_open :: "string \<Rightarrow> bool \<Rightarrow> nat option"
  ge_fstat :: "nat \<Rightarrow> u64 option"
  ge_file :: "nat \<Rightarrow> string"
  ge_alloc :: slot_alloc
  ge_staging :: "nat \<Rightarrow> string"
  ge_preads :: "pread_event list"
  ge_rdma :: "nat \<Rightarrow> int"
  ge_late :: "nat \<Rightarrow> bool"

record rdma_call =
  rc_reg :: nat
  rc_remote :: u64
  rc_size :: u64
  rc_descr :: string
  rc_channel :: "16 word"
  rc_local_off :: u64
  rc_data :: string

section \<open>The transfer loop\<close>

record xfer =
  xf_bufs :: "string list"
  xf_cur :: nat
  xf_c :: chunk_io
  xf_remaining :: u64
  xf_file_off :: u64
  xf_remote_off :: u64
  xf_total :: int
  xf_preads :: "pread_event list"
  xf_calls :: "rdma_call list"

definition no_chunk :: chunk_io where
  "no_chunk = \<lparr>ci_read_off = 0, ci_read_len = 0, ci_local_off = 0, ci_piece = 0\<rparr>"

definition slot_reg :: "rdma_slot \<Rightarrow> nat \<Rightarrow> nat" where
  "slot_reg slot i = (if i = 0 then fst (sl_staging_reg slot) else snd (sl_staging_reg slot))"

definition rdma_write :: "rdma_slot \<Rightarrow> string \<Rightarrow> string list \<Rightarrow> xfer \<Rightarrow> rdma_call" where
  "rdma_write slot descr bufs s =
     (let c = xf_c s in
      \<lparr>rc_reg = slot_reg slot (xf_cur s), rc_remote = xf_remote_off s, rc_size = ci_piece c, rc_descr = descr,
       rc_channel = sl_channel slot, rc_local_off = ci_local_off c,
       rc_data = take (unat (ci_piece c)) (drop (unat (ci_local_off c)) (bufs ! xf_cur s))\<rparr>)"

definition read_ok :: "chunk_io \<Rightarrow> nat option \<Rightarrow> bool" where
  "read_ok c nread = (case nread of
      None \<Rightarrow> False
    | Some n \<Rightarrow> \<not> (word_of_nat n :: u64) < ci_local_off c + ci_piece c)"

text \<open>One turn of the loop: \<^const>\<open>Inl\<close> leaves it with status 500.\<close>

definition xfer_iter :: "server_config \<Rightarrow> get_env \<Rightarrow> string \<Rightarrow> rdma_slot \<Rightarrow> string \<Rightarrow> xfer \<Rightarrow> xfer + xfer" where
  "xfer_iter cfg env file slot descr s =
     (let cur_c = xf_c s;
          nxt = xf_cur s XOR 1;
          next_file_off = xf_file_off s + ci_piece cur_c;
          next_remaining = xf_remaining s - ci_piece cur_c;
          k = length (xf_calls s);
          (next_c, pread_ok, bufs, evs, call) =
            (if 0 < next_remaining then
               let next_c = plan_chunk next_file_off next_remaining (cfg_chunk_size cfg) (cfg_direct_io cfg);
                   (nr, nbuf, evs) = pread_full file (xf_preads s) (xf_bufs s ! nxt) 0
                       (unat (ci_read_len next_c)) (unat (ci_read_off next_c));
                   bufs = (xf_bufs s)[nxt := nbuf]
               in (next_c, read_ok next_c nr, bufs, evs,
                   rdma_write slot descr (if ge_late env k then bufs else xf_bufs s) s)
             else (no_chunk, True, xf_bufs s, xf_preads s, rdma_write slot descr (xf_bufs s) s));
          rdma_n = ge_rdma env k;
          s' = s\<lparr>xf_bufs := bufs, xf_preads := evs, xf_calls := xf_calls s @ [call]\<rparr>
      in if rdma_n < 0 then Inl s'
         else if \<not> pread_ok then Inl s'
         else Inr (s'\<lparr>xf_total := xf_total s + rdma_n, xf_remaining := next_remaining,
                      xf_file_off := next_file_off, xf_remote_off := xf_remote_off s + ci_piece cur_c,
                      xf_cur := nxt, xf_c := next_c\<rparr>))"

fun transfer :: "server_config \<Rightarrow> get_env \<Rightarrow> string \<Rightarrow> rdma_slot \<Rightarrow> string \<Rightarrow> nat \<Rightarrow> xfer \<Rightarrow> (xfer + xfer) option" where
  "transfer cfg env file slot descr fuel s =
     (if \<not> 0 < xf_remaining s then Some (Inr s)
      else case fuel of
        0 \<Rightarrow> None
      | Suc n \<Rightarrow> (case xfer_iter cfg env file slot descr s of
            Inl s' \<Rightarrow> Some (Inl s')
          | Inr s' \<Rightarrow> transfer cfg env file slot descr n s'))"

declare transfer.simps [simp del]

section \<open>One GET\<close>

text \<open>
  \<open>Replied status bytes calls\<close> is a return of \<^verbatim>\<open>handle_get\<close>; \<open>bytes\<close> is what \<^verbatim>\<open>bytes_out\<close> holds then.
  The other results are a thread that sleeps in \<^verbatim>\<open>acquire_slot\<close>, an exception from it, an abort of
  the process, and a loop that has used up its fuel (which does not happen).
\<close>

datatype get_result = Replied nat int "rdma_call list" | Blocked | Raised | Died | No_fuel

definition get_token_descr :: "string \<Rightarrow> string" where
  "get_token_descr token = (if find_char CHR '':'' token \<noteq> None then token else base64_decode token)"

definition send_object ::
  "server_config \<Rightarrow> get_env \<Rightarrow> fd_entry \<Rightarrow> u64 \<Rightarrow> u64 \<Rightarrow> bool \<Rightarrow> string \<Rightarrow> u64 \<Rightarrow> rdma_slot \<Rightarrow> pool_state \<Rightarrow>
   get_result \<times> pool_state" where
  "send_object cfg env e offset len is_range descr remote_base slot pool =
     (let chunk = cfg_chunk_size cfg in
      if chunk = 0 then (Replied 500 0 [], release_slot slot pool)
      else
        let file = ge_file env (fe_fd e);
            bufs = [ge_staging env (fst (sl_staging slot)), ge_staging env (snd (sl_staging slot))];
            cur_c = plan_chunk offset len chunk (cfg_direct_io cfg);
            (nread, buf0, evs) = pread_full file (ge_preads env) (bufs ! 0) 0
                (unat (ci_read_len cur_c)) (unat (ci_read_off cur_c))
        in if \<not> read_ok cur_c nread then (Replied 500 0 [], release_slot slot pool)
           else
             let s = \<lparr>xf_bufs = bufs[0 := buf0], xf_cur = 0, xf_c = cur_c, xf_remaining = len,
                      xf_file_off = offset, xf_remote_off = remote_base, xf_total = 0,
                      xf_preads = evs, xf_calls = []\<rparr>
             in case transfer cfg env file slot descr (unat len) s of
                  None \<Rightarrow> (No_fuel, pool)
                | Some (Inl s') \<Rightarrow> (Replied 500 0 (xf_calls s'), release_slot slot pool)
                | Some (Inr s') \<Rightarrow>
                    (Replied (if is_range then 206 else 200) (xf_total s') (xf_calls s'), release_slot slot pool))"

definition get_span :: "string \<Rightarrow> u64 \<Rightarrow> (u64 \<times> u64 \<times> bool) option" where
  "get_span range_hdr file_size =
     (if range_hdr = [] then Some (0, file_size, False)
      else
        let r = parse_range range_hdr file_size
        in if \<not> br_present r \<or> \<not> br_valid r then None
           else Some (br_start r, br_end r - br_start r + 1, True))"

definition handle_get ::
  "server_config \<Rightarrow> get_env \<Rightarrow> string \<Rightarrow> string \<Rightarrow> string \<Rightarrow> server_state \<Rightarrow> get_result \<times> server_state" where
  "handle_get cfg env key range_hdr token st =
     (let path = cfg_data_dir cfg @ ''/'' @ key;
          opened = ge_open env (c_str path) (cfg_direct_io cfg);
          (entry, fds, closed) = get_fd opened (Option.bind opened (ge_fstat env)) (sv_fds st) path;
          st = st\<lparr>sv_fds := fds\<rparr>
      in case entry of
           None \<Rightarrow> (Replied 404 0 [], st)
         | Some e \<Rightarrow>
             (case get_span range_hdr (fe_size e) of
                None \<Rightarrow> (Replied 416 0 [], st)
              | Some (offset, len, is_range) \<Rightarrow>
                  let descr = get_token_descr token;
                      remote_base = parse_rdma_remote_addr descr
                  in if remote_base = 0 then (Replied 500 0 [], st)
                     else case acquire_slot (unat (cfg_max_concurrency cfg)) (ge_alloc env) (sv_pool st) of
                       None \<Rightarrow> (Blocked, st)
                     | Some (Threw, pool) \<Rightarrow> (Raised, st\<lparr>sv_pool := pool\<rparr>)
                     | Some (Aborted, pool) \<Rightarrow> (Died, st\<lparr>sv_pool := pool\<rparr>)
                     | Some (Done slot, pool) \<Rightarrow>
                         (case send_object cfg env e offset len is_range descr remote_base slot pool of
                            (res, pool) \<Rightarrow> (res, st\<lparr>sv_pool := pool\<rparr>))))"

section \<open>Routes\<close>

datatype http_method = GET | HEAD | PUT | POST | DELETE

record http_request =
  rq_method :: http_method
  rq_path :: string
  rq_token :: string
  rq_range :: string

record http_response =
  rs_status :: nat
  rs_headers :: header_list
  rs_content :: string

datatype served = Answer http_response | Unanswered get_result

definition answer :: "nat \<Rightarrow> header_list \<Rightarrow> string \<Rightarrow> served" where
  "answer st hs body = Answer \<lparr>rs_status = st, rs_headers = hs, rs_content = body\<rparr>"

text \<open>\<open>rq_token\<close> and \<open>rq_range\<close> are what \<^verbatim>\<open>get_header_value\<close> returns, empty when the field is absent.\<close>

definition get_route ::
  "server_config \<Rightarrow> get_env \<Rightarrow> http_request \<Rightarrow> server_state \<Rightarrow> served \<times> server_state" where
  "get_route cfg env req st =
     (let p = parse_object_path (rq_path req) in
      if \<not> op_valid p then (answer 400 [] (''expected /<bucket>/<object>'' @ [LF]), st)
      else if rq_method req = HEAD then
        let fp = cfg_data_dir cfg @ ''/'' @ op_bucket p @ ''/'' @ op_object p;
            opened = ge_open env (c_str fp) (cfg_direct_io cfg);
            (entry, fds, closed) = get_fd opened (Option.bind opened (ge_fstat env)) (sv_fds st) fp;
            st = st\<lparr>sv_fds := fds\<rparr>
        in (case entry of
              None \<Rightarrow> (answer 404 [] [], st)
            | Some e \<Rightarrow> (answer 200 [(''Content-Length'', to_string (unat (fe_size e)))] [], st))
      else
        let token = rq_token req in
        if token = [] then (answer 400 [] (''missing RDMA token header'' @ [LF]), st)
        else
          let key = op_bucket p @ ''/'' @ op_object p in
          case handle_get cfg env key (rq_range req) token st of
            (Replied code bytes calls, st) \<Rightarrow>
              if code = 200 \<or> code = 206 then
                (answer code
                   [(kHdrRdmaReply, if find_char CHR '':'' token \<noteq> None then to_string code else ''200''),
                    (kHdrRdmaBytesTransferred, to_string_int bytes)]
                   (''OK'' @ [LF]), st)
              else (answer code [] (''error'' @ [LF]), st)
          | (res, st) \<Rightarrow> (Unanswered res, st))"

definition reject_route :: "server_state \<Rightarrow> served \<times> server_state" where
  "reject_route st = (answer 405 [] (''only GET is supported'' @ [LF]), st)"

definition serve :: "server_config \<Rightarrow> get_env \<Rightarrow> http_request \<Rightarrow> server_state \<Rightarrow> served \<times> server_state" where
  "serve cfg env req st =
     (if rq_method req = GET \<or> rq_method req = HEAD then get_route cfg env req st else reject_route st)"

section \<open>What the staging buffers hold\<close>

definition piece_in :: "string \<Rightarrow> u64 \<Rightarrow> chunk_io \<Rightarrow> string \<Rightarrow> bool" where
  "piece_in file off c buf \<longleftrightarrow>
     take (unat (ci_piece c)) (drop (unat (ci_local_off c)) buf) = take (unat (ci_piece c)) (drop (unat off) file)
     \<and> unat (ci_piece c) \<le> length file - unat off"

lemma read_ok_nat:
  assumes "c = plan_chunk fo rem chunk d" "unat chunk + 8192 \<le> 2 ^ 64" "n \<le> unat (ci_read_len c)"
  shows "read_ok c (Some n) \<longleftrightarrow> unat (ci_local_off c) + unat (ci_piece c) \<le> n"
proof -
  have "unat (ci_local_off c) < 4096" using assms(1) by (simp add: plan_local_off)
  moreover have "unat (ci_piece c) \<le> unat chunk" using assms(1) by (simp add: plan_piece)
  ultimately have "unat (ci_local_off c + ci_piece c) = unat (ci_local_off c) + unat (ci_piece c)"
    using assms(2) by (intro unat_add_u64) linarith
  moreover have "unat (word_of_nat n :: u64) = n"
    using assms(3) unat_u64_lt [of "ci_read_len c"] by simp
  ultimately show ?thesis by (simp add: read_ok_def word_less_nat_alt not_less)
qed

lemma fetch_ready:
  assumes c: "c = plan_chunk fo rem chunk d" and chunk: "unat chunk + 8192 \<le> 2 ^ 64" "length buf = unat chunk"
    and p: "pread_full file evs buf 0 (unat (ci_read_len c)) (unat (ci_read_off c)) = (nr, buf', evs')"
  shows "length buf' = unat chunk" and "read_ok c nr \<Longrightarrow> piece_in file fo c buf'"
proof -
  have len: "unat (ci_read_len c) \<le> length buf" using plan_read_len chunk(2) c by simp
  have "buf_holds file (unat (ci_read_off c)) buf 0" by (simp add: buf_holds_def)
  note reads = pread_full_reads [OF p this _ len]
  then show "length buf' = unat chunk" using chunk(2) by simp
  assume ok: "read_ok c nr"
  then obtain n where n: "nr = Some n" by (cases nr) (auto simp: read_ok_def)
  have le: "n \<le> unat (ci_read_len c)" and h: "buf_holds file (unat (ci_read_off c)) buf' n" using reads n by auto
  have cover: "unat (ci_local_off c) + unat (ci_piece c) \<le> n" using ok n read_ok_nat [OF c chunk(1) le] by simp
  have off: "unat (ci_read_off c) + unat (ci_local_off c) = unat fo" using c by (simp add: plan_offsets)
  have "take (unat (ci_piece c)) (drop (unat (ci_local_off c)) buf')
      = take (unat (ci_piece c)) (drop (unat (ci_local_off c)) (take n buf'))"
    using cover by (simp add: drop_take min_def)
  also have "\<dots> = take (unat (ci_piece c)) (drop (unat (ci_local_off c)) (take n (drop (unat (ci_read_off c)) file)))"
    using h by (simp add: buf_holds_def)
  also have "\<dots> = take (unat (ci_piece c)) (drop (unat fo) file)"
    using cover off by (simp add: drop_take min_def add.commute)
  finally have bytes: "take (unat (ci_piece c)) (drop (unat (ci_local_off c)) buf')
      = take (unat (ci_piece c)) (drop (unat fo) file)" .
  moreover have "unat (ci_piece c) \<le> length file - unat fo"
    using h cover off unfolding buf_holds_def by linarith
  ultimately show "piece_in file fo c buf'" by (simp add: piece_in_def)
qed

section \<open>The loop invariant\<close>

text \<open>
  \<open>pos\<close> bytes of the span starting at \<open>fo\<close> are out: the calls made so far carry them, in order and at
  consecutive remote addresses, and the current buffer holds the next piece.
\<close>

definition calls_from :: "u64 \<Rightarrow> rdma_call list \<Rightarrow> bool" where
  "calls_from base calls \<longleftrightarrow> (\<forall>i < length calls.
     rc_remote (calls ! i) = base + word_of_nat (length (concat (map rc_data (take i calls))))
     \<and> length (rc_data (calls ! i)) = unat (rc_size (calls ! i)))"

definition calls_ok :: "u64 \<Rightarrow> string \<Rightarrow> u64 \<Rightarrow> u64 \<Rightarrow> u64 \<Rightarrow> rdma_call list \<Rightarrow> bool" where
  "calls_ok chunk file fo len base calls \<longleftrightarrow>
     (let bytes = concat (map rc_data calls) in
      length bytes \<le> unat len \<and> bytes = take (length bytes) (drop (unat fo) file)
      \<and> calls_from base calls \<and> list_all (\<lambda>c. rc_size c \<noteq> 0 \<and> rc_size c \<le> chunk) calls)"

definition xfer_inv :: "server_config \<Rightarrow> get_env \<Rightarrow> string \<Rightarrow> u64 \<Rightarrow> u64 \<Rightarrow> u64 \<Rightarrow> xfer \<Rightarrow> bool" where
  "xfer_inv cfg env file fo len base s \<longleftrightarrow>
     (let pos = length (concat (map rc_data (xf_calls s))) in
      xf_cur s < 2 \<and> length (xf_bufs s) = 2 \<and> list_all (\<lambda>b. length b = unat (cfg_chunk_size cfg)) (xf_bufs s)
      \<and> pos + unat (xf_remaining s) = unat len
      \<and> xf_file_off s = fo + word_of_nat pos \<and> xf_remote_off s = base + word_of_nat pos
      \<and> calls_ok (cfg_chunk_size cfg) file fo len base (xf_calls s)
      \<and> xf_total s = sum_list (map (ge_rdma env) [0..<length (xf_calls s)])
      \<and> (xf_remaining s \<noteq> 0 \<longrightarrow>
           xf_c s = plan_chunk (xf_file_off s) (xf_remaining s) (cfg_chunk_size cfg) (cfg_direct_io cfg)
           \<and> piece_in file (xf_file_off s) (xf_c s) (xf_bufs s ! xf_cur s)))"

lemma xor_one: "i < 2 \<Longrightarrow> (i :: nat) XOR 1 < 2 \<and> i XOR 1 \<noteq> i"
  by (cases i) (auto simp: less_Suc_eq numeral_2_eq_2)

lemma calls_from_size: "calls_from a calls \<Longrightarrow> c \<in> set calls \<Longrightarrow> length (rc_data c) = unat (rc_size c)"
  by (auto simp: calls_from_def in_set_conv_nth)

lemma calls_from_snoc:
  "calls_from base (cs @ [c]) \<longleftrightarrow> calls_from base cs \<and> rc_remote c = base + word_of_nat (length (concat (map rc_data cs)))
     \<and> length (rc_data c) = unat (rc_size c)"
  by (auto simp: calls_from_def nth_append less_Suc_eq)

text \<open>
  The overlapped pair as if it ran one after the other: the two threads touch different buffers, so it
  does not matter when the adapter reads.
\<close>

definition xfer_fetch :: "server_config \<Rightarrow> string \<Rightarrow> xfer \<Rightarrow> chunk_io \<times> bool \<times> string list \<times> pread_event list" where
  "xfer_fetch cfg file s =
     (let nrem = xf_remaining s - ci_piece (xf_c s) in
      if 0 < nrem then
        let c = plan_chunk (xf_file_off s + ci_piece (xf_c s)) nrem (cfg_chunk_size cfg) (cfg_direct_io cfg);
            (nr, nbuf, evs) = pread_full file (xf_preads s) (xf_bufs s ! (xf_cur s XOR 1)) 0
                (unat (ci_read_len c)) (unat (ci_read_off c))
        in (c, read_ok c nr, (xf_bufs s)[xf_cur s XOR 1 := nbuf], evs)
      else (no_chunk, True, xf_bufs s, xf_preads s))"

lemma rdma_write_other:
  "xf_cur s < 2 \<Longrightarrow> rdma_write slot descr ((xf_bufs s)[xf_cur s XOR 1 := b]) s = rdma_write slot descr (xf_bufs s) s"
  using xor_one [of "xf_cur s"] by (simp add: rdma_write_def Let_def)

lemma xfer_iter_sequential:
  assumes "xf_cur s < 2" "xfer_fetch cfg file s = (c, ok, bufs, evs)"
  shows "xfer_iter cfg env file slot descr s =
    (let s' = s\<lparr>xf_bufs := bufs, xf_preads := evs, xf_calls := xf_calls s @ [rdma_write slot descr (xf_bufs s) s]\<rparr>
     in if ge_rdma env (length (xf_calls s)) < 0 \<or> \<not> ok then Inl s'
        else Inr (s'\<lparr>xf_total := xf_total s + ge_rdma env (length (xf_calls s)),
                     xf_remaining := xf_remaining s - ci_piece (xf_c s),
                     xf_file_off := xf_file_off s + ci_piece (xf_c s),
                     xf_remote_off := xf_remote_off s + ci_piece (xf_c s),
                     xf_cur := xf_cur s XOR 1, xf_c := c\<rparr>))"
proof (cases "0 < xf_remaining s - ci_piece (xf_c s)")
  case True
  let ?c = "plan_chunk (xf_file_off s + ci_piece (xf_c s)) (xf_remaining s - ci_piece (xf_c s))
      (cfg_chunk_size cfg) (cfg_direct_io cfg)"
  obtain nr nbuf evs0 where p: "pread_full file (xf_preads s) (xf_bufs s ! (xf_cur s XOR 1)) 0
      (unat (ci_read_len ?c)) (unat (ci_read_off ?c)) = (nr, nbuf, evs0)"
    by (metis prod_cases3)
  with True assms(2) have "c = ?c" "ok = read_ok ?c nr" "bufs = (xf_bufs s)[xf_cur s XOR 1 := nbuf]" "evs = evs0"
    by (auto simp: xfer_fetch_def Let_def)
  then show ?thesis
    using True p rdma_write_other [OF assms(1), of slot descr nbuf] by (simp add: xfer_iter_def Let_def)
next
  case False
  with assms(2) show ?thesis by (auto simp: xfer_iter_def xfer_fetch_def Let_def)
qed

lemma xfer_fetch_ready:
  assumes inv: "xf_cur s < 2" "length (xf_bufs s) = 2" "list_all (\<lambda>b. length b = unat (cfg_chunk_size cfg)) (xf_bufs s)"
    and chunk: "unat (cfg_chunk_size cfg) + 8192 \<le> 2 ^ 64"
    and f: "xfer_fetch cfg file s = (c, ok, bufs, evs)"
  defines "nrem \<equiv> xf_remaining s - ci_piece (xf_c s)" and "noff \<equiv> xf_file_off s + ci_piece (xf_c s)"
  shows "length bufs = 2" and "list_all (\<lambda>b. length b = unat (cfg_chunk_size cfg)) bufs"
    and "nrem \<noteq> 0 \<Longrightarrow> c = plan_chunk noff nrem (cfg_chunk_size cfg) (cfg_direct_io cfg)"
    and "nrem \<noteq> 0 \<Longrightarrow> ok \<Longrightarrow> piece_in file noff c (bufs ! (xf_cur s XOR 1))"
proof -
  have x: "xf_cur s XOR 1 < length (xf_bufs s)" using inv xor_one by simp
  have len: "length (xf_bufs s ! (xf_cur s XOR 1)) = unat (cfg_chunk_size cfg)"
    using inv(3) x by (simp add: list_all_length)
  let ?c = "plan_chunk noff nrem (cfg_chunk_size cfg) (cfg_direct_io cfg)"
  obtain nr nbuf evs0 where p: "pread_full file (xf_preads s) (xf_bufs s ! (xf_cur s XOR 1)) 0
      (unat (ci_read_len ?c)) (unat (ci_read_off ?c)) = (nr, nbuf, evs0)"
    by (metis prod_cases3)
  note ready = fetch_ready [OF refl chunk len p]
  have split: "(c, ok, bufs) = (if nrem \<noteq> 0 then (?c, read_ok ?c nr, (xf_bufs s)[xf_cur s XOR 1 := nbuf])
      else (no_chunk, True, xf_bufs s))"
    using f p unfolding xfer_fetch_def nrem_def [symmetric] noff_def [symmetric]
    by (auto simp: Let_def word_neq_0_conv [symmetric] simp del: One_nat_def)
  then show "length bufs = 2" using inv(2) by (auto split: if_splits)
  show "list_all (\<lambda>b. length b = unat (cfg_chunk_size cfg)) bufs"
    using split inv(3) ready(1) x by (auto simp: list_all_length nth_list_update split: if_splits)
  show "nrem \<noteq> 0 \<Longrightarrow> c = ?c" using split by simp
  show "nrem \<noteq> 0 \<Longrightarrow> ok \<Longrightarrow> piece_in file noff c (bufs ! (xf_cur s XOR 1))"
    using split ready(2) x by auto
qed

lemma rdma_write_data:
  assumes "piece_in file (xf_file_off s) (xf_c s) (xf_bufs s ! xf_cur s)"
  shows "rc_data (rdma_write slot descr (xf_bufs s) s) = take (unat (ci_piece (xf_c s))) (drop (unat (xf_file_off s)) file)"
    and "length (rc_data (rdma_write slot descr (xf_bufs s) s)) = unat (ci_piece (xf_c s))"
  using assms by (simp_all add: rdma_write_def Let_def piece_in_def)

text \<open>The next piece is not empty, within the span and the chunk, and its write extends the calls.\<close>

lemma next_call:
  assumes inv: "xfer_inv cfg env file fo len base s" and rem: "xf_remaining s \<noteq> 0"
    and chunk: "cfg_chunk_size cfg \<noteq> 0" and span: "unat fo + unat len \<le> 2 ^ 64"
    and piece_def: "piece = ci_piece (xf_c s)" and call_def: "call = rdma_write slot descr (xf_bufs s) s"
  shows "0 < unat piece" and "piece \<le> xf_remaining s" and "length (rc_data call) = unat piece"
    and "calls_ok (cfg_chunk_size cfg) file fo len base (xf_calls s @ [call])"
proof -
  define pos where "pos = length (concat (map rc_data (xf_calls s)))"
  note i = inv [unfolded xfer_inv_def Let_def, folded pos_def]
  from i rem have c: "xf_c s = plan_chunk (xf_file_off s) (xf_remaining s) (cfg_chunk_size cfg) (cfg_direct_io cfg)"
    and pin: "piece_in file (xf_file_off s) (xf_c s) (xf_bufs s ! xf_cur s)"
    and calls: "calls_ok (cfg_chunk_size cfg) file fo len base (xf_calls s)" by blast+
  have "unat piece = min (unat (xf_remaining s)) (unat (cfg_chunk_size cfg))"
    unfolding piece_def c by (rule plan_piece)
  then show p0: "0 < unat piece" and p1: "piece \<le> xf_remaining s" and p2: "length (rc_data call) = unat piece"
    using rem chunk rdma_write_data(2) [OF pin] by (auto simp: word_le_nat_alt unat_gt_0 piece_def call_def)
  have p3: "piece \<le> cfg_chunk_size cfg"
    using \<open>unat piece = _\<close> by (simp add: word_le_nat_alt)
  have "0 < unat (xf_remaining s)" using rem by (simp add: unat_gt_0)
  then have "pos < unat len" using i by linarith
  then have off: "unat (xf_file_off s) = unat fo + pos"
    using i span unat_u64_lt [of len] by (simp add: unat_add_u64)
  have "rc_data call = take (unat piece) (drop (unat fo + pos) file)"
    using rdma_write_data(1) [OF pin] off by (simp add: piece_def call_def)
  moreover have "concat (map rc_data (xf_calls s)) = take pos (drop (unat fo) file)"
    using calls by (simp add: calls_ok_def Let_def pos_def)
  ultimately have "concat (map rc_data (xf_calls s @ [call])) = take (pos + unat piece) (drop (unat fo) file)"
    by (simp add: take_add add.commute)
  moreover have "length (concat (map rc_data (xf_calls s @ [call]))) = pos + unat piece" using p2 by (simp add: pos_def)
  moreover have "pos + unat piece \<le> unat len" using i p1 by (simp add: word_le_nat_alt)
  moreover have "calls_from base (xf_calls s @ [call])"
    using calls i p2 by (simp add: calls_from_snoc calls_ok_def Let_def call_def rdma_write_def piece_def pos_def)
  moreover have "rc_size call = piece" by (simp add: call_def rdma_write_def Let_def piece_def)
  ultimately show "calls_ok (cfg_chunk_size cfg) file fo len base (xf_calls s @ [call])"
    using calls p0 p3 by (simp add: calls_ok_def Let_def unat_gt_0)
qed

lemma xfer_iter_inv:
  assumes inv: "xfer_inv cfg env file fo len base s" and rem: "xf_remaining s \<noteq> 0"
    and chunk: "unat (cfg_chunk_size cfg) + 8192 \<le> 2 ^ 64" "cfg_chunk_size cfg \<noteq> 0"
    and span: "unat fo + unat len \<le> 2 ^ 64"
    and it: "xfer_iter cfg env file slot descr s = Inr s'"
  shows "xfer_inv cfg env file fo len base s'" and "unat (xf_remaining s') < unat (xf_remaining s)"
proof -
  define pos where "pos = length (concat (map rc_data (xf_calls s)))"
  define piece where "piece = ci_piece (xf_c s)"
  let ?call = "rdma_write slot descr (xf_bufs s) s"
  note i = inv [unfolded xfer_inv_def Let_def, folded pos_def]
  note call = next_call [OF inv rem chunk(2) span piece_def refl [of ?call]]
  obtain c' ok bufs evs where f: "xfer_fetch cfg file s = (c', ok, bufs, evs)" by (metis prod_cases4)
  note seq = xfer_iter_sequential [OF conjunct1 [OF i] f, of env slot descr, folded piece_def]
  from it seq have ok: "ok" and s': "s' = s\<lparr>xf_bufs := bufs, xf_preads := evs, xf_calls := xf_calls s @ [?call],
      xf_total := xf_total s + ge_rdma env (length (xf_calls s)), xf_remaining := xf_remaining s - piece,
      xf_file_off := xf_file_off s + piece, xf_remote_off := xf_remote_off s + piece,
      xf_cur := xf_cur s XOR 1, xf_c := c'\<rparr>"
    by (auto simp: Let_def split: if_splits)
  have wpos: "word_of_nat pos + piece = (word_of_nat (pos + unat piece) :: u64)" by simp
  have rem': "unat (xf_remaining s - piece) = unat (xf_remaining s) - unat piece"
    using call(2) by (rule unat_sub_u64)
  have pos': "length (concat (map rc_data (xf_calls s'))) = pos + unat piece"
    using call(3) by (simp add: s' pos_def)
  from i have cur: "xf_cur s < 2" and bufs: "length (xf_bufs s) = 2"
      "list_all (\<lambda>b. length b = unat (cfg_chunk_size cfg)) (xf_bufs s)"
    and len: "pos + unat (xf_remaining s) = unat len" and off: "xf_file_off s = fo + word_of_nat pos"
      "xf_remote_off s = base + word_of_nat pos"
    and tot: "xf_total s = sum_list (map (ge_rdma env) [0..<length (xf_calls s)])" by blast+
  note ready = xfer_fetch_ready [OF cur bufs chunk(1) f, folded piece_def]
  show "xfer_inv cfg env file fo len base s'"
    unfolding xfer_inv_def Let_def pos'
  proof (intro conjI impI)
    show "xf_cur s' < 2" using xor_one [OF cur] by (simp add: s')
    show "pos + unat piece + unat (xf_remaining s') = unat len"
      using len call(2) rem' by (simp add: s' word_le_nat_alt)
    show "xf_file_off s' = fo + word_of_nat (pos + unat piece)" "xf_remote_off s' = base + word_of_nat (pos + unat piece)"
      using off wpos by (simp_all add: s' add.assoc)
    show "calls_ok (cfg_chunk_size cfg) file fo len base (xf_calls s')" using call(4) by (simp add: s')
    show "xf_total s' = sum_list (map (ge_rdma env) [0..<length (xf_calls s')])" using tot by (simp add: s')
  qed (use ready ok in \<open>simp_all add: s'\<close>)
  show "unat (xf_remaining s') < unat (xf_remaining s)"
    using call(1,2) rem' by (simp add: s' word_le_nat_alt)
qed

lemma xfer_iter_Inl_calls:
  assumes inv: "xfer_inv cfg env file fo len base s"
    and it: "xfer_iter cfg env file slot descr s = Inl s'"
  shows "xf_calls s' = xf_calls s @ [rdma_write slot descr (xf_bufs s) s]"
proof -
  obtain c' ok bufs evs where f: "xfer_fetch cfg file s = (c', ok, bufs, evs)" by (metis prod_cases4)
  have "xf_cur s < 2" using inv by (simp add: xfer_inv_def Let_def)
  from xfer_iter_sequential [OF this f, of env slot descr] it show ?thesis
    by (auto simp: Let_def split: if_splits)
qed

text \<open>The loop ends within one turn per remaining byte and keeps the invariant.\<close>

lemma transfer_ends:
  assumes chunk: "unat (cfg_chunk_size cfg) + 8192 \<le> 2 ^ 64" "cfg_chunk_size cfg \<noteq> 0"
    and span: "unat fo + unat len \<le> 2 ^ 64"
  shows "xfer_inv cfg env file fo len base s \<Longrightarrow> unat (xf_remaining s) \<le> fuel \<Longrightarrow>
    (\<exists>s'. transfer cfg env file slot descr fuel s = Some (Inr s') \<and> xfer_inv cfg env file fo len base s' \<and> xf_remaining s' = 0)
    \<or> (\<exists>s'. transfer cfg env file slot descr fuel s = Some (Inl s')
         \<and> calls_ok (cfg_chunk_size cfg) file fo len base (xf_calls s'))"
proof (induction fuel arbitrary: s)
  case 0
  then have "xf_remaining s = 0" by (simp add: word_unat_eq_iff)
  with 0 show ?case by (subst (1 2) transfer.simps) simp
next
  case (Suc n)
  show ?case
  proof (cases "xf_remaining s = 0")
    case True
    with Suc.prems show ?thesis by (subst (1 2) transfer.simps) simp
  next
    case False
    show ?thesis
    proof (cases "xfer_iter cfg env file slot descr s")
      case (Inl s')
      have "calls_ok (cfg_chunk_size cfg) file fo len base (xf_calls s')"
        unfolding xfer_iter_Inl_calls [OF Suc.prems(1) Inl] by (rule next_call(4) [OF Suc.prems(1) False chunk(2) span refl refl])
      with Inl False show ?thesis by (subst (1 2) transfer.simps) (simp add: word_neq_0_conv [symmetric])
    next
      case (Inr s')
      note it = xfer_iter_inv [OF Suc.prems(1) False chunk span Inr]
      from it(2) Suc.prems(2) have "unat (xf_remaining s') \<le> n" by linarith
      from Suc.IH [OF it(1) this] Inr False show ?thesis
        by (subst (1 2) transfer.simps) (simp add: word_neq_0_conv [symmetric])
    qed
  qed
qed

section \<open>A transfer that succeeds\<close>

definition aligned :: "server_config \<Rightarrow> u64 \<Rightarrow> bool" where
  "aligned cfg off \<longleftrightarrow> (if cfg_direct_io cfg then 4096 dvd unat off \<and> 4096 dvd unat (cfg_chunk_size cfg) else True)"

lemma fetch_succeeds:
  assumes c: "c = plan_chunk fo rem (cfg_chunk_size cfg) (cfg_direct_io cfg)" and al: "aligned cfg fo"
    and chunk: "unat (cfg_chunk_size cfg) + 8192 \<le> 2 ^ 64" "length buf = unat (cfg_chunk_size cfg)"
    and len: "unat fo + unat rem \<le> length file" and nf: "Pread_failed \<notin> set evs"
    and p: "pread_full file evs buf 0 (unat (ci_read_len c)) (unat (ci_read_off c)) = (nr, buf', evs')"
  shows "read_ok c nr"
proof -
  have rl: "unat (ci_read_len c) \<le> length buf" using plan_read_len chunk(2) c by simp
  have "buf_holds file (unat (ci_read_off c)) buf 0" by (simp add: buf_holds_def)
  from pread_full_reads [OF p this _ rl] nf obtain n where n: "nr = Some n"
      "n = min (unat (ci_read_len c)) (length file - unat (ci_read_off c))"
    by (auto split: option.splits)
  have lo: "unat (ci_local_off c) = 0" using al c by (auto simp: plan_local_off aligned_def)
  have piece: "unat (ci_piece c) = min (unat rem) (unat (cfg_chunk_size cfg))" using c by (simp add: plan_piece)
  have "unat (ci_local_off c) + unat (ci_piece c) \<le> unat (ci_read_len c)"
    using plan_covers [OF chunk(1) c] lo piece by simp
  moreover have "unat (ci_read_off c) = unat fo" 
    using plan_offsets [of fo rem "cfg_chunk_size cfg" "cfg_direct_io cfg", folded c] lo by linarith
  ultimately show ?thesis using n lo piece len read_ok_nat [OF c chunk(1), of n] by simp
qed

lemma xfer_iter_succeeds:
  assumes inv: "xfer_inv cfg env file fo len base s" and rem: "xf_remaining s \<noteq> 0"
    and chunk: "unat (cfg_chunk_size cfg) + 8192 \<le> 2 ^ 64" "cfg_chunk_size cfg \<noteq> 0"
    and span: "unat fo + unat len \<le> length file" "length file < 2 ^ 64"
    and al: "aligned cfg (xf_file_off s)" and nf: "Pread_failed \<notin> set (xf_preads s)"
    and rdma: "\<forall>k. 0 \<le> ge_rdma env k"
  shows "\<exists>s'. xfer_iter cfg env file slot descr s = Inr s' \<and> Pread_failed \<notin> set (xf_preads s')
     \<and> (xf_remaining s' \<noteq> 0 \<longrightarrow> aligned cfg (xf_file_off s'))"
proof -
  define pos piece where "pos = length (concat (map rc_data (xf_calls s)))" and "piece = ci_piece (xf_c s)"
  define nrem noff where "nrem = xf_remaining s - piece" and "noff = xf_file_off s + piece"
  note i = inv [unfolded xfer_inv_def Let_def, folded pos_def]
  from i rem have cur: "xf_cur s < 2" and bufs: "length (xf_bufs s) = 2"
      "list_all (\<lambda>b. length b = unat (cfg_chunk_size cfg)) (xf_bufs s)" and pos: "pos + unat (xf_remaining s) = unat len"
    and off: "xf_file_off s = fo + word_of_nat pos"
    and c: "xf_c s = plan_chunk (xf_file_off s) (xf_remaining s) (cfg_chunk_size cfg) (cfg_direct_io cfg)"
    by blast+
  have pn: "unat piece = min (unat (xf_remaining s)) (unat (cfg_chunk_size cfg))"
    unfolding piece_def c by (rule plan_piece)
  have nrem: "unat nrem = unat (xf_remaining s) - unat piece"
    unfolding nrem_def using pn by (intro unat_sub_u64) (simp add: word_le_nat_alt)
  have fo: "unat (xf_file_off s) = unat fo + pos"
    using off pos span unat_u64_lt [of len] by (simp add: unat_add_u64)
  have noff: "unat noff = unat fo + pos + unat piece"
    unfolding noff_def using fo pn pos span by (subst unat_add_u64) auto
  have al': "aligned cfg noff" if "nrem \<noteq> 0"
  proof -
    have "0 < unat nrem" using that by (simp add: unat_gt_0)
    then have "unat piece = unat (cfg_chunk_size cfg)" using nrem pn by linarith
    then show ?thesis using al noff fo by (metis aligned_def dvd_add)
  qed
  let ?c = "plan_chunk noff nrem (cfg_chunk_size cfg) (cfg_direct_io cfg)"
  obtain nr nbuf evs where p: "pread_full file (xf_preads s) (xf_bufs s ! (xf_cur s XOR 1)) 0
      (unat (ci_read_len ?c)) (unat (ci_read_off ?c)) = (nr, nbuf, evs)"
    by (metis prod_cases3)
  have x: "xf_cur s XOR 1 < length (xf_bufs s)" using xor_one [OF cur] bufs(1) by simp
  have b: "length (xf_bufs s ! (xf_cur s XOR 1)) = unat (cfg_chunk_size cfg)"
    using bufs(2) x by (simp add: list_all_length)
  have "unat noff + unat nrem \<le> length file" using noff nrem pn pos span by linarith
  then have "read_ok ?c nr" if "nrem \<noteq> 0" by (rule fetch_succeeds [OF refl al' [OF that] chunk(1) b _ nf p])
  moreover have "Pread_failed \<notin> set evs" using pread_full_script [OF p] nf by blast
  ultimately obtain c' bufs' evs' where f: "xfer_fetch cfg file s = (c', True, bufs', evs')" "Pread_failed \<notin> set evs'"
    using p nf unfolding xfer_fetch_def nrem_def [symmetric] noff_def [symmetric] piece_def [symmetric]
    by (cases "nrem = 0") (auto simp: Let_def word_neq_0_conv [symmetric] simp del: One_nat_def)
  show ?thesis
    using xfer_iter_sequential [OF cur f(1), of env slot descr] f(2) rdma al'
    by (auto simp: Let_def not_less nrem_def noff_def piece_def)
qed

lemma transfer_succeeds:
  assumes chunk: "unat (cfg_chunk_size cfg) + 8192 \<le> 2 ^ 64" "cfg_chunk_size cfg \<noteq> 0"
    and span: "unat fo + unat len \<le> length file" "length file < 2 ^ 64"
    and rdma: "\<forall>k. 0 \<le> ge_rdma env k"
  shows "xfer_inv cfg env file fo len base s \<Longrightarrow> xf_remaining s \<noteq> 0 \<longrightarrow> aligned cfg (xf_file_off s) \<Longrightarrow>
    Pread_failed \<notin> set (xf_preads s) \<Longrightarrow> unat (xf_remaining s) \<le> fuel \<Longrightarrow>
    \<exists>s'. transfer cfg env file slot descr fuel s = Some (Inr s')"
proof (induction fuel arbitrary: s)
  case 0
  then have "xf_remaining s = 0" by (simp add: word_unat_eq_iff)
  then show ?case by (subst transfer.simps) simp
next
  case (Suc n)
  show ?case
  proof (cases "xf_remaining s = 0")
    case True
    then show ?thesis by (subst transfer.simps) simp
  next
    case False
    have span': "unat fo + unat len \<le> 2 ^ 64" using span by simp
    obtain s' where s': "xfer_iter cfg env file slot descr s = Inr s'" "Pread_failed \<notin> set (xf_preads s')"
        "xf_remaining s' \<noteq> 0 \<longrightarrow> aligned cfg (xf_file_off s')"
      using xfer_iter_succeeds [OF Suc.prems(1) False chunk span _ Suc.prems(3) rdma] Suc.prems(2) False by blast
    note it = xfer_iter_inv [OF Suc.prems(1) False chunk span' s'(1)]
    have "unat (xf_remaining s') \<le> n" using it(2) Suc.prems(4) by linarith
    from Suc.IH [OF it(1) s'(3,2) this] s'(1) False show ?thesis
      by (subst transfer.simps) (simp add: word_neq_0_conv [symmetric])
  qed
qed

section \<open>One GET\<close>

text \<open>The environment of a well-configured server: staging buffers of the configured size.\<close>

definition env_ok :: "server_config \<Rightarrow> get_env \<Rightarrow> bool" where
  "env_ok cfg env \<longleftrightarrow> unat (cfg_chunk_size cfg) + 8192 \<le> 2 ^ 64
     \<and> (\<forall>b. length (ge_staging env b) = unat (cfg_chunk_size cfg))"

lemma xfer_inv_start:
  assumes "env_ok cfg env" and p: "pread_full file evs0 (ge_staging env b0) 0 (unat (ci_read_len c)) (unat (ci_read_off c))
      = (nr, buf0, evs)"
    and c: "c = plan_chunk fo len (cfg_chunk_size cfg) (cfg_direct_io cfg)" and ok: "read_ok c nr"
  shows "xfer_inv cfg env file fo len base \<lparr>xf_bufs = [buf0, ge_staging env b1], xf_cur = 0, xf_c = c,
    xf_remaining = len, xf_file_off = fo, xf_remote_off = base, xf_total = 0, xf_preads = evs, xf_calls = []\<rparr>"
  using fetch_ready [OF c _ _ p] assms
  by (simp add: env_ok_def xfer_inv_def calls_ok_def calls_from_def)

lemma send_object_cases:
  assumes env: "env_ok cfg env" and span: "unat fo + unat len \<le> 2 ^ 64"
    and so: "send_object cfg env e fo len isr descr base slot pool = (res, pool')"
  shows "pool' = release_slot slot pool \<and> (\<exists>code bytes calls. res = Replied code bytes calls
    \<and> calls_ok (cfg_chunk_size cfg) (ge_file env (fe_fd e)) fo len base calls
    \<and> (code = 500 \<or> code = (if isr then 206 else 200) \<and> length (concat (map rc_data calls)) = unat len
         \<and> bytes = sum_list (map (ge_rdma env) [0..<length calls])))"
proof (cases "cfg_chunk_size cfg = 0")
  case True
  with so show ?thesis by (auto simp: send_object_def calls_ok_def calls_from_def)
next
  case False
  let ?file = "ge_file env (fe_fd e)" and ?c = "plan_chunk fo len (cfg_chunk_size cfg) (cfg_direct_io cfg)"
  obtain nr buf0 evs where p: "pread_full ?file (ge_preads env) (ge_staging env (fst (sl_staging slot))) 0
      (unat (ci_read_len ?c)) (unat (ci_read_off ?c)) = (nr, buf0, evs)" by (metis prod_cases3)
  show ?thesis
  proof (cases "read_ok ?c nr")
    case bad: False
    with so False p show ?thesis by (auto simp: send_object_def Let_def calls_ok_def calls_from_def)
  next
    case True
    note inv = xfer_inv_start [OF env p refl True, of base "snd (sl_staging slot)"]
    have chunk: "unat (cfg_chunk_size cfg) + 8192 \<le> 2 ^ 64" using env by (simp add: env_ok_def)
    from transfer_ends [OF chunk False span inv, of "unat len" slot descr] so False True p show ?thesis
      by (auto simp: send_object_def Let_def xfer_inv_def)
  qed
qed

lemma send_object_succeeds:
  assumes env: "env_ok cfg env" and nz: "cfg_chunk_size cfg \<noteq> 0"
    and span: "unat fo + unat len \<le> length (ge_file env (fe_fd e))" "length (ge_file env (fe_fd e)) < 2 ^ 64"
    and al: "aligned cfg fo" and nf: "Pread_failed \<notin> set (ge_preads env)" and rdma: "\<forall>k. 0 \<le> ge_rdma env k"
  shows "\<exists>bytes calls. send_object cfg env e fo len isr descr base slot pool
    = (Replied (if isr then 206 else 200) bytes calls, release_slot slot pool)"
proof -
  let ?file = "ge_file env (fe_fd e)" and ?c = "plan_chunk fo len (cfg_chunk_size cfg) (cfg_direct_io cfg)"
  obtain nr buf0 evs where p: "pread_full ?file (ge_preads env) (ge_staging env (fst (sl_staging slot))) 0
      (unat (ci_read_len ?c)) (unat (ci_read_off ?c)) = (nr, buf0, evs)" by (metis prod_cases3)
  have chunk: "unat (cfg_chunk_size cfg) + 8192 \<le> 2 ^ 64"
    and buf: "length (ge_staging env (fst (sl_staging slot))) = unat (cfg_chunk_size cfg)"
    using env by (simp_all add: env_ok_def)
  have ok: "read_ok ?c nr" by (rule fetch_succeeds [OF refl al chunk buf span(1) nf p])
  note inv = xfer_inv_start [OF env p refl ok, of base "snd (sl_staging slot)"]
  have "Pread_failed \<notin> set evs" using pread_full_script [OF p] nf by blast
  then show ?thesis
    using transfer_succeeds [OF chunk nz span rdma inv, of "unat len" slot descr] al p ok nz
    by (auto simp: send_object_def Let_def)
qed

lemma get_span_bound:
  assumes "get_span range_hdr fsz = Some (fo, len, isr)"
  shows "unat fo + unat len \<le> unat fsz" and "isr \<longleftrightarrow> range_hdr \<noteq> []"
proof -
  show "isr \<longleftrightarrow> range_hdr \<noteq> []" using assms by (auto simp: get_span_def Let_def split: if_splits)
  show "unat fo + unat len \<le> unat fsz"
  proof (cases "range_hdr = []")
    case True
    with assms show ?thesis by (simp add: get_span_def)
  next
    case False
    let ?r = "parse_range range_hdr fsz"
    from False assms have r: "br_valid ?r" "fo = br_start ?r" "len = br_end ?r - br_start ?r + 1"
      by (auto simp: get_span_def Let_def split: if_splits)
    from parse_range_valid_bounds [OF r(1)] r show ?thesis using range_length(2) [of fo "br_end ?r" fsz] by simp
  qed
qed

text \<open>Slots that are neither in the pool nor unborn: what request threads hold.\<close>

definition outstanding :: "pool_state \<Rightarrow> int" where
  "outstanding p = int (ps_total p) - int (length (ps_pool p))"

lemma acquire_outstanding:
  "acquire_slot mx a p = Some (Done slot, p') \<Longrightarrow> outstanding p' = outstanding p + 1"
  "acquire_slot mx a p = Some (Threw, p') \<Longrightarrow> outstanding p' = outstanding p"
  by (auto simp: acquire_slot_def acquire_begin_def acquire_wake_def create_failed_def outstanding_def
      of_nat_diff Suc_le_eq split: if_splits outcome.splits)

lemma release_outstanding: "outstanding (release_slot slot p) = outstanding p - 1"
  by (simp add: release_slot_def outstanding_def)

text \<open>The ways through \<^verbatim>\<open>handle_get\<close>: an early reply, no slot, or the transfer.\<close>

definition object_file :: "server_config \<Rightarrow> string \<Rightarrow> string" where
  "object_file cfg key = cfg_data_dir cfg @ ''/'' @ key"

lemma get_fd_entry: "get_fd opened sized cache path = (entry, cache', closed) \<Longrightarrow> cache' path = entry"
  by (auto simp: get_fd_def get_fd_shared_def get_fd_exclusive_def Let_def split: option.splits)

lemma handle_get_cases:
  assumes "handle_get cfg env key range_hdr token st = (res, st')"
  obtains (early) code where "res = Replied code 0 []" "code \<in> {404, 416, 500}" "sv_pool st' = sv_pool st"
  | (no_slot) "res \<in> {Blocked, Died}"
  | (raised) "res = Raised" "outstanding (sv_pool st') = outstanding (sv_pool st)"
  | (xfer) e fo len isr slot pool where "sv_fds st' (object_file cfg key) = Some e"
      "get_span range_hdr (fe_size e) = Some (fo, len, isr)"
      "parse_rdma_remote_addr (get_token_descr token) \<noteq> 0"
      "acquire_slot (unat (cfg_max_concurrency cfg)) (ge_alloc env) (sv_pool st) = Some (Done slot, pool)"
      "send_object cfg env e fo len isr (get_token_descr token)
         (parse_rdma_remote_addr (get_token_descr token)) slot pool = (res, sv_pool st')"
proof -
  let ?opened = "ge_open env (c_str (object_file cfg key)) (cfg_direct_io cfg)"
  obtain entry fds closed where fd: "get_fd ?opened (Option.bind ?opened (ge_fstat env)) (sv_fds st) (object_file cfg key)
      = (entry, fds, closed)" by (metis prod_cases3)
  note cached = get_fd_entry [OF fd]
  show ?thesis
    using assms fd cached early no_slot raised xfer acquire_outstanding(2)
    unfolding handle_get_def object_file_def [symmetric]
    by (auto simp: Let_def split: option.splits prod.splits if_splits outcome.splits)
qed

lemma handle_get_sent:
  assumes "env_ok cfg env" and "handle_get cfg env key range_hdr token st = (Replied code bytes calls, st')"
    and "code = 200 \<or> code = 206"
  shows "\<exists>e fo len isr. sv_fds st' (object_file cfg key) = Some e
    \<and> get_span range_hdr (fe_size e) = Some (fo, len, isr) \<and> code = (if isr then 206 else 200)
    \<and> concat (map rc_data calls) = take (unat len) (drop (unat fo) (ge_file env (fe_fd e)))
    \<and> length (concat (map rc_data calls)) = unat len
    \<and> calls_from (parse_rdma_remote_addr (get_token_descr token)) calls
    \<and> list_all (\<lambda>c. rc_size c \<noteq> 0 \<and> rc_size c \<le> cfg_chunk_size cfg) calls
    \<and> bytes = sum_list (map (ge_rdma env) [0..<length calls])"
  using assms(2)
proof (cases rule: handle_get_cases)
  case early
  with assms(3) show ?thesis by auto
next
  case (xfer e fo len isr slot pool)
  have "unat fo + unat len \<le> 2 ^ 64" using get_span_bound(1) [OF xfer(2)] unat_u64_lt [of "fe_size e"] by simp
  from send_object_cases [OF assms(1) this xfer(5)] assms(3) have
    ok: "calls_ok (cfg_chunk_size cfg) (ge_file env (fe_fd e)) fo len (parse_rdma_remote_addr (get_token_descr token)) calls"
    and reply: "code = (if isr then 206 else 200)" "length (concat (map rc_data calls)) = unat len"
    "bytes = sum_list (map (ge_rdma env) [0..<length calls])" by auto
  from ok have parts: "concat (map rc_data calls)
      = take (length (concat (map rc_data calls))) (drop (unat fo) (ge_file env (fe_fd e)))"
    "calls_from (parse_rdma_remote_addr (get_token_descr token)) calls"
    "list_all (\<lambda>c. rc_size c \<noteq> 0 \<and> rc_size c \<le> cfg_chunk_size cfg) calls"
    unfolding calls_ok_def Let_def by blast+
  show ?thesis using xfer(1,2) reply parts(1) [unfolded reply(2)] parts(2,3) by blast
qed auto

text \<open>The descriptor a request for \<open>key\<close> uses, cached or opened now.\<close>

definition fd_for :: "server_config \<Rightarrow> get_env \<Rightarrow> server_state \<Rightarrow> string \<Rightarrow> fd_entry option \<times> fd_cache \<times> nat list" where
  "fd_for cfg env st key =
     (let path = object_file cfg key; opened = ge_open env (c_str path) (cfg_direct_io cfg)
      in get_fd opened (Option.bind opened (ge_fstat env)) (sv_fds st) path)"

text \<open>A healthy request succeeds: if the object opens, its size is what \<^verbatim>\<open>fstat\<close> says, the range is
  valid, the token names an address, a slot is available, no read fails and no RDMA write fails, then
  the reply is 200 (206 for a range), with buffered reads always, and with direct reads when the span
  starts on a block boundary and the chunk is a multiple of the block.\<close>

lemma handle_get_sends:
  assumes env: "env_ok cfg env" "cfg_chunk_size cfg \<noteq> 0"
    and fd: "fd_for cfg env st key = (Some e, fds, closed)" "length (ge_file env (fe_fd e)) = unat (fe_size e)"
    and span: "get_span range_hdr (fe_size e) = Some (fo, len, isr)" "aligned cfg fo"
    and tok: "parse_rdma_remote_addr (get_token_descr token) \<noteq> 0"
    and slot: "acquire_slot (unat (cfg_max_concurrency cfg)) (ge_alloc env) (sv_pool st) = Some (Done slot, pool)"
    and io: "Pread_failed \<notin> set (ge_preads env)" "\<forall>k. 0 \<le> ge_rdma env k"
  shows "\<exists>bytes calls st'. handle_get cfg env key range_hdr token st
    = (Replied (if range_hdr = [] then 200 else 206) bytes calls, st') \<and> sv_fds st' = fds"
proof -
  obtain bytes calls where "send_object cfg env e fo len isr (get_token_descr token)
      (parse_rdma_remote_addr (get_token_descr token)) slot pool
      = (Replied (if isr then 206 else 200) bytes calls, release_slot slot pool)"
    using send_object_succeeds [of cfg env fo len e] env span(2) io fd(2) get_span_bound(1) [OF span(1)]
      unat_u64_lt [of "fe_size e"] by fastforce
  then show ?thesis
    using fd(1) span(1) tok slot get_span_bound(2) [OF span(1)]
    unfolding handle_get_def object_file_def [symmetric] fd_for_def by (auto simp: Let_def)
qed

lemma handle_get_fd:
  "sv_fds (snd (handle_get cfg env key range_hdr token st)) (object_file cfg key) = fst (fd_for cfg env st key)"
proof -
  obtain entry fds closed where fd: "fd_for cfg env st key = (entry, fds, closed)" by (metis prod_cases3)
  then have "fds (object_file cfg key) = entry" using get_fd_entry by (auto simp: fd_for_def Let_def)
  with fd show ?thesis
    unfolding handle_get_def object_file_def [symmetric] fd_for_def
    by (auto simp: Let_def split: option.splits prod.splits outcome.splits)
qed

text \<open>A server with four-byte chunks and one eleven-byte object, asked for it over an interrupted read.\<close>

definition demo_cfg :: server_config where
  "demo_cfg = default_config\<lparr>cfg_chunk_size := 4\<rparr>"

definition demo_env :: get_env where
  "demo_env = \<lparr>ge_open = (\<lambda>_ _. Some 7), ge_fstat = (\<lambda>_. Some 11), ge_file = (\<lambda>_. ''hello world''),
     ge_alloc = demo_alloc, ge_staging = (\<lambda>_. ''....''), ge_preads = [Pread_upto 1, Pread_interrupted],
     ge_rdma = (\<lambda>_. 4), ge_late = (\<lambda>k. k = 1)\<rparr>"

definition demo_server :: server_state where
  "demo_server = \<lparr>sv_pool = \<lparr>ps_pool = [], ps_total = 0\<rparr>, sv_fds = Map.empty\<rparr>"

lemma demo_env_ok: "env_ok demo_cfg demo_env" "cfg_chunk_size demo_cfg \<noteq> 0" "\<not> cfg_direct_io demo_cfg"
  by (simp_all add: env_ok_def demo_cfg_def demo_env_def default_config_def)

lemma demo_token: "parse_rdma_remote_addr (get_token_descr ''a:0'') \<noteq> 0"
proof -
  have "char_of (97 :: nat) = CHR ''a''" by code_simp
  then have "get_token_descr ''a:0'' = to_hex (unat (10 :: u64)) @ CHR '':'' # ''0''"
    by (simp add: get_token_descr_def to_hex.simps hex_char_def)
  then show ?thesis by (simp only: parse_remote_addr_to_hex) simp
qed

lemma demo_acquire: "acquire_slot (unat (cfg_max_concurrency demo_cfg)) (ge_alloc demo_env) (sv_pool demo_server)
    = Some (Done demo_slot, \<lparr>ps_pool = [], ps_total = 1\<rparr>)"
  using demo_created
  by (simp add: acquire_slot_def acquire_begin_def demo_cfg_def default_config_def demo_env_def demo_server_def)

lemma demo_fd: "fd_for demo_cfg demo_env demo_server key
    = (Some \<lparr>fe_fd = 7, fe_size = 11\<rparr>, [object_file demo_cfg key \<mapsto> \<lparr>fe_fd = 7, fe_size = 11\<rparr>], [])"
  by (simp add: fd_for_def Let_def demo_env_def demo_server_def get_fd_def get_fd_shared_def get_fd_exclusive_def)

lemma demo_io: "length (ge_file demo_env (fe_fd \<lparr>fe_fd = 7, fe_size = 11\<rparr>)) = unat (fe_size \<lparr>fe_fd = 7, fe_size = 11\<rparr>)"
  "get_span [] (fe_size \<lparr>fe_fd = 7, fe_size = 11\<rparr>) = Some (0, 11, False)" "aligned demo_cfg 0"
  "Pread_failed \<notin> set (ge_preads demo_env)" "\<forall>k. 0 \<le> ge_rdma demo_env k"
  by (simp_all add: demo_env_def get_span_def aligned_def demo_env_ok(3))

lemmas demo_healthy = demo_env_ok(1,2) demo_fd demo_io(1-3) demo_token demo_acquire demo_io(4,5)

lemma demo_replied:
  obtains bytes calls st' where "handle_get demo_cfg demo_env ''b/k'' [] ''a:0'' demo_server = (Replied 200 bytes calls, st')"
  using handle_get_sends [OF demo_healthy, of "''b/k''"] by auto

section \<open>Properties\<close>

text \<open>C3. A successful GET delivers exactly the requested bytes. When \<^verbatim>\<open>handle_get\<close> returns 200 or 206, the
  RDMA writes it issued are non-empty pieces of at most a chunk, they land back to back from the remote
  address of the token, and their contents, read in order, are the whole file (no Range) or exactly the
  range, whatever short reads, interruptions and overlap of reading and writing occurred; the byte count
  is the sum of what the RDMA library reported.\<close>

theorem handle_get_delivers:
  assumes "env_ok cfg env" and "handle_get cfg env key range_hdr token st = (Replied code bytes calls, st')"
    and "code = 200 \<or> code = 206"
  shows "\<exists>e fo len isr. sv_fds st' (object_file cfg key) = Some e
    \<and> get_span range_hdr (fe_size e) = Some (fo, len, isr) \<and> code = (if isr then 206 else 200)
    \<and> concat (map rc_data calls) = take (unat len) (drop (unat fo) (ge_file env (fe_fd e)))
    \<and> length (concat (map rc_data calls)) = unat len
    \<and> calls_from (parse_rdma_remote_addr (get_token_descr token)) calls
    \<and> list_all (\<lambda>c. rc_size c \<noteq> 0 \<and> rc_size c \<le> cfg_chunk_size cfg) calls
    \<and> bytes = sum_list (map (ge_rdma env) [0..<length calls])"
  by (rule handle_get_sent [OF assms])

theorem handle_get_delivers_witness:
  "\<exists>bytes calls st'. handle_get demo_cfg demo_env ''b/k'' [] ''a:0'' demo_server = (Replied 200 bytes calls, st')
     \<and> length (concat (map rc_data calls)) = 11"
proof -
  obtain bytes calls st' where r: "handle_get demo_cfg demo_env ''b/k'' [] ''a:0'' demo_server = (Replied 200 bytes calls, st')"
    by (rule demo_replied)
  then have "sv_fds st' (object_file demo_cfg ''b/k'') = Some \<lparr>fe_fd = 7, fe_size = 11\<rparr>"
    by (cases rule: handle_get_cases) (use r in \<open>auto simp: handle_get_def demo_env_def demo_server_def Let_def
        get_fd_def get_fd_shared_def get_fd_exclusive_def object_file_def split: option.splits outcome.splits prod.splits if_splits\<close>)
  with handle_get_delivers [OF demo_env_ok(1) r] r show ?thesis by (auto simp: get_span_def)
qed

text \<open>C4. No request ever writes a wrong byte: also when it fails half-way, the RDMA writes that
  \<^verbatim>\<open>handle_get\<close> issued form a prefix of the requested span, at consecutive addresses inside the window of
  the span's length that starts at the token's address.\<close>

theorem handle_get_never_strays:
  assumes "env_ok cfg env" and "handle_get cfg env key range_hdr token st = (Replied code bytes calls, st')"
    and "calls \<noteq> []"
  shows "\<exists>e fo len isr. sv_fds st' (object_file cfg key) = Some e
    \<and> get_span range_hdr (fe_size e) = Some (fo, len, isr)
    \<and> calls_ok (cfg_chunk_size cfg) (ge_file env (fe_fd e)) fo len (parse_rdma_remote_addr (get_token_descr token)) calls"
  using assms(2)
proof (cases rule: handle_get_cases)
  case (xfer e fo len isr slot pool)
  have "unat fo + unat len \<le> 2 ^ 64" using get_span_bound(1) [OF xfer(2)] unat_u64_lt [of "fe_size e"] by simp
  from send_object_cases [OF assms(1) this xfer(5)] xfer show ?thesis by auto
qed (use assms(3) in auto)

theorem handle_get_never_strays_witness:
  "\<exists>bytes calls st'. handle_get demo_cfg demo_env ''b/k'' [] ''a:0'' demo_server = (Replied 200 bytes calls, st')
     \<and> (calls = [] \<or> (\<exists>fo len file. calls_ok 4 file fo len (parse_rdma_remote_addr (get_token_descr ''a:0'')) calls))"
proof -
  obtain bytes calls st' where r: "handle_get demo_cfg demo_env ''b/k'' [] ''a:0'' demo_server = (Replied 200 bytes calls, st')"
    by (rule demo_replied)
  have "cfg_chunk_size demo_cfg = 4" by (simp add: demo_cfg_def)
  with handle_get_never_strays [OF demo_env_ok(1) r] r show ?thesis by metis
qed

text \<open>C14. \<^verbatim>\<open>handle_get\<close> terminates and gives its slot back: the loop never runs out of fuel, and on every
  reply (and on an exception from slot creation) as many slots are out as before the request.\<close>

theorem handle_get_returns_slot:
  assumes "env_ok cfg env" and "handle_get cfg env key range_hdr token st = (res, st')"
  shows "res \<noteq> No_fuel
    \<and> (case res of Blocked \<Rightarrow> True | Died \<Rightarrow> True | _ \<Rightarrow> outstanding (sv_pool st') = outstanding (sv_pool st))"
  using assms(2)
proof (cases rule: handle_get_cases)
  case (xfer e fo len isr slot pool)
  have "unat fo + unat len \<le> 2 ^ 64" using get_span_bound(1) [OF xfer(2)] unat_u64_lt [of "fe_size e"] by simp
  from send_object_cases [OF assms(1) this xfer(5)] acquire_outstanding(1) [OF xfer(4)] show ?thesis
    by (auto simp: release_outstanding)
qed auto

theorem handle_get_returns_slot_witness:
  "\<exists>res st'. handle_get demo_cfg demo_env ''b/k'' [] ''a:0'' demo_server = (res, st') \<and> outstanding (sv_pool st') = 0"
proof -
  obtain bytes calls st' where r: "handle_get demo_cfg demo_env ''b/k'' [] ''a:0'' demo_server = (Replied 200 bytes calls, st')"
    by (rule demo_replied)
  with handle_get_returns_slot [OF demo_env_ok(1) r] show ?thesis by (simp add: demo_server_def outstanding_def)
qed

text \<open>C38. A limit of the direct-I/O path: a span that starts inside a block and is at least a chunk long is
  always refused with 500 after the slot is taken, because the planned read is cut to the chunk and then
  cannot cover the gap and the piece.\<close>

theorem direct_unaligned_fails:
  assumes "env_ok cfg env" and "cfg_direct_io cfg" and "\<not> 4096 dvd unat fo" and "cfg_chunk_size cfg \<le> len"
  shows "send_object cfg env e fo len isr descr base slot pool = (Replied 500 0 [], release_slot slot pool)"
proof (cases "cfg_chunk_size cfg = 0")
  case True
  then show ?thesis by (simp add: send_object_def)
next
  case False
  let ?c = "plan_chunk fo len (cfg_chunk_size cfg) True" and ?file = "ge_file env (fe_fd e)"
  obtain nr buf0 evs where p: "pread_full ?file (ge_preads env) (ge_staging env (fst (sl_staging slot))) 0
      (unat (ci_read_len ?c)) (unat (ci_read_off ?c)) = (nr, buf0, evs)" by (metis prod_cases3)
  have chunk: "unat (cfg_chunk_size cfg) + 8192 \<le> 2 ^ 64" using assms(1) by (simp add: env_ok_def)
  have gap: "unat (cfg_chunk_size cfg) < unat (ci_local_off ?c) + unat (ci_piece ?c)"
    using assms(3,4) by (simp add: plan_local_off plan_piece word_le_nat_alt dvd_eq_mod_eq_0)
  have "\<not> read_ok ?c nr"
  proof (cases nr)
    case None
    then show ?thesis by (simp add: read_ok_def)
  next
    case (Some n)
    have rl: "unat (ci_read_len ?c) \<le> length (ge_staging env (fst (sl_staging slot)))"
      using plan_read_len assms(1) by (simp add: env_ok_def)
    have "buf_holds ?file (unat (ci_read_off ?c)) (ge_staging env (fst (sl_staging slot))) 0" by (simp add: buf_holds_def)
    from pread_full_reads [OF p this _ rl] Some have n: "n \<le> unat (ci_read_len ?c)" by simp
    moreover have "unat (ci_read_len ?c) \<le> unat (cfg_chunk_size cfg)" by (rule plan_read_len)
    ultimately show ?thesis using gap Some read_ok_nat [OF refl chunk n] by simp
  qed
  with False p assms(2) show ?thesis by (simp add: send_object_def)
qed

theorem direct_unaligned_fails_witness:
  "send_object (demo_cfg\<lparr>cfg_direct_io := True\<rparr>) demo_env \<lparr>fe_fd = 7, fe_size = 11\<rparr> 1 10 True ''a:0'' 10 demo_slot
     \<lparr>ps_pool = [], ps_total = 1\<rparr> = (Replied 500 0 [], \<lparr>ps_pool = [demo_slot], ps_total = 1\<rparr>)"
proof -
  have "env_ok (demo_cfg\<lparr>cfg_direct_io := True\<rparr>) demo_env" using demo_env_ok(1) by (simp add: env_ok_def)
  from direct_unaligned_fails [OF this, of 1 10 "\<lparr>fe_fd = 7, fe_size = 11\<rparr>" True "''a:0''" 10 demo_slot
      "\<lparr>ps_pool = [], ps_total = 1\<rparr>"] show ?thesis
    by (simp add: demo_cfg_def release_slot_def)
qed

end
