(* ===== verification/Server_Args.thy ===== *)
theory Server_Args
  imports Server
begin

text \<open>
  \<^verbatim>\<open>server/main.cpp\<close>: the numeric option parsers and the argument loop. The outcome of the loop is the
  configuration the server is started with, or the exit code of the process.
\<close>

section \<open>Definitions\<close>

text \<open>\<^verbatim>\<open>std::stoul\<close> reads an \<^verbatim>\<open>unsigned long\<close>, which has 64 bits here.\<close>

definition parse_u16 :: "string \<Rightarrow> 16 word option" where
  "parse_u16 s = (case stoull 10 s of
      None \<Rightarrow> None
    | Some (v, pos) \<Rightarrow> if pos \<noteq> length s \<or> v = 0 \<or> 65535 < v then None else Some (ucast v))"

definition parse_u32 :: "string \<Rightarrow> u32 option" where
  "parse_u32 s = (case stoull 10 s of
      None \<Rightarrow> None
    | Some (v, pos) \<Rightarrow> if pos \<noteq> length s \<or> v = 0 \<or> 4294967295 < v then None else Some (ucast v))"

definition parse_size_kib :: "string \<Rightarrow> u64 option" where
  "parse_size_kib s = (case stoull 10 s of
      None \<Rightarrow> None
    | Some (v, pos) \<Rightarrow>
        if pos \<noteq> length s \<or> v = 0 then None
        else if (- 1) div 1024 < v then None
        else Some (v * 1024))"

datatype server_start = Start server_config | Exit nat

text \<open>\<^verbatim>\<open>next(name)\<close> and the check of the value; \<^const>\<open>Inl\<close> is the exit code.\<close>

definition with_value :: "string list \<Rightarrow> (string \<Rightarrow> 'c option) \<Rightarrow> nat + 'c \<times> string list" where
  "with_value args f = (case args of
      [] \<Rightarrow> Inl 2
    | v # rest \<Rightarrow> (case f v of None \<Rightarrow> Inl 2 | Some c \<Rightarrow> Inr (c, rest)))"

definition server_arg :: "server_config \<Rightarrow> string \<Rightarrow> string list \<Rightarrow> nat + server_config \<times> string list" where
  "server_arg cfg a args =
     (if a = ''--data-dir'' then with_value args (\<lambda>v. Some (cfg\<lparr>cfg_data_dir := v\<rparr>))
      else if a = ''--ip'' then with_value args (\<lambda>v. Some (cfg\<lparr>cfg_ip := v\<rparr>))
      else if a = ''--rdma-port'' then with_value args (\<lambda>v. map_option (\<lambda>p. cfg\<lparr>cfg_rdma_port := p\<rparr>) (parse_u16 v))
      else if a = ''--port'' then with_value args (\<lambda>v. map_option (\<lambda>p. cfg\<lparr>cfg_http_port := p\<rparr>) (parse_u16 v))
      else if a = ''--max-concurrency''
      then with_value args (\<lambda>v. map_option (\<lambda>n. cfg\<lparr>cfg_max_concurrency := n\<rparr>) (parse_u32 v))
      else if a = ''--chunk-size''
      then with_value args (\<lambda>v. map_option (\<lambda>n. cfg\<lparr>cfg_chunk_size := n\<rparr>) (parse_size_kib v))
      else if a = ''--direct-io'' then Inr (cfg\<lparr>cfg_direct_io := True\<rparr>, args)
      else if a = ''-h'' \<or> a = ''--help'' then Inl 0
      else Inl 2)"

lemma with_value_Inr: "with_value args f = Inr (c, rest) \<longleftrightarrow> (\<exists>v. args = v # rest \<and> f v = Some c)"
  by (cases args) (auto simp: with_value_def split: option.splits)

lemma server_arg_shorter: "server_arg cfg a args = Inr (cfg', rest) \<Longrightarrow> length rest \<le> length args"
  by (auto simp: server_arg_def with_value_Inr split: if_splits)

function server_args :: "server_config \<Rightarrow> string list \<Rightarrow> server_start" where
  "server_args cfg [] = Start cfg"
| "server_args cfg (a # args) =
     (case server_arg cfg a args of
        Inl code \<Rightarrow> Exit code
      | Inr (cfg', rest) \<Rightarrow> server_args cfg' rest)"
  by pat_completeness auto
termination
  by (relation "measure (\<lambda>(cfg, args). length args)") (auto dest: server_arg_shorter)

fun_cases server_argsE: "server_args cfg (a # args) = Start cfg'"

section \<open>Lemmas\<close>

lemma parse_u16_pos: "parse_u16 s = Some p \<Longrightarrow> p \<noteq> 0"
proof -
  assume "parse_u16 s = Some p"
  then obtain v :: u64 where v: "v \<noteq> 0" "\<not> 65535 < v" "p = ucast v"
    by (auto simp: parse_u16_def split: option.splits if_splits)
  have "unat v < 2 ^ 16" using v(2) by (simp add: word_less_nat_alt)
  then have "unat (ucast v :: 16 word) = unat v" by (simp add: unsigned_ucast_eq take_bit_nat_eq_self_iff)
  with v show ?thesis by (auto simp: word_unat_eq_iff)
qed

lemma parse_u32_pos: "parse_u32 s = Some p \<Longrightarrow> p \<noteq> 0"
proof -
  assume "parse_u32 s = Some p"
  then obtain v :: u64 where v: "v \<noteq> 0" "\<not> 4294967295 < v" "p = ucast v"
    by (auto simp: parse_u32_def split: option.splits if_splits)
  have "unat v < 2 ^ 32" using v(2) by (simp add: word_less_nat_alt)
  then have "unat (ucast v :: u32) = unat v" by (simp add: unsigned_ucast_eq take_bit_nat_eq_self_iff)
  with v show ?thesis by (auto simp: word_unat_eq_iff)
qed

lemma parse_size_kib_exact:
  assumes "parse_size_kib s = Some n"
  shows "n \<noteq> 0" and "1024 dvd unat n"
proof -
  obtain v :: u64 where v: "v \<noteq> 0" "\<not> (- 1) div 1024 < v" "n = v * 1024"
    using assms by (auto simp: parse_size_kib_def split: option.splits if_splits)
  have "unat (- 1 :: u64) = 2 ^ 64 - 1" by (simp add: unsigned_minus_1_eq_mask mask_eq_exp_minus_1)
  then have "unat v \<le> (2 ^ 64 - 1) div 1024" using v(2) by (simp add: word_less_nat_alt unat_div)
  then have "unat v * 1024 < 2 ^ 64" by simp
  then have n: "unat n = unat v * 1024" using v(3) by (simp add: unat_mult_u64)
  then show "1024 dvd unat n" by simp
  show "n \<noteq> 0" using n v(1) by (auto simp: word_unat_eq_iff)
qed

definition config_ok :: "server_config \<Rightarrow> bool" where
  "config_ok cfg \<longleftrightarrow> cfg_rdma_port cfg \<noteq> 0 \<and> cfg_http_port cfg \<noteq> 0 \<and> cfg_max_concurrency cfg \<noteq> 0
     \<and> cfg_chunk_size cfg \<noteq> 0 \<and> 1024 dvd unat (cfg_chunk_size cfg)"

lemma server_arg_ok: "server_arg cfg a args = Inr (cfg', rest) \<Longrightarrow> config_ok cfg \<Longrightarrow> config_ok cfg'"
  by (auto simp: server_arg_def with_value_Inr config_ok_def parse_u16_pos parse_u32_pos parse_size_kib_exact
      split: if_splits)

lemma server_args_ok: "server_args cfg args = Start cfg' \<Longrightarrow> config_ok cfg \<Longrightarrow> config_ok cfg'"
proof (induction cfg args rule: server_args.induct)
  case (1 cfg)
  then show ?case by simp
next
  case (2 cfg a args)
  from "2.prems"(1) show ?case
    by (elim server_argsE) (use "2.IH" "2.prems"(2) server_arg_ok in \<open>auto split: sum.splits\<close>)
qed

lemma default_config_ok: "config_ok default_config"
  by (simp add: config_ok_def default_config_def)

section \<open>Properties\<close>

text \<open>Started means sane: whatever the command line, a server that starts has non-zero ports, at least one
  slot and a chunk that is a positive multiple of 1 KiB whose computation did not overflow; so the zero-chunk
  error of the request handler cannot be reached from the command line.\<close>

lemma started_config_ok: "server_args default_config args = Start cfg \<Longrightarrow> config_ok cfg"
  using server_args_ok default_config_ok by blast

end
