(* ===== verification/Server_Life.thy ===== *)
theory Server_Life
  imports Server_Args
begin

text \<open>
  The life of the server process: \<^verbatim>\<open>main\<close> of \<^verbatim>\<open>server/main.cpp\<close> after option parsing, the constructor, destructor, \<^verbatim>\<open>run\<close> and
  \<^verbatim>\<open>stop\<close> of \<^verbatim>\<open>S3Server\<close>, and the signal handler, which reaches the server through the global \<^verbatim>\<open>g_server\<close>. A signal may arrive
  at any moment. On the main thread the handler runs between two statements of \<^verbatim>\<open>main\<close>; on another thread of the process
  (\<open>threads\<close>) the statements of \<^verbatim>\<open>main\<close> go on between its test of \<^verbatim>\<open>g_server\<close> and its call of \<^verbatim>\<open>stop\<close>. While the server
  listens, its request threads take the steps of the slot pool.
\<close>

section \<open>State and operations\<close>

datatype life_pc = Begins | Constructed | Published | Armed_int | Armed | Listening | Returned | Cleared | Ended | Killed

record server_life =
  lf_pc :: life_pc
  lf_g_server :: bool
  lf_live :: bool
  lf_http_impl :: bool
  lf_on_int :: bool
  lf_on_term :: bool
  lf_stop_asked :: bool
  lf_pool :: pool_system
  lf_given_back :: "nat list \<times> 16 word list"
  lf_racers :: nat
  lf_dangling :: bool

text \<open>The constructor creates the RDMA server and the HTTP server; the destructor deletes them and gives back the pooled slots.\<close>

definition server_ctor :: "server_life \<Rightarrow> server_life" where
  "server_ctor s = s\<lparr>lf_live := True, lf_http_impl := True\<rparr>"

definition server_dtor :: "server_life \<Rightarrow> server_life" where
  "server_dtor s = s\<lparr>lf_http_impl := False, lf_given_back := destroy_pool (sys_pool (lf_pool s)), lf_live := False\<rparr>"

text \<open>\<^verbatim>\<open>stop\<close> reads a member of the object: on a destroyed object that is a dangling access.\<close>

definition server_stop :: "server_life \<Rightarrow> server_life" where
  "server_stop s =
     (if \<not> lf_live s then s\<lparr>lf_dangling := True\<rparr>
      else if lf_http_impl s then s\<lparr>lf_stop_asked := True\<rparr> else s)"

definition on_signal :: "server_life \<Rightarrow> server_life" where
  "on_signal s = (if lf_g_server s then server_stop s else s)"

section \<open>Steps\<close>

text \<open>
  \<open>returns\<close> is the return of \<^verbatim>\<open>listen\<close>, which has joined its request threads: none is inside a request. A signal whose handler is not
  installed yet, and an abort in slot creation, kill the process.
\<close>

inductive life_step :: "bool \<Rightarrow> nat \<Rightarrow> server_life \<Rightarrow> server_life \<Rightarrow> bool" for threads :: bool and mx :: nat where
  constructs: "lf_pc s = Begins \<Longrightarrow> life_step threads mx s ((server_ctor s)\<lparr>lf_pc := Constructed\<rparr>)"
| publishes: "lf_pc s = Constructed \<Longrightarrow> life_step threads mx s (s\<lparr>lf_pc := Published, lf_g_server := True\<rparr>)"
| arms_int: "lf_pc s = Published \<Longrightarrow> life_step threads mx s (s\<lparr>lf_pc := Armed_int, lf_on_int := True\<rparr>)"
| arms_term: "lf_pc s = Armed_int \<Longrightarrow> life_step threads mx s (s\<lparr>lf_pc := Armed, lf_on_term := True\<rparr>)"
| listens: "lf_pc s = Armed \<Longrightarrow> life_step threads mx s (s\<lparr>lf_pc := Listening\<rparr>)"
| serves: "lf_pc s = Listening \<Longrightarrow> pool_step mx (lf_pool s) p \<Longrightarrow> life_step threads mx s (s\<lparr>lf_pool := p\<rparr>)"
| aborts: "lf_pc s = Listening \<Longrightarrow> life_step threads mx s (s\<lparr>lf_pc := Killed\<rparr>)"
| returns: "lf_pc s = Listening \<Longrightarrow> list_all (\<lambda>t. t = Idle) (sys_threads (lf_pool s)) \<Longrightarrow>
    life_step threads mx s (s\<lparr>lf_pc := Returned\<rparr>)"
| clears: "lf_pc s = Returned \<Longrightarrow> life_step threads mx s (s\<lparr>lf_pc := Cleared, lf_g_server := False\<rparr>)"
| destroys: "lf_pc s = Cleared \<Longrightarrow> life_step threads mx s ((server_dtor s)\<lparr>lf_pc := Ended\<rparr>)"
| interrupted: "lf_pc s \<notin> {Ended, Killed} \<Longrightarrow> (if sigint then lf_on_int s else lf_on_term s) \<Longrightarrow> life_step threads mx s (on_signal s)"
| killed: "lf_pc s \<notin> {Ended, Killed} \<Longrightarrow> \<not> (if sigint then lf_on_int s else lf_on_term s) \<Longrightarrow> life_step threads mx s (s\<lparr>lf_pc := Killed\<rparr>)"
| tests: "threads \<Longrightarrow> lf_pc s \<noteq> Killed \<Longrightarrow> (if sigint then lf_on_int s else lf_on_term s) \<Longrightarrow> lf_g_server s \<Longrightarrow>
    life_step threads mx s (s\<lparr>lf_racers := lf_racers s + 1\<rparr>)"
| calls: "threads \<Longrightarrow> lf_pc s \<noteq> Killed \<Longrightarrow> 0 < lf_racers s \<Longrightarrow>
    life_step threads mx s ((server_stop s)\<lparr>lf_racers := lf_racers s - 1\<rparr>)"

definition life_init :: "server_life \<Rightarrow> bool" where
  "life_init s \<longleftrightarrow> lf_pc s = Begins \<and> \<not> lf_g_server s \<and> \<not> lf_live s \<and> \<not> lf_http_impl s \<and> \<not> lf_on_int s \<and> \<not> lf_on_term s
     \<and> \<not> lf_stop_asked s \<and> pool_init (lf_pool s) \<and> lf_given_back s = ([], []) \<and> lf_racers s = 0 \<and> \<not> lf_dangling s"

section \<open>The invariant\<close>

definition up_phases :: "life_pc set" where
  "up_phases = {Published, Armed_int, Armed, Listening, Returned}"

text \<open>
  The global is set exactly from its publication to its clearing; the object lives around that time; when requests have ended no slot is
  out; and after the end everything that the pool counts has been given back.
\<close>

definition life_inv :: "nat \<Rightarrow> server_life \<Rightarrow> bool" where
  "life_inv mx s \<longleftrightarrow> (lf_pc s \<noteq> Killed \<longrightarrow>
       (lf_g_server s \<longleftrightarrow> lf_pc s \<in> up_phases)
     \<and> (lf_live s \<longleftrightarrow> lf_pc s \<in> insert Constructed (insert Cleared up_phases))
     \<and> (lf_http_impl s \<longleftrightarrow> lf_live s)
     \<and> (lf_pc s \<in> {Returned, Cleared, Ended} \<longrightarrow> list_all (\<lambda>t. t = Idle) (sys_threads (lf_pool s)))
     \<and> (lf_pc s = Ended \<longrightarrow> lf_given_back s = destroy_pool (sys_pool (lf_pool s))))
     \<and> pool_inv mx (lf_pool s) \<and> lf_racers s = 0 \<and> \<not> lf_dangling s"

lemma server_stop_fields [simp]:
  "lf_pc (server_stop s) = lf_pc s" "lf_g_server (server_stop s) = lf_g_server s" "lf_live (server_stop s) = lf_live s"
  "lf_pool (server_stop s) = lf_pool s" "lf_given_back (server_stop s) = lf_given_back s" "lf_racers (server_stop s) = lf_racers s"
  "lf_http_impl (server_stop s) = lf_http_impl s" "lf_on_int (server_stop s) = lf_on_int s"
  "lf_dangling (server_stop s) \<longleftrightarrow> lf_dangling s \<or> \<not> lf_live s"
  by (simp_all add: server_stop_def)

lemma on_signal_fields [simp]:
  "lf_pc (on_signal s) = lf_pc s" "lf_g_server (on_signal s) = lf_g_server s" "lf_live (on_signal s) = lf_live s"
  "lf_pool (on_signal s) = lf_pool s" "lf_given_back (on_signal s) = lf_given_back s" "lf_racers (on_signal s) = lf_racers s"
  "lf_http_impl (on_signal s) = lf_http_impl s"
  "lf_dangling (on_signal s) \<longleftrightarrow> lf_dangling s \<or> (lf_g_server s \<and> \<not> lf_live s)"
  by (auto simp: on_signal_def)

lemma life_inv_step:
  assumes "life_inv mx s" and "life_step False mx s t"
  shows "life_inv mx t"
  using assms(2)
proof cases
  case (serves p)
  then have "pool_inv mx p" using assms(1) pool_inv_step by (auto simp: life_inv_def)
  with serves assms(1) show ?thesis by (auto simp: life_inv_def up_phases_def)
qed (use assms(1) in \<open>auto simp: life_inv_def up_phases_def server_ctor_def server_dtor_def\<close>)

lemma life_inv_init: "life_init s \<Longrightarrow> life_inv mx s"
  using pool_inv_init [of "lf_pool s" mx] by (auto simp: life_init_def life_inv_def up_phases_def)

interpretation life: safe_system life_init "life_step False mx" "life_inv mx"
  by unfold_locales (erule life_inv_init, erule (1) life_inv_step)

lemma idle_pool:
  assumes "pool_inv mx y" "list_all (\<lambda>t. t = Idle) (sys_threads y)"
  shows "ps_total (sys_pool y) = length (ps_pool (sys_pool y))" "distinct (map sl_channel (ps_pool (sys_pool y)))"
proof -
  have "held_slots (sys_threads y) = []" "filter is_creating (sys_threads y) = []"
    using assms(2) by (auto simp: held_slots_def filter_empty_conv list_all_iff)
  then show "ps_total (sys_pool y) = length (ps_pool (sys_pool y))" "distinct (map sl_channel (ps_pool (sys_pool y)))"
    using assms(1) by (simp_all add: pool_inv_def all_slots_def)
qed

section \<open>Properties\<close>

text \<open>C13. The server process ends cleanly. With signals handled on the main thread, at whatever moment they arrive: the handler
  never touches an object that is not alive, a signal during listening asks the HTTP server to stop, and when \<^verbatim>\<open>main\<close> has
  returned every slot ever created has been given back, each channel once and both registrations of each slot.\<close>

theorem server_life_safe:
  assumes "reach life_init (life_step False mx) s"
  shows "\<not> lf_dangling s \<and> (lf_pc s = Listening \<longrightarrow> lf_stop_asked (on_signal s))
    \<and> (lf_pc s = Ended \<longrightarrow> \<not> lf_live s \<and> \<not> lf_g_server s \<and> distinct (snd (lf_given_back s))
         \<and> length (snd (lf_given_back s)) = ps_total (sys_pool (lf_pool s))
         \<and> length (fst (lf_given_back s)) = 2 * ps_total (sys_pool (lf_pool s)))"
proof -
  have inv: "life_inv mx s" by (rule life.reach_inv [OF assms])
  have "length (concat (map (\<lambda>sl. [fst (sl_staging_reg sl), snd (sl_staging_reg sl)]) xs)) = 2 * length xs" for xs
    by (induction xs) auto
  with inv idle_pool [of mx "lf_pool s"] show ?thesis
    by (auto simp: life_inv_def up_phases_def on_signal_def server_stop_def destroy_pool_def)
qed

text \<open>A process from its start to its end, with one interrupt while listening.\<close>

definition demo_life :: server_life where
  "demo_life = \<lparr>lf_pc = Begins, lf_g_server = False, lf_live = False, lf_http_impl = False, lf_on_int = False, lf_on_term = False,
     lf_stop_asked = False, lf_pool = \<lparr>sys_pool = \<lparr>ps_pool = [], ps_total = 0\<rparr>, sys_threads = [Idle]\<rparr>, lf_given_back = ([], []),
     lf_racers = 0, lf_dangling = False\<rparr>"

abbreviation "demo_up \<equiv> demo_life\<lparr>lf_live := True, lf_http_impl := True, lf_on_int := True, lf_on_term := True, lf_g_server := True\<rparr>"

lemma demo_returned: "reach life_init (life_step threads mx) (demo_up\<lparr>lf_pc := Returned\<rparr>)"
proof -
  have 0: "reach life_init (life_step threads mx) demo_life"
    by (rule reach_init) (simp add: life_init_def demo_life_def pool_init_def)
  note 1 = reach_step [OF 0 life_step.constructs]
  note 2 = reach_step [OF 1 life_step.publishes]
  note 3 = reach_step [OF 2 life_step.arms_int]
  note 4 = reach_step [OF 3 life_step.arms_term]
  note 5 = reach_step [OF 4 life_step.listens]
  note 6 = reach_step [OF 5 life_step.returns]
  from 6 show ?thesis by (simp add: demo_life_def server_ctor_def)
qed

theorem server_life_safe_witness:
  "\<exists>s. reach life_init (life_step False 1) s \<and> lf_pc s = Ended \<and> \<not> lf_dangling s \<and> snd (lf_given_back s) = []"
proof -
  note 1 = reach_step [OF demo_returned [of False 1] life_step.clears]
  note 2 = reach_step [OF 1 life_step.destroys]
  let ?s = "(server_dtor (demo_up\<lparr>lf_pc := Cleared, lf_g_server := False\<rparr>))\<lparr>lf_pc := Ended\<rparr>"
  have r: "reach life_init (life_step False 1) ?s" using 2 by (simp add: demo_life_def)
  have "lf_pc ?s = Ended" "ps_total (sys_pool (lf_pool ?s)) = 0" by (simp_all add: demo_life_def server_dtor_def)
  with server_life_safe [OF r] r show ?thesis by auto
qed

text \<open>Handled on another thread, a signal can still reach a destroyed server: between the handler's test of \<^verbatim>\<open>g_server\<close> and its
  call of \<^verbatim>\<open>stop\<close>, \<^verbatim>\<open>main\<close> may clear the pointer and destroy the object.\<close>

lemma signal_race:
  "\<exists>s. reach life_init (life_step True mx) s \<and> lf_pc s = Ended \<and> lf_dangling s"
proof -
  have 1: "reach life_init (life_step True mx) (demo_up\<lparr>lf_pc := Returned, lf_racers := 1\<rparr>)"
    using reach_step [OF demo_returned [of True mx] life_step.tests [of True _ True]] by (simp add: demo_life_def)
  note 2 = reach_step [OF 1 life_step.clears]
  note 3 = reach_step [OF 2 life_step.destroys]
  note 4 = reach_step [OF 3 life_step.calls]
  let ?s = "(server_stop ((server_dtor (demo_up\<lparr>lf_pc := Cleared, lf_g_server := False, lf_racers := 1\<rparr>))\<lparr>lf_pc := Ended\<rparr>))\<lparr>lf_racers := 0\<rparr>"
  have "reach life_init (life_step True mx) ?s" using 4 by (simp add: demo_life_def server_dtor_def)
  moreover have "lf_pc ?s = Ended \<and> lf_dangling ?s" by (simp add: demo_life_def server_dtor_def)
  ultimately show ?thesis by blast
qed

end
