(* ===== verification/Client.thy ===== *)
theory Client
  imports S3_Protocol
begin

text \<open>
  \<^verbatim>\<open>client/s3_client.cpp\<close>, the mode of \<^verbatim>\<open>client/buffers.cpp\<close> and \<^verbatim>\<open>client/main.cpp\<close>: the callback that runs the
  control-plane request, the GET operations around it, option parsing, object discovery, the benchmark
  worker and the final report. The HTTP library and the RDMA SDK are arguments: what a request is
  answered with, and what \<^verbatim>\<open>cuObjGet\<close> returns. Wall-clock times are not modelled.
\<close>

section \<open>The GET callback\<close>

text \<open>What the HTTP client library reports: a status, and for a field name its value if present.\<close>

record http_reply =
  hr_status :: nat
  hr_field :: "string \<Rightarrow> string option"

definition header_value :: "http_reply \<Rightarrow> string \<Rightarrow> string" where
  "header_value res name = (case hr_field res name of None \<Rightarrow> [] | Some v \<Rightarrow> v)"

definition has_header :: "http_reply \<Rightarrow> string \<Rightarrow> bool" where
  "has_header res name \<longleftrightarrow> hr_field res name \<noteq> None"

record get_context =
  gc_host :: string
  gc_port :: int
  gc_path :: string
  gc_range :: string
  gc_proto :: "protocol_options option"

definition callback_request ::
  "(string \<Rightarrow> string option) \<Rightarrow> (string \<Rightarrow> string \<Rightarrow> string option) \<Rightarrow> tm \<Rightarrow> protocol_options \<Rightarrow> get_context \<Rightarrow> string \<Rightarrow>
   (string \<times> header_list) result" where
  "callback_request SHA256 HMAC now proto ctx desc =
     (let token = encode_rdma_token desc (po_token_encoding proto);
          target = control_plane_target proto (gc_path ctx)
      in bind_res (control_plane_headers SHA256 HMAC proto ''GET'' (http_host_header (gc_host ctx) (gc_port ctx))
                     (gc_path ctx) (gc_range ctx) token now)
           (\<lambda>headers. Inr (target,
              headers @ (if token = [] \<and> po_token_encoding proto = Base64 \<and> po_auth proto = AuthNone
                         then [(kHdrRdmaToken, [])] else []))))"

definition callback_reply :: "protocol_options \<Rightarrow> u64 \<Rightarrow> http_reply option \<Rightarrow> int" where
  "callback_reply proto sz res = (case res of
      None \<Rightarrow> -1
    | Some res \<Rightarrow>
        if hr_status res \<noteq> 200 \<and> hr_status res \<noteq> 206 then -1
        else if po_token_encoding proto = Base64 then sint sz
        else
          let reply = parse_rdma_reply (has_header res kHdrRdmaReply) (header_value res kHdrRdmaReply) in
          if rr_kind reply \<noteq> Code \<or> rr_code reply \<noteq> hr_status res then -1
          else
            let declared = parse_rdma_bytes_transferred (has_header res kHdrRdmaBytesTransferred)
                  (header_value res kHdrRdmaBytesTransferred) sz
            in if declared < 0 then -1 else declared)"

text \<open>\<open>ctx\<close> and \<open>desc\<close> are the context and descriptor pointers; \<open>http\<close> performs the request.\<close>

definition get_callback_impl ::
  "(string \<Rightarrow> string option) \<Rightarrow> (string \<Rightarrow> string \<Rightarrow> string option) \<Rightarrow> tm \<Rightarrow>
   (string \<Rightarrow> int \<Rightarrow> string \<Rightarrow> header_list \<Rightarrow> http_reply option) \<Rightarrow>
   get_context option \<Rightarrow> string option \<Rightarrow> u64 \<Rightarrow> int" where
  "get_callback_impl SHA256 HMAC now http ctx desc sz =
     (case (ctx, desc) of
        (Some ctx, Some desc) \<Rightarrow>
          (case gc_proto ctx of
             None \<Rightarrow> -1
           | Some proto \<Rightarrow>
               (case callback_request SHA256 HMAC now proto ctx desc of
                  Inl _ \<Rightarrow> -1
                | Inr (target, headers) \<Rightarrow>
                    callback_reply proto sz (http (gc_host ctx) (gc_port ctx) target headers)))
      | _ \<Rightarrow> -1)"

section \<open>The client object\<close>

record s3_client =
  cl_host :: string
  cl_port :: int
  cl_proto :: protocol_options
  cl_registered :: "nat list"

definition client_context :: "s3_client \<Rightarrow> string \<Rightarrow> string \<Rightarrow> string \<Rightarrow> get_context" where
  "client_context c bucket object rng =
     \<lparr>gc_host = cl_host c, gc_port = cl_port c, gc_path = ''/'' @ bucket @ ''/'' @ object, gc_range = rng,
      gc_proto = Some (cl_proto c)\<rparr>"

text \<open>\<open>cuobj\<close> is \<^verbatim>\<open>cuObjGet\<close>: \<^const>\<open>None\<close> when it throws. A refused registration aborts the process.\<close>

definition get_registered :: "(get_context \<Rightarrow> u64 \<Rightarrow> int option) \<Rightarrow> s3_client \<Rightarrow> u64 \<Rightarrow> string \<Rightarrow> string \<Rightarrow> string \<Rightarrow> int" where
  "get_registered cuobj c sz bucket object rng =
     (case cuobj (client_context c bucket object rng) sz of None \<Rightarrow> -1 | Some n \<Rightarrow> n)"

definition register_buffer :: "bool \<Rightarrow> nat \<Rightarrow> s3_client \<Rightarrow> s3_client option" where
  "register_buffer accepted ptr c = (if accepted then Some (c\<lparr>cl_registered := ptr # cl_registered c\<rparr>) else None)"

definition deregister_buffer :: "nat \<Rightarrow> s3_client \<Rightarrow> s3_client" where
  "deregister_buffer ptr c = c\<lparr>cl_registered := remove1 ptr (cl_registered c)\<rparr>"

definition client_get ::
  "(get_context \<Rightarrow> u64 \<Rightarrow> int option) \<Rightarrow> bool \<Rightarrow> s3_client \<Rightarrow> nat \<Rightarrow> u64 \<Rightarrow> string \<Rightarrow> string \<Rightarrow> string \<Rightarrow>
   (int \<times> s3_client) option" where
  "client_get cuobj accepted c ptr sz bucket object rng =
     (case register_buffer accepted ptr c of
        None \<Rightarrow> None
      | Some c \<Rightarrow> Some (get_registered cuobj c sz bucket object rng, deregister_buffer ptr c))"

section \<open>Options\<close>

datatype buffer_mode = Host | Gpu

definition parse_mode :: "string \<Rightarrow> buffer_mode" where
  "parse_mode s = (if s = ''gpu'' then Gpu else Host)"

record client_args =
  ca_host :: string
  ca_port :: int
  ca_bucket :: string
  ca_out :: string
  ca_mode :: string
  ca_objects :: "string list"
  ca_threads :: int
  ca_duration :: int
  ca_range_size :: u64
  ca_proto :: protocol_options

definition default_args :: client_args where
  "default_args = \<lparr>ca_host = ''127.0.0.1'', ca_port = 8080, ca_bucket = [], ca_out = [], ca_mode = ''host'',
     ca_objects = [], ca_threads = 1, ca_duration = 10, ca_range_size = 0, ca_proto = default_protocol_options\<rparr>"

definition split_csv :: "string \<Rightarrow> string list" where
  "split_csv s = filter (\<lambda>t. t \<noteq> []) (split_on CHR '','' s)"

definition parse_size :: "string \<Rightarrow> u64 option" where
  "parse_size s =
     (if s = [] then None
      else case stoull 10 s of
        None \<Rightarrow> None
      | Some (v, pos) \<Rightarrow>
          let scaled =
            (if pos < length s then
               (let suffix = lower_char (s ! pos) in
                if suffix = CHR ''k'' then Some (v * 1024, pos + 1)
                else if suffix = CHR ''m'' then Some (v * (1024 * 1024), pos + 1)
                else if suffix = CHR ''g'' then Some (v * (1024 * 1024 * 1024), pos + 1)
                else None)
             else Some (v, pos))
          in (case scaled of
                None \<Rightarrow> None
              | Some (v, pos) \<Rightarrow> if pos \<noteq> length s \<or> v = 0 then None else Some v))"

definition parse_int :: "string \<Rightarrow> int option" where
  "parse_int s = (case stol s of
      None \<Rightarrow> None
    | Some (v, pos) \<Rightarrow> if pos \<noteq> length s \<or> v < 0 \<or> 2147483647 < v then None else Some v)"

definition parse_server :: "client_args \<Rightarrow> string \<Rightarrow> client_args option" where
  "parse_server out s = (case find_char CHR '':'' s of
      None \<Rightarrow> None
    | Some c \<Rightarrow>
        (case parse_int (drop (c + 1) s) of
           None \<Rightarrow> None
         | Some p \<Rightarrow> if p \<le> 0 \<or> 65535 < p then None else Some (out\<lparr>ca_host := take c s, ca_port := p\<rparr>)))"

definition at_least_one :: "int option \<Rightarrow> int option" where
  "at_least_one v = (case v of None \<Rightarrow> None | Some n \<Rightarrow> if n < 1 then None else Some n)"

text \<open>\<^verbatim>\<open>next(name)\<close> exits with 2 when the value is missing; a refused value makes \<^verbatim>\<open>parse_args\<close> return
  false and \<^verbatim>\<open>main\<close> exit with 2, \<^verbatim>\<open>--help\<close> with 0.\<close>

definition client_value :: "string list \<Rightarrow> (string \<Rightarrow> client_args option) \<Rightarrow> nat + client_args \<times> string list" where
  "client_value args f = (case args of
      [] \<Rightarrow> Inl 2
    | v # rest \<Rightarrow> (case f v of None \<Rightarrow> Inl 2 | Some c \<Rightarrow> Inr (c, rest)))"

definition client_arg :: "client_args \<Rightarrow> string \<Rightarrow> string list \<Rightarrow> nat + client_args \<times> string list" where
  "client_arg out a args =
     (if a = ''--server'' then client_value args (parse_server out)
      else if a = ''--bucket'' then client_value args (\<lambda>v. Some (out\<lparr>ca_bucket := v\<rparr>))
      else if a = ''--object'' then client_value args (\<lambda>v. Some (out\<lparr>ca_objects := ca_objects out @ [v]\<rparr>))
      else if a = ''--objects'' then client_value args (\<lambda>v. Some (out\<lparr>ca_objects := ca_objects out @ split_csv v\<rparr>))
      else if a = ''--mode'' then client_value args (\<lambda>v. Some (out\<lparr>ca_mode := v\<rparr>))
      else if a = ''--out'' then client_value args (\<lambda>v. Some (out\<lparr>ca_out := v\<rparr>))
      else if a = ''--threads''
      then client_value args (\<lambda>v. map_option (\<lambda>n. out\<lparr>ca_threads := n\<rparr>) (at_least_one (parse_int v)))
      else if a = ''--duration''
      then client_value args (\<lambda>v. map_option (\<lambda>n. out\<lparr>ca_duration := n\<rparr>) (at_least_one (parse_int v)))
      else if a = ''--range-size''
      then client_value args (\<lambda>v. map_option (\<lambda>n. out\<lparr>ca_range_size := n\<rparr>) (parse_size v))
      else if a = ''-h'' \<or> a = ''--help'' then Inl 0
      else
        (case parse_protocol_flag a (case args of [] \<Rightarrow> None | v # _ \<Rightarrow> Some v) (ca_proto out) of
           (f, proto) \<Rightarrow>
             if \<not> pf_matched f then Inl 2
             else if \<not> pf_ok f then Inl 2
             else Inr (out\<lparr>ca_proto := proto\<rparr>, if pf_used_value f then drop 1 args else args)))"

lemma client_value_Inr: "client_value args f = Inr (c, rest) \<longleftrightarrow> (\<exists>v. args = v # rest \<and> f v = Some c)"
  by (cases args) (auto simp: client_value_def split: option.splits)

lemma client_arg_shorter: "client_arg out a args = Inr (out', rest) \<Longrightarrow> length rest \<le> length args"
  by (auto simp: client_arg_def client_value_Inr split: if_splits prod.splits)

function client_arg_loop :: "client_args \<Rightarrow> string list \<Rightarrow> nat + client_args" where
  "client_arg_loop out [] = Inr out"
| "client_arg_loop out (a # args) =
     (case client_arg out a args of
        Inl code \<Rightarrow> Inl code
      | Inr (out', rest) \<Rightarrow> client_arg_loop out' rest)"
  by pat_completeness auto
termination
  by (relation "measure (\<lambda>(out, args). length args)") (auto dest: client_arg_shorter)

definition parse_args :: "(string \<Rightarrow> string option) \<Rightarrow> string list \<Rightarrow> nat + client_args" where
  "parse_args getenv args =
     (case client_arg_loop default_args args of
        Inl code \<Rightarrow> Inl code
      | Inr out \<Rightarrow>
          (case finish_protocol_options getenv (ca_proto out) of
             None \<Rightarrow> Inl 2
           | Some proto \<Rightarrow>
               let out = out\<lparr>ca_proto := proto\<rparr> in
               if ca_bucket out = [] \<or> ca_objects out = [] then Inl 2
               else Inr (if ca_threads out < 1 then out\<lparr>ca_threads := 1\<rparr> else out)))"

section \<open>Discovery\<close>

record obj_desc =
  od_key :: string
  od_size :: u64

definition head_size ::
  "(string \<Rightarrow> string option) \<Rightarrow> (string \<Rightarrow> string \<Rightarrow> string option) \<Rightarrow> tm \<Rightarrow>
   (string \<Rightarrow> int \<Rightarrow> string \<Rightarrow> header_list \<Rightarrow> http_reply option) \<Rightarrow> protocol_options \<Rightarrow> string \<Rightarrow> int \<Rightarrow> string \<Rightarrow> int" where
  "head_size SHA256 HMAC now http proto host port path =
     (case control_plane_headers SHA256 HMAC proto ''HEAD'' (http_host_header host port) path [] [] now of
        Inl _ \<Rightarrow> -1
      | Inr headers \<Rightarrow>
          (case http host port (control_plane_target proto path) headers of
             None \<Rightarrow> -1
           | Some res \<Rightarrow>
               if hr_status res \<noteq> 200 then -1
               else if \<not> has_header res ''Content-Length'' then -1
               else (case stol (header_value res ''Content-Length'') of None \<Rightarrow> -1 | Some (v, _) \<Rightarrow> v)))"

text \<open>\<open>head\<close> is \<^verbatim>\<open>head_size\<close> as a function of the path; \<^const>\<open>None\<close> is the exit with code 1.\<close>

fun discover_objects :: "(string \<Rightarrow> int) \<Rightarrow> string \<Rightarrow> string list \<Rightarrow> obj_desc list \<Rightarrow> u64 \<Rightarrow> (obj_desc list \<times> u64) option" where
  "discover_objects head bucket [] objs max_size = Some (objs, max_size)"
| "discover_objects head bucket (k # ks) objs max_size =
     (let sz = head (''/'' @ bucket @ ''/'' @ k) in
      if sz \<le> 0 then None
      else discover_objects head bucket ks (objs @ [\<lparr>od_key = k, od_size = word_of_int sz\<rparr>]) (max max_size (word_of_int sz)))"

section \<open>The benchmark\<close>

record bench_request =
  bq_key :: string
  bq_size :: u64
  bq_range :: string

record thread_result =
  tr_total_bytes :: int
  tr_iters :: nat
  tr_ok :: bool

definition xfer_request :: "u64 \<Rightarrow> obj_desc \<Rightarrow> bench_request" where
  "xfer_request range_size obj =
     (let xfer_size = (if 0 < range_size then min range_size (od_size obj) else od_size obj);
          range_hdr = (if 0 < range_size then ''bytes=0-'' @ to_string (unat (xfer_size - 1)) else [])
      in \<lparr>bq_key = od_key obj, bq_size = xfer_size, bq_range = range_hdr\<rparr>)"

text \<open>
  The worker of one thread. The list holds what each \<^verbatim>\<open>get_registered\<close> returns until the stop flag is
  seen; the requests it issued are returned with the result.
\<close>

fun worker_loop :: "obj_desc list \<Rightarrow> u64 \<Rightarrow> int list \<Rightarrow> nat \<Rightarrow> thread_result \<Rightarrow> bench_request list \<Rightarrow>
    thread_result \<times> bench_request list" where
  "worker_loop objs range_size [] iter r reqs = (r, reqs)"
| "worker_loop objs range_size (n # ns) iter r reqs =
     (let q = xfer_request range_size (objs ! (iter mod length objs)) in
      if n < 0 then (r\<lparr>tr_ok := False\<rparr>, reqs @ [q])
      else worker_loop objs range_size ns (iter + 1)
             (r\<lparr>tr_total_bytes := tr_total_bytes r + n, tr_iters := iter + 1\<rparr>) (reqs @ [q]))"

definition worker :: "obj_desc list \<Rightarrow> u64 \<Rightarrow> int list \<Rightarrow> thread_result \<times> bench_request list" where
  "worker objs range_size ns =
     worker_loop objs range_size ns 0 \<lparr>tr_total_bytes = 0, tr_iters = 0, tr_ok = True\<rparr> []"

definition report_totals :: "thread_result list \<Rightarrow> int \<times> nat" where
  "report_totals rs = foldl (\<lambda>(total, iters) r.
      if \<not> tr_ok r then (total, iters) else (total + tr_total_bytes r, iters + tr_iters r)) (0, 0) rs"

definition warm_up :: "obj_desc list \<Rightarrow> u64 \<Rightarrow> bench_request list" where
  "warm_up objs range_size = map (xfer_request range_size) objs"

text \<open>One buffer of \<open>max_size\<close> bytes and one client per thread; buffers are named by their thread.\<close>

definition setup_buffers_clients :: "string \<Rightarrow> int \<Rightarrow> protocol_options \<Rightarrow> (nat \<Rightarrow> bool) \<Rightarrow> nat \<Rightarrow> s3_client list option" where
  "setup_buffers_clients host port proto accepted n =
     those (map (\<lambda>t. register_buffer (accepted t) t
       \<lparr>cl_host = host, cl_port = port, cl_proto = proto, cl_registered = []\<rparr>) [0..<n])"

definition run_benchmark :: "obj_desc list \<Rightarrow> u64 \<Rightarrow> (nat \<Rightarrow> int list) \<Rightarrow> nat \<Rightarrow> thread_result list" where
  "run_benchmark objs range_size returns n = map (\<lambda>t. fst (worker objs range_size (returns t))) [0..<n]"

definition cleanup :: "s3_client list \<Rightarrow> s3_client list" where
  "cleanup clients = map (\<lambda>t. deregister_buffer t (clients ! t)) [0..<length clients]"

text \<open>Exit code, and the dump: the object and how many bytes of the buffer are written out.\<close>

definition finish_main :: "client_args \<Rightarrow> obj_desc list \<Rightarrow> thread_result list \<Rightarrow> nat \<times> (obj_desc \<times> u64) option" where
  "finish_main args objs results =
     (if list_ex (\<lambda>r. \<not> tr_ok r) results then (1, None)
      else if ca_out args \<noteq> [] \<and> ca_threads args = 1 \<and> 0 < tr_total_bytes (results ! 0) then
        let last_obj = objs ! ((tr_iters (results ! 0) - 1) mod length objs)
        in (0, Some (last_obj, od_size last_obj))
      else (0, None))"

text \<open>
  The whole run: \<open>head\<close> answers the HEAD requests, \<open>accepted\<close> says which registrations the SDK accepts
  (a refused one aborts, code 134), \<open>returns t\<close> is what the GETs of thread \<open>t\<close> return until the time is up.
\<close>

definition client_main ::
  "(string \<Rightarrow> string option) \<Rightarrow> (client_args \<Rightarrow> string \<Rightarrow> int) \<Rightarrow> (nat \<Rightarrow> bool) \<Rightarrow> (nat \<Rightarrow> int list) \<Rightarrow> string list \<Rightarrow>
   nat \<times> (obj_desc \<times> u64) option" where
  "client_main getenv head accepted returns argv =
     (case parse_args getenv argv of
        Inl code \<Rightarrow> (code, None)
      | Inr args \<Rightarrow>
          (case discover_objects (head args) (ca_bucket args) (ca_objects args) [] 0 of
             None \<Rightarrow> (1, None)
           | Some (objs, max_size) \<Rightarrow>
               (case setup_buffers_clients (ca_host args) (ca_port args) (ca_proto args) accepted (nat (ca_threads args)) of
                  None \<Rightarrow> (134, None)
                | Some clients \<Rightarrow>
                    finish_main args objs (run_benchmark objs (ca_range_size args) returns (nat (ca_threads args))))))"

section \<open>Callback lemmas\<close>

text \<open>What the header fields of a completed verbatim transfer of \<open>n\<close> bytes look like.\<close>

definition verbatim_completion :: "http_reply \<Rightarrow> u64 \<Rightarrow> int \<Rightarrow> bool" where
  "verbatim_completion r sz n \<longleftrightarrow> hr_status r \<in> {200, 206}
     \<and> (case hr_field r kHdrRdmaReply of
          None \<Rightarrow> False
        | Some code \<Rightarrow> list_all is_digit code \<and> dec_value code = hr_status r)
     \<and> (case hr_field r kHdrRdmaBytesTransferred of
          None \<Rightarrow> n = 0
        | Some c \<Rightarrow> list_all is_digit c \<and> dec_value c \<le> min (unat sz) LONG_MAX \<and> n = int (dec_value c))"

lemma callback_reply_verbatim:
  assumes "po_token_encoding proto = Verbatim"
  shows "callback_reply proto sz res = n \<and> 0 \<le> n \<longleftrightarrow> (\<exists>r. res = Some r \<and> verbatim_completion r sz n)"
  using assms
  by (auto simp: callback_reply_def verbatim_completion_def parse_rdma_reply_spec parse_rdma_bytes_transferred_spec
      has_header_def header_value_def Let_def split: option.splits if_splits)

lemma callback_reply_range: "po_token_encoding proto = Verbatim \<Longrightarrow> callback_reply proto sz res = -1 \<or> 0 \<le> callback_reply proto sz res"
  by (auto simp: callback_reply_def Let_def split: option.splits)

lemma verbatim_completion_le: "verbatim_completion r sz n \<Longrightarrow> 0 \<le> n \<and> n \<le> int (unat sz)"
  by (auto simp: verbatim_completion_def simp del: of_nat_unat split: option.splits)

section \<open>Worker lemmas\<close>

lemma worker_loop_spec:
  "worker_loop objs rs ns iter r reqs =
     (let k = length (takeWhile ((\<le>) 0) ns) in
      (r\<lparr>tr_total_bytes := tr_total_bytes r + sum_list (take k ns),
         tr_iters := (if k = 0 then tr_iters r else iter + k), tr_ok := (tr_ok r \<and> k = length ns)\<rparr>,
       reqs @ map (\<lambda>i. xfer_request rs (objs ! (i mod length objs))) [iter..<iter + min (Suc k) (length ns)]))"
proof (induction objs rs ns iter r reqs rule: worker_loop.induct)
  case (1 objs rs iter r reqs)
  then show ?case by simp
next
  case (2 objs rs n ns iter r reqs)
  show ?case
  proof (cases "n < 0")
    case True
    then show ?thesis by (simp add: Let_def)
  next
    case False
    have u: "[iter..<Suc (iter + m)] = iter # [Suc iter..<Suc (iter + m)]" for m by (simp add: upt_conv_Cons)
    show ?thesis using False 2 by (cases ns) (simp_all add: Let_def u upt_rec [of iter "Suc iter"] del: upt_Suc)
  qed
qed

lemma xfer_request_bounds:
  assumes "0 < od_size obj"
  shows "0 < bq_size (xfer_request rs obj)" "bq_size (xfer_request rs obj) \<le> od_size obj"
    "bq_range (xfer_request rs obj) =
       (if 0 < rs then ''bytes='' @ to_string 0 @ ''-'' @ to_string (unat (bq_size (xfer_request rs obj)) - 1) else [])"
proof -
  show b: "0 < bq_size (xfer_request rs obj)" using assms by (simp add: xfer_request_def Let_def min_def)
  show "bq_size (xfer_request rs obj) \<le> od_size obj" using assms by (simp add: xfer_request_def Let_def)
  have z: "to_string 0 = ''0''" by code_simp
  have "1 \<le> bq_size (xfer_request rs obj)" using b by (simp add: word_le_nat_alt word_less_nat_alt)
  then show "bq_range (xfer_request rs obj) =
       (if 0 < rs then ''bytes='' @ to_string 0 @ ''-'' @ to_string (unat (bq_size (xfer_request rs obj)) - 1) else [])"
    using unat_sub_u64 [of 1 "bq_size (xfer_request rs obj)"] by (auto simp: xfer_request_def Let_def z)
qed

section \<open>Discovery lemmas\<close>

lemma discover_objects_spec:
  "discover_objects head bucket ks objs mx = Some (objs', mx') \<Longrightarrow>
   (\<forall>s. head s < 2 ^ 63) \<Longrightarrow> \<forall>ob \<in> set objs. 0 < od_size ob \<and> od_size ob \<le> mx \<Longrightarrow>
   mx \<le> mx' \<and> map od_key objs' = map od_key objs @ ks \<and> (\<forall>ob \<in> set objs'. 0 < od_size ob \<and> od_size ob \<le> mx')"
proof (induction head bucket ks objs mx rule: discover_objects.induct)
  case (1 head bucket objs max_size)
  then show ?case by simp
next
  case (2 head bucket k ks objs mx)
  let ?sz = "head (''/'' @ bucket @ ''/'' @ k)"
  have pos: "0 < ?sz" using "2.prems"(1) by (auto simp: Let_def split: if_splits)
  have "uint (word_of_int ?sz :: u64) = ?sz"
    using pos "2.prems"(2) by (simp add: uint_word_of_int_eq take_bit_int_eq_self order_less_trans [of _ "2 ^ 63"])
  then have w: "0 < (word_of_int ?sz :: u64)" using pos by (simp add: word_less_def)
  have "mx \<le> max mx (word_of_int ?sz) \<and> (\<forall>ob \<in> set (objs @ [\<lparr>od_key = k, od_size = word_of_int ?sz\<rparr>]).
      0 < od_size ob \<and> od_size ob \<le> max mx (word_of_int ?sz))"
    using "2.prems"(3) w by (auto intro: max.coboundedI1)
  with 2 pos show ?case by (force simp: Let_def intro: order_trans)
qed

section \<open>Options\<close>

definition args_sane :: "client_args \<Rightarrow> bool" where
  "args_sane a \<longleftrightarrow> 0 < ca_port a \<and> ca_port a \<le> 65535 \<and> 1 \<le> ca_threads a \<and> ca_threads a \<le> 2147483647
     \<and> 1 \<le> ca_duration a \<and> ca_duration a \<le> 2147483647"

lemma parse_int_bounds: "parse_int s = Some v \<Longrightarrow> 0 \<le> v \<and> v \<le> 2147483647"
  by (auto simp: parse_int_def split: option.splits if_splits)

lemma at_least_one_parse_int: "at_least_one (parse_int s) = Some v \<Longrightarrow> 1 \<le> v \<and> v \<le> 2147483647"
  by (auto simp: at_least_one_def dest: parse_int_bounds split: option.splits if_splits)

lemma parse_server_Some:
  "parse_server out s = Some out' \<Longrightarrow> \<exists>h p. out' = out\<lparr>ca_host := h, ca_port := p\<rparr> \<and> 0 < p \<and> p \<le> 65535"
  by (force simp: parse_server_def split: option.splits if_splits)

lemma client_arg_sane: "client_arg out a args = Inr (out', rest) \<Longrightarrow> args_sane out \<Longrightarrow> args_sane out'"
  by (auto simp: client_arg_def client_value_Inr args_sane_def dest!: at_least_one_parse_int parse_server_Some
      split: if_splits prod.splits)

lemma client_arg_loop_sane: "client_arg_loop out args = Inr out' \<Longrightarrow> args_sane out \<Longrightarrow> args_sane out'"
  by (induction out args rule: client_arg_loop.induct) (auto dest: client_arg_sane split: sum.splits)

lemma parse_args_sane:
  assumes "parse_args getenv argv = Inr args"
  shows "args_sane args" "ca_bucket args \<noteq> []" "ca_objects args \<noteq> []"
proof -
  have "args_sane default_args" by (simp add: args_sane_def default_args_def)
  with assms show "args_sane args" "ca_bucket args \<noteq> []" "ca_objects args \<noteq> []"
    by (auto simp: parse_args_def args_sane_def Let_def dest!: client_arg_loop_sane
        split: sum.splits option.splits if_splits)
qed

section \<open>Registrations\<close>

lemma those_map_Some: "those (map f xs) = Some ys \<longleftrightarrow> (\<forall>x \<in> set xs. f x \<noteq> None) \<and> ys = map (the \<circ> f) xs"
  by (induction xs arbitrary: ys) (auto split: option.splits)

lemma client_get_registrations:
  "client_get cuobj accepted c ptr sz bucket object rng = Some (n, c') \<Longrightarrow> c' = c"
  by (auto simp: client_get_def register_buffer_def deregister_buffer_def split: if_splits)

lemma cleanup_setup:
  assumes "setup_buffers_clients host port proto accepted n = Some clients"
  shows "length clients = n \<and> (\<forall>t < n. cl_registered (clients ! t) = [t])
    \<and> (\<forall>c \<in> set (cleanup clients). cl_registered c = [])"
  using assms
  by (auto simp: setup_buffers_clients_def those_map_Some register_buffer_def cleanup_def deregister_buffer_def
      split: if_splits)

section \<open>Outcome\<close>

lemma discover_objects_None:
  "discover_objects head bucket ks objs mx = None \<longleftrightarrow> (\<exists>k \<in> set ks. head (''/'' @ bucket @ ''/'' @ k) \<le> 0)"
  by (induction head bucket ks objs mx rule: discover_objects.induct) (auto simp: Let_def)

lemma setup_None: "setup_buffers_clients host port proto accepted n = None \<longleftrightarrow> (\<exists>t < n. \<not> accepted t)"
proof -
  have "those (map f xs) = None \<longleftrightarrow> (\<exists>x \<in> set xs. f x = None)" for f :: "nat \<Rightarrow> s3_client option" and xs
    by (induction xs) (auto split: option.splits)
  then show ?thesis by (auto simp: setup_buffers_clients_def register_buffer_def split: if_splits)
qed

lemma worker_ok: "tr_ok (fst (worker objs rs ns)) \<longleftrightarrow> (\<forall>n \<in> set ns. 0 \<le> n)"
proof -
  have "length (takeWhile ((\<le>) 0) ns) = length ns \<longleftrightarrow> takeWhile ((\<le>) 0) ns = ns"
    by (metis takeWhile_eq_take take_all_iff order_refl)
  then show ?thesis by (simp add: worker_def worker_loop_spec Let_def takeWhile_eq_all_conv)
qed

lemma run_benchmark_ok:
  "list_ex (\<lambda>r. \<not> tr_ok r) (run_benchmark objs rs returns n) \<longleftrightarrow> (\<exists>t < n. \<exists>i \<in> set (returns t). i < 0)"
  by (auto simp: run_benchmark_def list_ex_iff worker_ok not_le)

lemma finish_main_ok: "fst (finish_main args objs rs) = 0 \<longleftrightarrow> \<not> list_ex (\<lambda>r. \<not> tr_ok r) rs"
  by (auto simp: finish_main_def Let_def)

text \<open>The totals count the successful threads only.\<close>

lemma report_totals_append:
  "report_totals (rs @ [r]) = (if tr_ok r then (fst (report_totals rs) + tr_total_bytes r, snd (report_totals rs) + tr_iters r)
     else report_totals rs)"
  by (cases "report_totals rs") (auto simp: report_totals_def)

lemma report_totals_sum:
  "report_totals rs = (\<Sum>r\<leftarrow>filter tr_ok rs. tr_total_bytes r, \<Sum>r\<leftarrow>filter tr_ok rs. tr_iters r)"
proof (induction rs rule: rev_induct)
  case Nil
  then show ?case by (simp add: report_totals_def)
next
  case (snoc r rs)
  then show ?case by (simp add: report_totals_append)
qed

text \<open>In range mode the dump still covers the whole object, more than any GET of the run transferred.\<close>

lemma dump_exceeds_range:
  assumes "finish_main args [ob] (run_benchmark [ob] rs returns 1) = (0, Some (last_obj, n))"
    and "0 < rs" and "rs < od_size ob"
  shows "n = od_size ob \<and> (\<forall>q \<in> set (snd (worker [ob] rs (returns 0))). bq_size q = rs \<and> bq_size q < n)"
  using assms
  by (auto simp: finish_main_def Let_def worker_def worker_loop_spec xfer_request_def min_def split: if_splits)

text \<open>The suffix multiplication wraps: a size beyond \<open>2^64\<close> is accepted as its remainder.\<close>

lemma parse_size_wraps: "parse_size ''17179869185g'' = Some (2 ^ 30)"
proof -
  have "stoull 10 (to_string 17179869185 @ ''g'') = Some (word_of_nat 17179869185, length (to_string 17179869185))"
    by (rule stoull_to_string) (simp_all add: is_digit_def)
  moreover have "to_string 17179869185 = ''17179869185''"
    by (simp add: to_string.simps digit_char_def char_of_def bit_0)
  ultimately show ?thesis by (simp add: parse_size_def lower_char_def is_upper_def)
qed

definition demo_tm :: tm where
  "demo_tm = \<lparr>tm_year = 125, tm_mon = 0, tm_mday = 1, tm_hour = 0, tm_min = 0, tm_sec = 0\<rparr>"

section \<open>Properties\<close>

text \<open>The callback of a verbatim GET reports success only for a completed transfer: it returns a count \<open>n\<close>
  exactly when the request could be built and was answered with 200 or 206, the reply field is present and
  is that status in decimal, and the count field is absent (\<open>n = 0\<close>) or is \<open>n\<close> in decimal and fits the
  caller's buffer and a signed long; in every other case it returns -1.\<close>

lemma callback_exact:
  assumes "gc_proto ctx = Some proto" and "po_token_encoding proto = Verbatim" and "0 \<le> n"
  shows "(get_callback_impl SHA256 HMAC now http (Some ctx) (Some desc) sz = n \<longleftrightarrow>
      (\<exists>target headers r. callback_request SHA256 HMAC now proto ctx desc = Inr (target, headers)
         \<and> http (gc_host ctx) (gc_port ctx) target headers = Some r \<and> verbatim_completion r sz n))
    \<and> get_callback_impl SHA256 HMAC now http (Some ctx) (Some desc) sz \<in> {-1..int (unat sz)}"
proof (cases "callback_request SHA256 HMAC now proto ctx desc")
  case (Inl e)
  then show ?thesis using assms by (auto simp: get_callback_impl_def intro: order_trans [of _ 0])
next
  case (Inr p)
  obtain target headers where p: "p = (target, headers)" by force
  let ?res = "http (gc_host ctx) (gc_port ctx) target headers"
  let ?n = "callback_reply proto sz ?res"
  have n: "get_callback_impl SHA256 HMAC now http (Some ctx) (Some desc) sz = ?n"
    using assms(1) Inr p by (simp add: get_callback_impl_def)
  have "0 \<le> ?n \<Longrightarrow> ?n \<le> int (unat sz)"
    using callback_reply_verbatim [OF assms(2), of sz ?res ?n] verbatim_completion_le by blast
  then have "?n \<in> {-1..int (unat sz)}" using callback_reply_range [OF assms(2), of sz ?res] by (auto intro: order_trans [of _ 0])
  with callback_reply_verbatim [OF assms(2), of sz ?res n] assms(3) Inr p n show ?thesis by auto
qed

text \<open>A worker's account is the sum of what its GETs returned: it stops at the first negative return, counts
  exactly the GETs before it, is ok iff there was none, and its i-th request is for object
  \<open>i mod num_objs\<close>, so every object has its turn.\<close>

lemma worker_account:
  "let k = length (takeWhile ((\<le>) 0) ns) in
   worker objs range_size ns =
     (\<lparr>tr_total_bytes = sum_list (take k ns), tr_iters = k, tr_ok = (k = length ns)\<rparr>,
      map (\<lambda>i. xfer_request range_size (objs ! (i mod length objs))) [0..<min (k + 1) (length ns)])"
  by (simp add: worker_def worker_loop_spec Let_def)

text \<open>No request asks for more than the registered buffer: after discovery, every request of the warm-up
  and of a worker names an object found, asks for between 1 and \<open>max_size\<close> bytes and at most the object, and
  in range mode its Range header is read by the server as exactly the first \<open>bq_size\<close> bytes of the
  object.\<close>

lemma requests_fit_buffer:
  assumes "discover_objects head bucket ks [] 0 = Some (objs, max_size)" and "ks \<noteq> []"
    and "\<forall>p. head p < 2 ^ 63"
    and "q \<in> set (warm_up objs range_size) \<union> set (snd (worker objs range_size ns))"
  shows "\<exists>ob \<in> set objs. bq_key q = od_key ob \<and> od_key ob \<in> set ks
    \<and> 0 < bq_size q \<and> bq_size q \<le> od_size ob \<and> od_size ob \<le> max_size
    \<and> (if range_size = 0 then bq_size q = od_size ob \<and> bq_range q = []
       else parse_range (bq_range q) (od_size ob) = \<lparr>br_start = 0, br_end = bq_size q - 1, br_present = True, br_valid = True\<rparr>)"
proof -
  have d: "map od_key objs = ks" "\<forall>ob \<in> set objs. 0 < od_size ob \<and> od_size ob \<le> max_size"
    using discover_objects_spec [OF assms(1,3)] by simp_all
  have "objs \<noteq> []" using d(1) assms(2) by auto
  then have "objs ! (i mod length objs) \<in> set objs" for i by simp
  with assms(4) obtain ob where ob: "ob \<in> set objs" and q: "q = xfer_request range_size ob"
    by (auto simp: warm_up_def worker_def worker_loop_spec Let_def)
  from ob d(2) have sz: "0 < od_size ob" "od_size ob \<le> max_size" by auto
  note b = xfer_request_bounds [OF sz(1), of range_size, folded q]
  have "parse_range (bq_range q) (od_size ob) = \<lparr>br_start = 0, br_end = bq_size q - 1, br_present = True, br_valid = True\<rparr>"
    if "0 < range_size"
  proof -
    have 1: "1 \<le> bq_size q" using b(1) by (simp add: word_le_nat_alt word_less_nat_alt)
    have e: "(word_of_nat (unat (bq_size q) - 1) :: u64) = bq_size q - 1"
      using unat_sub_u64 [OF 1] unat_u64_lt [of "bq_size q"] by (simp add: word_of_nat_eq_u64)
    have "unat (bq_size q) - 1 < unat (od_size ob)" using b(1,2) by (simp add: word_le_nat_alt word_less_nat_alt)
    then show ?thesis
      using parse_range_print [of 0 "unat (bq_size q) - 1" "od_size ob"] b(3) that e unat_u64_lt [of "bq_size q"] by simp
  qed
  moreover have "od_key ob \<in> set ks" using ob d(1) by auto
  moreover have "range_size = 0 \<Longrightarrow> bq_size q = od_size ob \<and> bq_range q = []" by (simp add: q xfer_request_def)
  ultimately show ?thesis
    using ob b sz(2) by (intro bexI [of _ ob]) (auto simp: q xfer_request_def Let_def word_neq_0_conv)
qed



end
