(* ===== verification/Buffers.thy ===== *)
theory Buffers
  imports Client
begin

text \<open>
  \<^verbatim>\<open>client/buffers.cpp\<close> and the life of the client's resources in \<^verbatim>\<open>client/main.cpp\<close>: buffers, client objects and registrations from
  allocation to destruction. What the process asks of CUDA and of the cuObject library is a list of operations in program order;
  \<open>run_ops\<close> is the discipline those libraries demand of a caller, and stops at the first breach. The answers of the libraries
  are arguments: error code and pointer of each allocation, whether a client object opens, the error code of each registration and of the
  device copy.
\<close>

section \<open>Checked calls\<close>

text \<open>\<^verbatim>\<open>CUDA_CHECK\<close> and \<^verbatim>\<open>CUOBJ_CHECK\<close>: an error code other than success aborts the process (\<^const>\<open>None\<close>).\<close>

definition cuda_check :: "int \<Rightarrow> 'a \<Rightarrow> 'a option" where
  "cuda_check err x = (if err \<noteq> 0 then None else Some x)"

definition cuobj_check :: "int \<Rightarrow> 'a \<Rightarrow> 'a option" where
  "cuobj_check err x = (if err \<noteq> 0 then None else Some x)"

section \<open>Buffers\<close>

record buffer =
  bf_mode :: buffer_mode
  bf_size :: u64
  bf_ptr :: u64

datatype mem_op =
    Alloc buffer_mode u64 u64
  | Free buffer_mode u64
  | Open_client nat
  | Close_client nat
  | Register nat u64 u64
  | Deregister nat u64
  | Get_into nat u64 u64
  | Copy_out u64 u64

definition buffer_new :: "int \<times> u64 \<Rightarrow> buffer_mode \<Rightarrow> u64 \<Rightarrow> buffer option" where
  "buffer_new answer mode sz =
     (case answer of (err, ptr) \<Rightarrow>
        if mode = Gpu then cuda_check err \<lparr>bf_mode = Gpu, bf_size = sz, bf_ptr = ptr\<rparr>
        else cuda_check err \<lparr>bf_mode = Host, bf_size = sz, bf_ptr = ptr\<rparr>)"

definition buffer_delete :: "buffer \<Rightarrow> mem_op list" where
  "buffer_delete b =
     (if bf_ptr b = 0 then []
      else if bf_mode b = Gpu then [Free Gpu (bf_ptr b)] else [Free Host (bf_ptr b)])"

text \<open>\<^verbatim>\<open>to_host\<close>: the first \<open>n\<close> bytes of the buffer in memory \<open>mem\<close>; the device copy can fail.\<close>

definition to_host :: "int \<Rightarrow> (u64 \<Rightarrow> char) \<Rightarrow> buffer \<Rightarrow> u64 \<Rightarrow> string option" where
  "to_host err mem b n =
     (let out = map (\<lambda>i. mem (bf_ptr b + word_of_nat i)) [0..<unat n]
      in if bf_mode b = Gpu then cuda_check err out else Some out)"

text \<open>The client object of thread \<open>t\<close>: its constructor opens the RDMA path of the library, which may throw; its destructor closes it.\<close>

definition client_new :: "bool \<Rightarrow> nat \<Rightarrow> mem_op option" where
  "client_new opened t = (if opened then Some (Open_client t) else None)"

definition client_delete :: "nat \<Rightarrow> mem_op" where
  "client_delete t = Close_client t"

section \<open>The client process\<close>

record sdk_answers =
  sa_alloc :: "nat \<Rightarrow> int \<times> u64"
  sa_open :: "nat \<Rightarrow> bool"
  sa_register :: "nat \<Rightarrow> int"
  sa_copy :: int

text \<open>Setup, one thread after the other: the operations, and the buffers unless the process dies in between.\<close>

fun setup_ops :: "sdk_answers \<Rightarrow> buffer_mode \<Rightarrow> u64 \<Rightarrow> nat list \<Rightarrow> mem_op list \<times> buffer list option" where
  "setup_ops sa mode max_size [] = ([], Some [])"
| "setup_ops sa mode max_size (t # ts) =
     (case buffer_new (sa_alloc sa t) mode max_size of
        None \<Rightarrow> ([], None)
      | Some b \<Rightarrow>
          (case client_new (sa_open sa t) t of
             None \<Rightarrow> ([Alloc mode (bf_ptr b) max_size], None)
           | Some opening \<Rightarrow>
               (case cuobj_check (sa_register sa t) (Register t (bf_ptr b) max_size) of
                  None \<Rightarrow> ([Alloc mode (bf_ptr b) max_size, opening], None)
                | Some registration \<Rightarrow>
                    (case setup_ops sa mode max_size ts of
                       (ops, bufs) \<Rightarrow> ([Alloc mode (bf_ptr b) max_size, opening, registration] @ ops,
                                      map_option ((#) b) bufs)))))"

text \<open>GETs are issued by a thread with its own client and buffer; \<open>sched\<close> is the order in which they happen.\<close>

definition get_ops :: "buffer list \<Rightarrow> (nat \<times> bench_request) list \<Rightarrow> mem_op list" where
  "get_ops bufs sched = map (\<lambda>(t, q). Get_into t (bf_ptr (bufs ! t)) (bq_size q)) sched"

definition cleanup_ops :: "buffer list \<Rightarrow> mem_op list" where
  "cleanup_ops bufs = map (\<lambda>t. Deregister t (bf_ptr (bufs ! t))) [0..<length bufs]"

text \<open>The end of \<^verbatim>\<open>main\<close> destroys the tuple that holds buffers and clients, in either order of its members.\<close>

definition destroy_ops :: "bool \<Rightarrow> buffer list \<Rightarrow> mem_op list" where
  "destroy_ops bufs_first bufs =
     (let frees = concat (map buffer_delete bufs); closes = map client_delete [0..<length bufs]
      in if bufs_first then frees @ closes else closes @ frees)"

text \<open>How the process ends: in an abort, or with an exit code and the bytes written to the \<^verbatim>\<open>--out\<close> file.\<close>

datatype process_end = Process_died | Process_exit nat "string option"

text \<open>
  \<^verbatim>\<open>main\<close> after discovery. \<open>returns t\<close> is what the GETs of thread \<open>t\<close> return until the time is up, \<open>sched\<close> the order of all
  GETs of the workers, \<open>mem\<close> the memory when they have ended.
\<close>

definition client_process ::
  "sdk_answers \<Rightarrow> bool \<Rightarrow> client_args \<Rightarrow> obj_desc list \<Rightarrow> u64 \<Rightarrow> (nat \<Rightarrow> int list) \<Rightarrow> (nat \<times> bench_request) list \<Rightarrow>
   (u64 \<Rightarrow> char) \<Rightarrow> mem_op list \<times> process_end" where
  "client_process sa bufs_first args objs max_size returns sched mem =
     (let n = nat (ca_threads args) in
      case setup_ops sa (parse_mode (ca_mode args)) max_size [0..<n] of
        (ops, None) \<Rightarrow> (ops, Process_died)
      | (ops, Some bufs) \<Rightarrow>
          let warm = get_ops bufs (map (Pair 0) (warm_up objs (ca_range_size args)));
              bench = get_ops bufs sched;
              results = run_benchmark objs (ca_range_size args) returns n;
              ops = ops @ warm @ bench @ cleanup_ops bufs
          in (case finish_main args objs results of
                (code, None) \<Rightarrow> (ops @ destroy_ops bufs_first bufs, Process_exit code None)
              | (code, Some (ob, len)) \<Rightarrow>
                  let ops = ops @ [Copy_out (bf_ptr (bufs ! 0)) len]
                  in (case to_host (sa_copy sa) mem (bufs ! 0) len of
                        None \<Rightarrow> (ops, Process_died)
                      | Some host_copy \<Rightarrow> (ops @ destroy_ops bufs_first bufs, Process_exit code (Some host_copy)))))"

text \<open>The workers' requests in some interleaving.\<close>

definition bench_schedule :: "obj_desc list \<Rightarrow> u64 \<Rightarrow> (nat \<Rightarrow> int list) \<Rightarrow> nat \<Rightarrow> (nat \<times> bench_request) list \<Rightarrow> bool" where
  "bench_schedule objs rs returns n sched \<longleftrightarrow> (\<forall>(t, q) \<in> set sched. t < n)
     \<and> (\<forall>t < n. map snd (filter (\<lambda>x. fst x = t) sched) = snd (worker objs rs (returns t)))"

section \<open>The discipline\<close>

record mem_state =
  ms_alloc :: "u64 \<rightharpoonup> buffer_mode \<times> u64"
  ms_clients :: "nat set"
  ms_regs :: "nat \<times> u64 \<rightharpoonup> u64"

definition no_memory :: mem_state where
  "no_memory = \<lparr>ms_alloc = Map.empty, ms_clients = {}, ms_regs = Map.empty\<rparr>"

definition registered_ptr :: "mem_state \<Rightarrow> u64 \<Rightarrow> bool" where
  "registered_ptr s p \<longleftrightarrow> (\<exists>t. ms_regs s (t, p) \<noteq> None)"

text \<open>
  Memory is freed once, by the call that matches its allocation, and not while it is registered; a client object is closed once, with
  no registration left; a GET goes into registered memory and asks for no more than was registered; a copy stays inside the allocation.
\<close>

fun mem_step :: "mem_op \<Rightarrow> mem_state \<Rightarrow> mem_state option" where
  "mem_step (Alloc m p sz) s = (if p = 0 \<or> ms_alloc s p \<noteq> None then None else Some (s\<lparr>ms_alloc := (ms_alloc s)(p \<mapsto> (m, sz))\<rparr>))"
| "mem_step (Free m p) s =
     (case ms_alloc s p of
        None \<Rightarrow> None
      | Some (m', sz) \<Rightarrow> if m' \<noteq> m \<or> registered_ptr s p then None else Some (s\<lparr>ms_alloc := (ms_alloc s)(p := None)\<rparr>))"
| "mem_step (Open_client t) s = (if t \<in> ms_clients s then None else Some (s\<lparr>ms_clients := insert t (ms_clients s)\<rparr>))"
| "mem_step (Close_client t) s =
     (if t \<notin> ms_clients s \<or> (\<exists>p. ms_regs s (t, p) \<noteq> None) then None else Some (s\<lparr>ms_clients := ms_clients s - {t}\<rparr>))"
| "mem_step (Register t p sz) s =
     (case ms_alloc s p of
        None \<Rightarrow> None
      | Some (m, n) \<Rightarrow>
          if t \<notin> ms_clients s \<or> n < sz \<or> ms_regs s (t, p) \<noteq> None then None else Some (s\<lparr>ms_regs := (ms_regs s)((t, p) \<mapsto> sz)\<rparr>))"
| "mem_step (Deregister t p) s =
     (if t \<notin> ms_clients s \<or> ms_regs s (t, p) = None then None else Some (s\<lparr>ms_regs := (ms_regs s)((t, p) := None)\<rparr>))"
| "mem_step (Get_into t p sz) s =
     (case ms_regs s (t, p) of None \<Rightarrow> None | Some n \<Rightarrow> if t \<notin> ms_clients s \<or> n < sz then None else Some s)"
| "mem_step (Copy_out p sz) s = (case ms_alloc s p of None \<Rightarrow> None | Some (m, n) \<Rightarrow> if n < sz then None else Some s)"

fun run_ops :: "mem_op list \<Rightarrow> mem_state \<Rightarrow> mem_state option" where
  "run_ops [] s = Some s"
| "run_ops (x # xs) s = Option.bind (mem_step x s) (run_ops xs)"

lemma run_ops_append: "run_ops (xs @ ys) s = Option.bind (run_ops xs s) (run_ops ys)"
  by (induction xs arbitrary: s) (auto split: Option.bind_splits)

section \<open>Resources by thread\<close>

text \<open>Documented behaviour of the allocators: successful allocations are not null and do not coincide.\<close>

definition pointers_ok :: "sdk_answers \<Rightarrow> nat \<Rightarrow> bool" where
  "pointers_ok sa n \<longleftrightarrow> (\<forall>t < n. fst (sa_alloc sa t) = 0 \<longrightarrow> snd (sa_alloc sa t) \<noteq> 0
     \<and> (\<forall>u < t. fst (sa_alloc sa u) = 0 \<longrightarrow> snd (sa_alloc sa u) \<noteq> snd (sa_alloc sa t)))"

abbreviation ptr_of :: "sdk_answers \<Rightarrow> nat \<Rightarrow> u64" where
  "ptr_of sa t \<equiv> snd (sa_alloc sa t)"

text \<open>The memory when the threads in \<open>A\<close> have their buffer, those in \<open>C\<close> their client, those in \<open>R\<close> their registration.\<close>

definition holding :: "sdk_answers \<Rightarrow> buffer_mode \<Rightarrow> u64 \<Rightarrow> nat set \<Rightarrow> nat set \<Rightarrow> nat set \<Rightarrow> mem_state" where
  "holding sa m sz A C R = \<lparr>ms_alloc = (\<lambda>p. if p \<in> ptr_of sa ` A then Some (m, sz) else None), ms_clients = C,
     ms_regs = (\<lambda>(t, p). if t \<in> R \<and> p = ptr_of sa t then Some sz else None)\<rparr>"

lemma holding_empty: "holding sa m sz {} {} {} = no_memory"
  by (auto simp: holding_def no_memory_def)

lemma holding_alloc:
  "ptr_of sa t \<noteq> 0 \<Longrightarrow> ptr_of sa t \<notin> ptr_of sa ` A \<Longrightarrow>
   mem_step (Alloc m (ptr_of sa t) sz) (holding sa m sz A C R) = Some (holding sa m sz (insert t A) C R)"
  by (auto simp: holding_def)

lemma holding_open: "t \<notin> C \<Longrightarrow> mem_step (Open_client t) (holding sa m sz A C R) = Some (holding sa m sz A (insert t C) R)"
  by (simp add: holding_def)

lemma holding_register:
  "t \<in> A \<Longrightarrow> t \<in> C \<Longrightarrow> t \<notin> R \<Longrightarrow>
   mem_step (Register t (ptr_of sa t) sz) (holding sa m sz A C R) = Some (holding sa m sz A C (insert t R))"
  by (auto simp: holding_def fun_eq_iff)

lemma holding_deregister:
  "t \<in> C \<Longrightarrow> t \<in> R \<Longrightarrow> mem_step (Deregister t (ptr_of sa t)) (holding sa m sz A C R) = Some (holding sa m sz A C (R - {t}))"
  by (auto simp: holding_def fun_eq_iff)

lemma holding_get:
  "t \<in> C \<Longrightarrow> t \<in> R \<Longrightarrow> n \<le> sz \<Longrightarrow> mem_step (Get_into t (ptr_of sa t) n) (holding sa m sz A C R) = Some (holding sa m sz A C R)"
  by (auto simp: holding_def not_less [symmetric])

lemma holding_copy:
  "t \<in> A \<Longrightarrow> n \<le> sz \<Longrightarrow> mem_step (Copy_out (ptr_of sa t) n) (holding sa m sz A C R) = Some (holding sa m sz A C R)"
  by (auto simp: holding_def not_less [symmetric])

lemma holding_free:
  "t \<in> A \<Longrightarrow> inj_on (ptr_of sa) A \<Longrightarrow>
   mem_step (Free m (ptr_of sa t)) (holding sa m sz A C {}) = Some (holding sa m sz (A - {t}) C {})"
  by (auto simp: holding_def registered_ptr_def fun_eq_iff inj_on_def)

lemma holding_close:
  "t \<in> C \<Longrightarrow> t \<notin> R \<Longrightarrow> mem_step (Close_client t) (holding sa m sz A C R) = Some (holding sa m sz A (C - {t}) R)"
  by (simp add: holding_def)

declare mem_step.simps [simp del]

section \<open>Phases\<close>

definition made_buffers :: "sdk_answers \<Rightarrow> buffer_mode \<Rightarrow> u64 \<Rightarrow> nat list \<Rightarrow> buffer list" where
  "made_buffers sa m sz ts = map (\<lambda>t. \<lparr>bf_mode = m, bf_size = sz, bf_ptr = ptr_of sa t\<rparr>) ts"

lemma buffer_new_eq: "buffer_new ans m sz = (if fst ans = 0 then Some \<lparr>bf_mode = m, bf_size = sz, bf_ptr = snd ans\<rparr> else None)"
  by (cases m) (auto simp: buffer_new_def cuda_check_def split: prod.splits)

lemma buffer_new_Some: "buffer_new ans m sz = Some b \<longleftrightarrow> fst ans = 0 \<and> b = \<lparr>bf_mode = m, bf_size = sz, bf_ptr = snd ans\<rparr>"
  by (auto simp: buffer_new_eq)

definition setup_good :: "sdk_answers \<Rightarrow> nat \<Rightarrow> bool" where
  "setup_good sa t \<longleftrightarrow> fst (sa_alloc sa t) = 0 \<and> sa_open sa t \<and> sa_register sa t = 0"

lemma setup_bufs: "snd (setup_ops sa m sz ts) = (if \<forall>t \<in> set ts. setup_good sa t then Some (made_buffers sa m sz ts) else None)"
proof (induction ts)
  case Nil
  then show ?case by (simp add: made_buffers_def)
next
  case (Cons t ts)
  then show ?case
    by (cases "setup_ops sa m sz ts") (auto simp: setup_good_def made_buffers_def cuobj_check_def client_new_def buffer_new_eq)
qed

lemma setup_legal:
  assumes "pointers_ok sa n" "\<forall>t < k. setup_good sa t" "k \<le> n"
  shows "\<exists>s. run_ops (fst (setup_ops sa m sz [k..<n])) (holding sa m sz {..<k} {..<k} {..<k}) = Some s
    \<and> (snd (setup_ops sa m sz [k..<n]) \<noteq> None \<longrightarrow> s = holding sa m sz {..<n} {..<n} {..<n})"
  using assms
proof (induction "n - k" arbitrary: k)
  case 0
  then show ?case by simp
next
  case (Suc d)
  then have k: "k < n" "[k..<n] = k # [Suc k..<n]" by (simp_all add: upt_conv_Cons)
  show ?case
  proof (cases "buffer_new (sa_alloc sa k) m sz")
    case None
    then show ?thesis by (simp add: k(2))
  next
    case (Some b)
    then have ok: "fst (sa_alloc sa k) = 0" and b: "bf_ptr b = ptr_of sa k" by (simp_all add: buffer_new_Some)
    have fresh: "ptr_of sa k \<noteq> 0" "ptr_of sa k \<notin> ptr_of sa ` {..<k}"
      using Suc.prems(1,2) k(1) ok by (fastforce simp: pointers_ok_def setup_good_def)+
    note steps = holding_alloc [OF fresh] holding_open [of k "{..<k}"] holding_register [of k "insert k {..<k}" "insert k {..<k}" "{..<k}"]
    show ?thesis
    proof (cases "sa_open sa k \<and> sa_register sa k = 0")
      case False
      then show ?thesis using Some steps by (auto simp: k(2) b cuobj_check_def client_new_def)
    next
      case True
      have "\<forall>t < Suc k. setup_good sa t" using Suc.prems(2) True ok by (auto simp: less_Suc_eq setup_good_def)
      moreover have "d = n - Suc k" "Suc k \<le> n" using Suc.hyps(2) k(1) by simp_all
      ultimately obtain s where s: "run_ops (fst (setup_ops sa m sz [Suc k..<n])) (holding sa m sz {..<Suc k} {..<Suc k} {..<Suc k}) = Some s"
        "snd (setup_ops sa m sz [Suc k..<n]) \<noteq> None \<longrightarrow> s = holding sa m sz {..<n} {..<n} {..<n}"
        using Suc.hyps(1) [OF _ Suc.prems(1)] by blast
      then show ?thesis using True Some steps by (auto simp: k(2) b cuobj_check_def client_new_def lessThan_Suc split: prod.splits)
    qed
  qed
qed

lemma made_buffers_simps [simp]:
  "length (made_buffers sa m sz ts) = length ts"
  "i < length ts \<Longrightarrow> made_buffers sa m sz ts ! i = \<lparr>bf_mode = m, bf_size = sz, bf_ptr = ptr_of sa (ts ! i)\<rparr>"
  by (simp_all add: made_buffers_def)

lemma gets_legal:
  assumes "\<forall>(t, q) \<in> set sched. t < n \<and> bq_size q \<le> sz"
  shows "run_ops (get_ops (made_buffers sa m sz [0..<n]) sched) (holding sa m sz A {..<n} {..<n}) = Some (holding sa m sz A {..<n} {..<n})"
  using assms by (induction sched) (auto simp: get_ops_def holding_get)

lemma deregister_legal:
  "k \<le> n \<Longrightarrow> run_ops (map (\<lambda>t. Deregister t (ptr_of sa t)) [k..<n]) (holding sa m sz A {..<n} {k..<n}) = Some (holding sa m sz A {..<n} {})"
proof (induction "n - k" arbitrary: k)
  case (Suc d)
  then have k: "k < n" "[k..<n] = k # [Suc k..<n]" "d = n - Suc k" by (simp_all add: upt_conv_Cons)
  moreover have "{k..<n} - {k} = {Suc k..<n}" by auto
  ultimately show ?case using Suc.hyps(1) [of "Suc k"] by (simp add: holding_deregister)
qed simp

lemma cleanup_legal:
  "run_ops (cleanup_ops (made_buffers sa m sz [0..<n])) (holding sa m sz A {..<n} {..<n}) = Some (holding sa m sz A {..<n} {})"
proof -
  have "cleanup_ops (made_buffers sa m sz [0..<n]) = map (\<lambda>t. Deregister t (ptr_of sa t)) [0..<n]"
    by (auto simp: cleanup_ops_def)
  then show ?thesis using deregister_legal [of 0 n sa m sz A] by (simp add: lessThan_atLeast0)
qed

lemma closes_legal:
  "k \<le> n \<Longrightarrow> run_ops (map client_delete [k..<n]) (holding sa m sz A {k..<n} {}) = Some (holding sa m sz A {} {})"
proof (induction "n - k" arbitrary: k)
  case (Suc d)
  then have k: "k < n" "[k..<n] = k # [Suc k..<n]" "d = n - Suc k" by (simp_all add: upt_conv_Cons)
  moreover have "{k..<n} - {k} = {Suc k..<n}" by auto
  ultimately show ?case using Suc.hyps(1) [of "Suc k"] by (simp add: client_delete_def holding_close)
qed simp

lemma frees_legal:
  assumes "inj_on (ptr_of sa) {..<n}" "\<forall>t < n. ptr_of sa t \<noteq> 0" "k \<le> n"
  shows "run_ops (concat (map buffer_delete (made_buffers sa m sz [k..<n]))) (holding sa m sz {k..<n} C {}) = Some (holding sa m sz {} C {})"
  using assms(3)
proof (induction "n - k" arbitrary: k)
  case (Suc d)
  then have k: "k < n" "[k..<n] = k # [Suc k..<n]" "d = n - Suc k" by (simp_all add: upt_conv_Cons)
  moreover have "{k..<n} - {k} = {Suc k..<n}" by auto
  moreover have "buffer_delete \<lparr>bf_mode = m, bf_size = sz, bf_ptr = ptr_of sa k\<rparr> = [Free m (ptr_of sa k)]"
    using assms(2) k(1) by (cases m) (auto simp: buffer_delete_def)
  moreover have "inj_on (ptr_of sa) {k..<n}" using assms(1) by (rule inj_on_subset) auto
  ultimately show ?case using Suc.hyps(1) [of "Suc k"] by (simp add: made_buffers_def holding_free)
qed (simp add: made_buffers_def)

lemma destroy_legal:
  assumes "inj_on (ptr_of sa) {..<n}" "\<forall>t < n. ptr_of sa t \<noteq> 0"
  shows "run_ops (destroy_ops bufs_first (made_buffers sa m sz [0..<n])) (holding sa m sz {..<n} {..<n} {}) = Some no_memory"
  using frees_legal [OF assms, of 0 m sz] closes_legal [of 0 n sa m sz]
  by (simp add: destroy_ops_def Let_def run_ops_append lessThan_atLeast0 holding_empty)

lemma pointers_ok_inj: "pointers_ok sa n \<Longrightarrow> \<forall>t < n. setup_good sa t \<Longrightarrow> inj_on (ptr_of sa) {..<n} \<and> (\<forall>t < n. ptr_of sa t \<noteq> 0)"
  by (auto simp: pointers_ok_def setup_good_def inj_on_def) (metis nat_neq_iff)

lemma schedule_fits:
  assumes "discover_objects head bucket ks [] 0 = Some (objs, max_size)" "ks \<noteq> []" "\<forall>p. head p < 2 ^ 63"
    and "bench_schedule objs rs returns n sched"
  shows "\<forall>(t, q) \<in> set sched. t < n \<and> bq_size q \<le> max_size" "\<forall>q \<in> set (warm_up objs rs). bq_size q \<le> max_size"
    "\<forall>ob \<in> set objs. od_size ob \<le> max_size" "objs \<noteq> []"
proof -
  have fit: "bq_size q \<le> max_size" if "q \<in> set (warm_up objs rs) \<union> set (snd (worker objs rs ns))" for q ns
    using requests_fit_buffer [OF assms(1-3) that] by (auto intro: order_trans)
  then show "\<forall>q \<in> set (warm_up objs rs). bq_size q \<le> max_size" by blast
  show "\<forall>(t, q) \<in> set sched. t < n \<and> bq_size q \<le> max_size"
  proof clarify
    fix t q
    assume q: "(t, q) \<in> set sched"
    then have t: "t < n" using assms(4) by (auto simp: bench_schedule_def)
    have "q \<in> set (map snd (filter (\<lambda>x. fst x = t) sched))" using q by force
    with t assms(4) fit show "t < n \<and> bq_size q \<le> max_size" by (auto simp: bench_schedule_def)
  qed
  show "\<forall>ob \<in> set objs. od_size ob \<le> max_size" "objs \<noteq> []"
    using discover_objects_spec [OF assms(1,3)] assms(2) by auto
qed

lemma dump_fits:
  "finish_main args objs rs = (code, Some (ob, len)) \<Longrightarrow> objs \<noteq> [] \<Longrightarrow> \<forall>ob \<in> set objs. od_size ob \<le> m \<Longrightarrow> len \<le> m"
  by (auto simp: finish_main_def Let_def split: if_splits)

lemma no_dump: "ca_out args = [] \<Longrightarrow> \<exists>code. finish_main args objs rs = (code, None)"
  by (simp add: finish_main_def)

lemma setup_runs:
  assumes "pointers_ok sa n" "setup_ops sa m sz [0..<n] = (ops, bufs)"
  obtains s where "run_ops ops no_memory = Some s"
    "bufs \<noteq> None \<Longrightarrow> s = holding sa m sz {..<n} {..<n} {..<n} \<and> bufs = Some (made_buffers sa m sz [0..<n]) \<and> (\<forall>t < n. setup_good sa t)"
proof -
  have e: "holding sa m sz {..<0} {..<0} {..<0} = no_memory" by (simp add: holding_empty)
  from setup_legal [of sa n 0 m sz, unfolded assms(2) e] assms(1) obtain s where s: "run_ops ops no_memory = Some s"
    "bufs \<noteq> None \<longrightarrow> s = holding sa m sz {..<n} {..<n} {..<n}" by auto
  show thesis
  proof (rule that [OF s(1)])
    assume "bufs \<noteq> None"
    then show "s = holding sa m sz {..<n} {..<n} {..<n} \<and> bufs = Some (made_buffers sa m sz [0..<n]) \<and> (\<forall>t < n. setup_good sa t)"
      using s(2) setup_bufs [of sa m sz "[0..<n]"] assms(2) by (simp split: if_splits)
  qed
qed

lemma phases_legal:
  assumes "setup_ops sa m sz [0..<n] = (ops, Some bs)" "pointers_ok sa n"
    and "\<forall>(t, q) \<in> set gets. t < n \<and> bq_size q \<le> sz"
  shows "run_ops (ops @ get_ops bs gets @ cleanup_ops bs) no_memory = Some (holding sa m sz {..<n} {..<n} {})"
    and "run_ops (destroy_ops bufs_first bs) (holding sa m sz {..<n} {..<n} {}) = Some no_memory"
    and "bs = made_buffers sa m sz [0..<n]"
proof -
  obtain s where s: "run_ops ops no_memory = Some s" "s = holding sa m sz {..<n} {..<n} {..<n}"
    and bs: "bs = made_buffers sa m sz [0..<n]" and good: "\<forall>t < n. setup_good sa t"
    using setup_runs [OF assms(2,1)] by auto
  then show "run_ops (ops @ get_ops bs gets @ cleanup_ops bs) no_memory = Some (holding sa m sz {..<n} {..<n} {})"
    using gets_legal [OF assms(3)] cleanup_legal [of sa m sz n "{..<n}"] by (simp add: run_ops_append)
  show "run_ops (destroy_ops bufs_first bs) (holding sa m sz {..<n} {..<n} {}) = Some no_memory"
    unfolding bs using pointers_ok_inj [OF assms(2) good] by (intro destroy_legal) auto
  show "bs = made_buffers sa m sz [0..<n]" by (fact bs)
qed

section \<open>The end of the process\<close>

text \<open>The process ends as \<open>client_main\<close> says, with a setup that needs every allocation, client and registration.\<close>

lemma client_process_exit:
  assumes "parse_args getenv argv = Inr args" "discover_objects (head args) (ca_bucket args) (ca_objects args) [] 0 = Some (objs, max_size)"
    and "snd (client_process sa bufs_first args objs max_size returns sched mem) = Process_exit code out"
  shows "code = fst (client_main getenv head (setup_good sa) returns argv)"
proof -
  have "snd (setup_ops sa (parse_mode (ca_mode args)) max_size [0..<nat (ca_threads args)]) \<noteq> None"
    using assms(3) by (auto simp: client_process_def Let_def split: prod.splits option.splits)
  then have "\<forall>t < nat (ca_threads args). setup_good sa t" by (auto simp: setup_bufs split: if_splits)
  then obtain clients where "setup_buffers_clients (ca_host args) (ca_port args) (ca_proto args) (setup_good sa) (nat (ca_threads args)) = Some clients"
    using setup_None [of "ca_host args" "ca_port args" "ca_proto args" "setup_good sa" "nat (ca_threads args)"] by auto
  with assms show ?thesis by (auto simp: client_main_def client_process_def Let_def split: prod.splits option.splits)
qed

text \<open>A dump happens only after a run of one thread without failure, and is about the object of its last GET.\<close>

lemma dump_last:
  assumes "finish_main args objs (run_benchmark objs rs returns (nat (ca_threads args))) = (code, Some (ob, len))"
  shows "ca_threads args = 1 \<and> len = od_size ob \<and> snd (worker objs rs (returns 0)) \<noteq> []
    \<and> last (snd (worker objs rs (returns 0))) = xfer_request rs ob"
proof -
  have t: "ca_threads args = 1" and ok: "tr_ok (fst (worker objs rs (returns 0)))"
    and pos: "0 < tr_total_bytes (fst (worker objs rs (returns 0)))"
    and ob: "ob = objs ! ((tr_iters (fst (worker objs rs (returns 0))) - 1) mod length objs)" "len = od_size ob"
    using assms by (auto simp: finish_main_def run_benchmark_def Let_def split: if_splits)
  let ?k = "length (takeWhile ((\<le>) 0) (returns 0))"
  have w: "worker objs rs (returns 0) = (\<lparr>tr_total_bytes = sum_list (take ?k (returns 0)), tr_iters = ?k, tr_ok = (?k = length (returns 0))\<rparr>,
      map (\<lambda>i. xfer_request rs (objs ! (i mod length objs))) [0..<min (?k + 1) (length (returns 0))])"
    using worker_account [of "returns 0" objs rs] by (simp add: Let_def)
  have k: "?k = length (returns 0)" "0 < ?k" using ok pos unfolding w by auto
  show ?thesis unfolding w using t ob(2) k by (auto simp: ob(1) w last_map)
qed

lemma process_dump:
  assumes "client_process sa bufs_first args objs max_size returns sched mem = (ops, Process_exit code (Some out))"
  obtains ob where "finish_main args objs (run_benchmark objs (ca_range_size args) returns (nat (ca_threads args))) = (code, Some (ob, od_size ob))"
    "setup_good sa 0" "out = map (\<lambda>i. mem (ptr_of sa 0 + word_of_nat i)) [0..<unat (od_size ob)]"
proof -
  let ?n = "nat (ca_threads args)"
  obtain ops' bs where su: "setup_ops sa (parse_mode (ca_mode args)) max_size [0..<?n] = (ops', Some bs)"
    using assms by (cases "setup_ops sa (parse_mode (ca_mode args)) max_size [0..<?n]"; cases "snd (setup_ops sa (parse_mode (ca_mode args)) max_size [0..<?n])")
      (auto simp: client_process_def Let_def)
  obtain ob len where f: "finish_main args objs (run_benchmark objs (ca_range_size args) returns ?n) = (code, Some (ob, len))"
    and h: "to_host (sa_copy sa) mem (bs ! 0) len = Some out"
    using assms su by (auto simp: client_process_def Let_def split: prod.splits option.splits)
  have d: "ca_threads args = 1" "len = od_size ob" using dump_last [OF f] by auto
  have bs: "bs = made_buffers sa (parse_mode (ca_mode args)) max_size [0..<?n]" "setup_good sa 0"
    using setup_bufs [of sa "parse_mode (ca_mode args)" max_size "[0..<?n]"] su d(1) by (auto split: if_splits)
  show thesis
  proof (rule that)
    show "finish_main args objs (run_benchmark objs (ca_range_size args) returns ?n) = (code, Some (ob, od_size ob))" using f d(2) by simp
    show "setup_good sa 0" by (fact bs(2))
    show "out = map (\<lambda>i. mem (ptr_of sa 0 + word_of_nat i)) [0..<unat (od_size ob)]"
      using h d by (auto simp: to_host_def cuda_check_def Let_def bs(1) split: if_splits)
  qed
qed

section \<open>Properties\<close>

text \<open>C7. The client keeps the discipline of the libraries it uses, and leaks nothing. Whatever the libraries answer, whatever the
  GETs return and however the threads interleave, every operation of the process is legal: each buffer is freed once, with the call
  that matches its allocation and after its registration is gone, each client object is closed once, each GET asks for no more than is
  registered, the dump reads inside its buffer; and when \<^verbatim>\<open>main\<close> returns, all buffers, clients and registrations are gone,
  whichever member of the tuple is destroyed first.\<close>

theorem client_memory_safe:
  assumes "discover_objects head bucket ks [] 0 = Some (objs, max_size)" "ks \<noteq> []" "\<forall>p. head p < 2 ^ 63"
    and "pointers_ok sa (nat (ca_threads args))" "1 \<le> ca_threads args"
    and "bench_schedule objs (ca_range_size args) returns (nat (ca_threads args)) sched"
    and "client_process sa bufs_first args objs max_size returns sched mem = (ops, res)"
  shows "\<exists>s. run_ops ops no_memory = Some s \<and> (res \<noteq> Process_died \<longrightarrow> s = no_memory)"
proof -
  let ?n = "nat (ca_threads args)" and ?m = "parse_mode (ca_mode args)"
  obtain sops bufs where su: "setup_ops sa ?m max_size [0..<?n] = (sops, bufs)" by force
  show ?thesis
  proof (cases bufs)
    case None
    then show ?thesis using assms(7) su setup_runs [OF assms(4) su] by (auto simp: client_process_def Let_def)
  next
    case (Some bs)
    note fit = schedule_fits [OF assms(1-3,6)]
    let ?gets = "map (Pair 0) (warm_up objs (ca_range_size args)) @ sched"
    let ?held = "holding sa ?m max_size {..<?n} {..<?n} {}"
    define pre where "pre = sops @ get_ops bs ?gets @ cleanup_ops bs"
    have "\<forall>(t, q) \<in> set ?gets. t < ?n \<and> bq_size q \<le> max_size" using fit(1,2) assms(5) by auto
    note legal = phases_legal [OF su [unfolded Some] assms(4) this, folded pre_def]
    obtain code dump where f: "finish_main args objs (run_benchmark objs (ca_range_size args) returns ?n) = (code, dump)" by force
    show ?thesis
    proof (cases dump)
      case None
      then have "ops = pre @ destroy_ops bufs_first bs" using assms(7) su Some f by (simp add: client_process_def Let_def pre_def get_ops_def)
      then show ?thesis using legal(1,2) by (simp add: run_ops_append)
    next
      case (Some d)
      then obtain ob len where d: "dump = Some (ob, len)" by (cases d) auto
      have "len \<le> max_size" using dump_fits f d fit(3,4) by blast
      then have copy: "mem_step (Copy_out (bf_ptr (bs ! 0)) len) ?held = Some ?held"
        using assms(5) by (simp add: legal(3) holding_copy)
      have "ops = pre @ [Copy_out (bf_ptr (bs ! 0)) len] \<and> res = Process_died
          \<or> ops = pre @ [Copy_out (bf_ptr (bs ! 0)) len] @ destroy_ops bufs_first bs"
        using assms(7) su \<open>bufs = Some bs\<close> f d by (auto simp: client_process_def Let_def pre_def get_ops_def split: option.splits)
      then show ?thesis using legal(1,2) copy by (auto simp: run_ops_append)
    qed
  qed
qed

theorem client_memory_safe_witness:
  "run_ops (fst (client_process \<lparr>sa_alloc = (\<lambda>t. (0, word_of_nat t + 1)), sa_open = (\<lambda>_. True), sa_register = (\<lambda>_. 0), sa_copy = 0\<rparr> True
     (default_args\<lparr>ca_threads := 2\<rparr>) [\<lparr>od_key = ''k'', od_size = 5\<rparr>] 5 (\<lambda>_. []) [] (\<lambda>_. NUL))) no_memory = Some no_memory"
proof -
  let ?sa = "\<lparr>sa_alloc = (\<lambda>t. (0, word_of_nat t + 1)), sa_open = (\<lambda>_. True), sa_register = (\<lambda>_. 0), sa_copy = 0\<rparr> :: sdk_answers"
  let ?args = "default_args\<lparr>ca_threads := 2\<rparr>" and ?objs = "[\<lparr>od_key = ''k'', od_size = 5\<rparr>] :: obj_desc list"
  have d: "discover_objects (\<lambda>_. 5) ''b'' [''k''] [] 0 = Some (?objs, 5)" by (simp add: Let_def)
  have p: "pointers_ok ?sa (nat (ca_threads ?args))" by (auto simp: pointers_ok_def less_Suc_eq numeral_2_eq_2)
  have b: "bench_schedule ?objs (ca_range_size ?args) (\<lambda>_. []) (nat (ca_threads ?args)) []"
    by (simp add: bench_schedule_def worker_def)
  obtain ops res where c: "client_process ?sa True ?args ?objs 5 (\<lambda>_. []) [] (\<lambda>_. NUL) = (ops, res)" by force
  have "snd (setup_ops ?sa (parse_mode (ca_mode ?args)) 5 [0..<nat (ca_threads ?args)]) \<noteq> None" by (simp add: setup_bufs setup_good_def)
  then obtain sops bs where su: "setup_ops ?sa (parse_mode (ca_mode ?args)) 5 [0..<nat (ca_threads ?args)] = (sops, Some bs)"
    by (metis option.exhaust prod.collapse)
  obtain code where f: "finish_main ?args ?objs (run_benchmark ?objs (ca_range_size ?args) (\<lambda>_. []) (nat (ca_threads ?args))) = (code, None)"
    using no_dump [of ?args] by (auto simp: default_args_def)
  have "res = Process_exit code None" using c unfolding client_process_def Let_def su prod.case option.case f by simp
  with client_memory_safe [OF d _ _ p _ b c] c show ?thesis by simp
qed

end
