(* ===== verification/Transport.thy ===== *)
theory Transport
  imports Server Client
begin

text \<open>
  Client and server together: the callback's control request (\<^verbatim>\<open>client/s3_client.cpp\<close>) answered by the server's
  routes (\<^verbatim>\<open>server/s3_server.cpp\<close>), the HEAD request of discovery likewise, and the client's memory as the server's RDMA writes leave it.
  The HTTP library between them is an argument: \<open>link m target headers\<close> is the request that the server's handler sees
  when the client sends method \<open>m\<close>, the target and the header fields. \<open>carried\<close> says what a request looks like whose path was
  decoded and whose fields arrived unchanged.
\<close>

section \<open>Definitions\<close>

definition received :: "http_response \<Rightarrow> http_reply" where
  "received resp = \<lparr>hr_status = rs_status resp, hr_field = map_of (rs_headers resp)\<rparr>"

definition control_exchange ::
  "server_config \<Rightarrow> get_env \<Rightarrow> (http_method \<Rightarrow> string \<Rightarrow> header_list \<Rightarrow> http_request) \<Rightarrow> server_state \<Rightarrow> http_method \<Rightarrow>
   string \<Rightarrow> int \<Rightarrow> string \<Rightarrow> header_list \<Rightarrow> http_reply option" where
  "control_exchange cfg env link st m host port target headers =
     (case fst (serve cfg env (link m target headers) st) of
        Answer resp \<Rightarrow> Some (received resp)
      | Unanswered _ \<Rightarrow> None)"

definition field_value :: "header_list \<Rightarrow> string \<Rightarrow> string" where
  "field_value hs name = (case map_of hs name of None \<Rightarrow> [] | Some v \<Rightarrow> v)"

definition carried :: "http_method \<Rightarrow> string \<Rightarrow> header_list \<Rightarrow> http_request" where
  "carried m path hs = \<lparr>rq_method = m, rq_path = path, rq_token = field_value hs kHdrRdmaToken,
     rq_range = field_value hs ''Range''\<rparr>"

text \<open>The memory of the client, by address, after RDMA writes in the order in which they were issued.\<close>

definition land_call :: "rdma_call \<Rightarrow> (u64 \<Rightarrow> char) \<Rightarrow> u64 \<Rightarrow> char" where
  "land_call c mem = (\<lambda>x. if unat (x - rc_remote c) < length (rc_data c) then rc_data c ! unat (x - rc_remote c) else mem x)"

definition memory_after :: "rdma_call list \<Rightarrow> (u64 \<Rightarrow> char) \<Rightarrow> u64 \<Rightarrow> char" where
  "memory_after calls mem = fold land_call calls mem"

text \<open>What the memory should hold: the bytes \<open>bs\<close> from address \<open>a\<close> on, everything else untouched.\<close>

definition memory_with :: "u64 \<Rightarrow> string \<Rightarrow> (u64 \<Rightarrow> char) \<Rightarrow> u64 \<Rightarrow> char" where
  "memory_with a bs mem = (\<lambda>x. if unat (x - a) < length bs then bs ! unat (x - a) else mem x)"

section \<open>The token on its way from client to server\<close>

lemma verbatim_token_prefix:
  assumes "c \<noteq> NUL"
  shows "\<exists>r k. encode_rdma_token (p @ c # rest) Verbatim = p @ c # r \<and> p @ c # rest = p @ c # r @ replicate k NUL"
proof -
  let ?t = "encode_rdma_token (p @ c # rest) Verbatim"
  obtain k where k: "p @ c # rest = ?t @ replicate k NUL" using verbatim_token by blast
  have len: "length p < length ?t"
  proof (rule ccontr)
    assume "\<not> length p < length ?t"
    then have "(?t @ replicate k NUL) ! length p = NUL"
      using arg_cong [OF k, of length] by (simp add: nth_append)
    with k [symmetric] assms show False by (simp add: nth_append)
  qed
  have "take (Suc (length p)) ?t = p @ [c]"
    using arg_cong [OF k, of "take (Suc (length p))"] len by simp
  then have "?t = p @ c # drop (Suc (length p)) ?t"
    by (metis append_take_drop_id append_Cons append_Nil append_assoc)
  then show ?thesis using k by (metis append_assoc append_Cons)
qed

text \<open>Either token encoding gets the descriptor to the server: for a descriptor that starts with a
  hexadecimal address and a colon, the server tells the two encodings apart, recovers the descriptor (up
  to the trailing NUL padding that the verbatim form drops) and reads the same remote address from it.\<close>

lemma token_transport:
  "parse_rdma_remote_addr (get_token_descr (encode_rdma_token (to_hex (unat a) @ '':'' @ rest) enc)) = a
   \<and> (\<exists>k. to_hex (unat a) @ '':'' @ rest
        = get_token_descr (encode_rdma_token (to_hex (unat a) @ '':'' @ rest) enc) @ replicate k NUL)"
proof (cases enc)
  case Base64
  have "get_token_descr (base64_encode d) = d" for d
    using base64_no_colon [of d] by (simp add: get_token_descr_def find_char_None [symmetric] b64.dec_enc)
  with Base64 parse_remote_addr_to_hex [of a rest] show ?thesis
    by (auto simp: encode_rdma_token_def intro: exI [of _ 0])
next
  case Verbatim
  obtain r k where t: "encode_rdma_token (to_hex (unat a) @ CHR '':'' # rest) Verbatim = to_hex (unat a) @ CHR '':'' # r"
    and d: "to_hex (unat a) @ CHR '':'' # rest = to_hex (unat a) @ CHR '':'' # r @ replicate k NUL"
    using verbatim_token_prefix [of "CHR '':''" "to_hex (unat a)" rest] by auto
  have "get_token_descr (to_hex (unat a) @ CHR '':'' # r) = to_hex (unat a) @ CHR '':'' # r"
    by (simp add: get_token_descr_def find_char_append [OF to_hex_no_colon])
  with Verbatim t d parse_remote_addr_to_hex [of a r] show ?thesis by auto
qed

lemmas token_address = token_transport [THEN conjunct1]

lemma verbatim_colon: "CHR '':'' \<in> set (encode_rdma_token (to_hex (unat a) @ '':'' @ rest) Verbatim)"
  using verbatim_token_prefix [of "CHR '':''" "to_hex (unat a)" rest] by auto

lemma token_not_empty: "encode_rdma_token (to_hex (unat a) @ '':'' @ rest) enc \<noteq> []"
proof (cases enc)
  case Base64
  have "base64_encode d \<noteq> []" if "d \<noteq> []" for d
    using that by (metis b64.dec_enc b64.enc_inject base64_encode.simps(1))
  with Base64 show ?thesis by (simp add: encode_rdma_token_def)
next
  case Verbatim
  then show ?thesis using verbatim_colon [of a rest] by auto
qed

section \<open>The request as the server sees it\<close>

lemma header_names: "kHdrRdmaToken \<noteq> ''Range''" "kHdrRdmaToken \<noteq> ''x-amz-content-sha256''" "kHdrRdmaToken \<noteq> ''x-amz-date''"
  "kHdrRdmaToken \<noteq> ''x-amz-security-token''" "kHdrRdmaToken \<noteq> ''Authorization''" "kHdrRdmaReply \<noteq> kHdrRdmaBytesTransferred"
  by (simp_all add: kHdrRdmaToken_def kHdrRdmaReply_def kHdrRdmaBytesTransferred_def)

lemma control_plane_fields:
  assumes "control_plane_headers SHA256 HMAC opts meth host path rng token now = Inr hs"
  shows "field_value hs kHdrRdmaToken = token" "field_value hs ''Range'' = rng"
proof -
  let ?own = "(if token \<noteq> [] then [(kHdrRdmaToken, token)] else []) @ (if rng \<noteq> [] then [(''Range'', rng)] else [])"
  have "\<exists>more. hs = ?own @ more \<and> kHdrRdmaToken \<notin> fst ` set more \<and> ''Range'' \<notin> fst ` set more"
  proof (cases "po_auth opts = AuthSigV4")
    case True
    with assms obtain r where r: "sigv4_sign SHA256 HMAC \<lparr>sr_method = meth, sr_host = host, sr_path = path, sr_query = [],
        sr_headers = ?own, sr_payload_hash = kUnsignedPayload\<rparr> (po_credentials opts) (po_region opts) ''s3'' (sigv4_amz_date now) = Inr r"
      and hs: "hs = ?own @ sv_headers r"
      by (auto simp: control_plane_headers_def Let_def bind_res_Inr)
    have "fst ` set (sv_headers r) \<subseteq> {''x-amz-content-sha256'', ''x-amz-date'', ''x-amz-security-token'', ''Authorization''}"
      by (rule sigv4_sign_Inr [OF r]) (auto simp del: append.simps(2) simp: image_iff split: if_splits)
    with header_names have "kHdrRdmaToken \<notin> fst ` set (sv_headers r) \<and> ''Range'' \<notin> fst ` set (sv_headers r)" by auto
    with hs show ?thesis by blast
  next
    case False
    with assms show ?thesis by (simp add: control_plane_headers_def Let_def)
  qed
  then obtain more where m: "hs = ?own @ more" "map_of more kHdrRdmaToken = None" "map_of more ''Range'' = None"
    by (auto simp: map_of_eq_None_iff)
  show "field_value hs kHdrRdmaToken = token" "field_value hs ''Range'' = rng"
    using m(2,3) header_names(1) unfolding m(1) field_value_def by (auto simp: map_add_def)
qed

lemma callback_request_Inr:
  assumes "callback_request SHA256 HMAC now proto ctx desc = Inr (target, headers)" "encode_rdma_token desc (po_token_encoding proto) \<noteq> []"
  shows "target = control_plane_target proto (gc_path ctx)"
    "field_value headers kHdrRdmaToken = encode_rdma_token desc (po_token_encoding proto)"
    "field_value headers ''Range'' = gc_range ctx"
  using assms by (auto simp: callback_request_def Let_def bind_res_Inr dest: control_plane_fields)

section \<open>The memory\<close>

lemma memory_after_Nil [simp]: "memory_after [] mem = mem"
  by (simp add: memory_after_def)

lemma memory_after_snoc: "memory_after (cs @ [c]) mem = land_call c (memory_after cs mem)"
  by (simp add: memory_after_def)

lemma land_call_after:
  assumes "rc_remote c = a + word_of_nat (length bs)" and "length bs + length (rc_data c) \<le> 2 ^ 64"
  shows "land_call c (memory_with a bs mem) = memory_with a (bs @ rc_data c) mem"
proof
  fix x
  define d where "d = x - a"
  have x: "x - rc_remote c = d - word_of_nat (length bs)" by (simp add: assms(1) d_def)
  have d: "unat d < 2 ^ 64" by (rule unat_u64_lt)
  show "land_call c (memory_with a bs mem) x = memory_with a (bs @ rc_data c) mem x"
  proof (cases "rc_data c = []")
    case True
    then show ?thesis by (simp add: land_call_def memory_with_def)
  next
    case False
    then have lb: "unat (word_of_nat (length bs) :: u64) = length bs" using assms(2) by (cases "rc_data c") auto
    have "unat (d - word_of_nat (length bs)) = (if length bs \<le> unat d then unat d - length bs else unat d + 2 ^ 64 - length bs)"
      by (simp add: unat_sub_if' lb)
    with d assms(2) show ?thesis by (auto simp: land_call_def memory_with_def nth_append x simp flip: d_def)
  qed
qed

text \<open>Back-to-back writes from \<open>a\<close> leave exactly their contents, in order, at \<open>a\<close>, and nothing else changes.\<close>

lemma memory_after_calls:
  "calls_from a calls \<Longrightarrow> length (concat (map rc_data calls)) \<le> 2 ^ 64 \<Longrightarrow>
   memory_after calls mem = memory_with a (concat (map rc_data calls)) mem"
proof (induction calls rule: rev_induct)
  case Nil
  then show ?case by (simp add: memory_with_def)
next
  case (snoc c cs)
  then show ?case using land_call_after [of c a "concat (map rc_data cs)" mem] by (simp add: memory_after_snoc calls_from_snoc)
qed

section \<open>Routes\<close>

definition path_key :: "string \<Rightarrow> string" where
  "path_key path = op_bucket (parse_object_path path) @ ''/'' @ op_object (parse_object_path path)"

definition reply_headers :: "string \<Rightarrow> nat \<Rightarrow> int \<Rightarrow> header_list" where
  "reply_headers token code bytes =
     [(kHdrRdmaReply, if CHR '':'' \<in> set token then to_string code else ''200''),
      (kHdrRdmaBytesTransferred, to_string_int bytes)]"

lemma serve_get_ok:
  assumes "serve cfg env req st = (Answer resp, st')" "rq_method req = GET"
    and "rs_status resp = 200 \<or> rs_status resp = 206"
  shows "op_valid (parse_object_path (rq_path req)) \<and> (\<exists>bytes calls.
     handle_get cfg env (path_key (rq_path req)) (rq_range req) (rq_token req) st = (Replied (rs_status resp) bytes calls, st')
     \<and> rs_headers resp = reply_headers (rq_token req) (rs_status resp) bytes)"
  using assms
  by (auto simp: serve_def get_route_def answer_def reply_headers_def path_key_def Let_def find_char_None
      split: if_splits get_result.splits prod.splits)

lemma serve_get_replied:
  assumes "handle_get cfg env (path_key (rq_path req)) (rq_range req) (rq_token req) st = (Replied code bytes calls, st')"
    and "op_valid (parse_object_path (rq_path req))" "rq_token req \<noteq> []" "rq_method req = GET"
    and "code = 200 \<or> code = 206"
  shows "serve cfg env req st = (Answer \<lparr>rs_status = code, rs_headers = reply_headers (rq_token req) code bytes,
     rs_content = ''OK'' @ [LF]\<rparr>, st')"
  using assms by (simp add: serve_def get_route_def answer_def reply_headers_def path_key_def Let_def find_char_None)

lemma callback_reply_served:
  assumes "code = 200 \<or> code = 206" and "po_token_encoding proto = Verbatim \<longrightarrow> CHR '':'' \<in> set token"
  shows "callback_reply proto sz (Some \<lparr>hr_status = code, hr_field = map_of (reply_headers token code bytes)\<rparr>)
     = (if po_token_encoding proto = Base64 then sint sz
        else if 0 \<le> bytes \<and> bytes \<le> int (min (unat sz) LONG_MAX) then bytes else -1)"
proof (cases "po_token_encoding proto")
  case Base64
  then show ?thesis using assms(1) by (auto simp: callback_reply_def)
next
  case Verbatim
  have minus: "\<not> is_digit CHR ''-''" by (rule dash_not_digit)
  have field: "parse_rdma_bytes_transferred True (to_string_int bytes) sz
      = (if 0 \<le> bytes \<and> bytes \<le> int (min (unat sz) LONG_MAX) then bytes else -1)"
    using minus to_string_digits [of "nat bytes"]
    by (auto simp: parse_rdma_bytes_transferred_spec to_string_int_def le_nat_iff nat_le_iff simp del: of_nat_unat)
  have code: "parse_rdma_reply True (to_string code) = \<lparr>rr_kind = Code, rr_code = code\<rparr>"
    using assms(1) to_string_digits by (auto simp: parse_rdma_reply_spec)
  show ?thesis
    using Verbatim assms field code header_names(6)
    by (auto simp: callback_reply_def reply_headers_def has_header_def header_value_def Let_def)
qed

section \<open>A GET from end to end\<close>

text \<open>The HTTP library hands the handler this GET as it was sent: the path decoded, the fields unchanged.\<close>

definition get_carried ::
  "(string \<Rightarrow> string option) \<Rightarrow> (string \<Rightarrow> string \<Rightarrow> string option) \<Rightarrow> tm \<Rightarrow> protocol_options \<Rightarrow> get_context \<Rightarrow> string \<Rightarrow>
   (http_method \<Rightarrow> string \<Rightarrow> header_list \<Rightarrow> http_request) \<Rightarrow> bool" where
  "get_carried SHA256 HMAC now proto ctx desc link \<longleftrightarrow>
     (case callback_request SHA256 HMAC now proto ctx desc of
        Inl _ \<Rightarrow> True
      | Inr (target, headers) \<Rightarrow> link GET target headers = carried GET (gc_path ctx) headers)"

lemma callback_over_link:
  assumes "gc_proto ctx = Some proto" and "get_carried SHA256 HMAC now proto ctx (to_hex (unat a) @ '':'' @ rest) link"
    and "callback_request SHA256 HMAC now proto ctx (to_hex (unat a) @ '':'' @ rest) = Inr (target, headers)"
  shows "get_callback_impl SHA256 HMAC now (control_exchange cfg env link st GET) (Some ctx) (Some (to_hex (unat a) @ '':'' @ rest)) sz
     = callback_reply proto sz (case fst (serve cfg env \<lparr>rq_method = GET, rq_path = gc_path ctx,
           rq_token = encode_rdma_token (to_hex (unat a) @ '':'' @ rest) (po_token_encoding proto), rq_range = gc_range ctx\<rparr> st) of
         Answer resp \<Rightarrow> Some (received resp) | Unanswered _ \<Rightarrow> None)"
  using assms callback_request_Inr [OF assms(3) token_not_empty]
  by (simp add: get_callback_impl_def get_carried_def control_exchange_def carried_def)

lemma callback_request_needed:
  "gc_proto ctx = Some proto \<Longrightarrow> 0 \<le> get_callback_impl SHA256 HMAC now http (Some ctx) (Some desc) sz \<Longrightarrow>
   \<exists>target headers. callback_request SHA256 HMAC now proto ctx desc = Inr (target, headers)"
  by (cases "callback_request SHA256 HMAC now proto ctx desc") (auto simp: get_callback_impl_def)

text \<open>The RDMA writes a GET issues; the promise of the RDMA library to report what it wrote.\<close>

definition served_calls :: "server_config \<Rightarrow> get_env \<Rightarrow> string \<Rightarrow> string \<Rightarrow> string \<Rightarrow> server_state \<Rightarrow> rdma_call list" where
  "served_calls cfg env key range_hdr token st =
     (case fst (handle_get cfg env key range_hdr token st) of Replied code bytes calls \<Rightarrow> calls | _ \<Rightarrow> [])"

definition reports_sizes :: "get_env \<Rightarrow> rdma_call list \<Rightarrow> bool" where
  "reports_sizes env calls \<longleftrightarrow> (\<forall>i < length calls. ge_rdma env i = int (length (rc_data (calls ! i))))"

lemma reports_sum:
  assumes "reports_sizes env calls"
  shows "sum_list (map (ge_rdma env) [0..<length calls]) = int (length (concat (map rc_data calls)))"
proof -
  have "map (ge_rdma env) [0..<length calls] = map (\<lambda>c. int (length (rc_data c))) calls"
    using assms by (intro nth_equalityI) (auto simp: reports_sizes_def)
  moreover have "sum_list (map (\<lambda>c. int (length (rc_data c))) calls) = int (length (concat (map rc_data calls)))"
    by (induction calls) auto
  ultimately show ?thesis by simp
qed

lemma callback_lands:
  assumes "env_ok cfg env" and "gc_proto ctx = Some proto"
    and "get_carried SHA256 HMAC now proto ctx (to_hex (unat a) @ '':'' @ rest) link"
    and "get_callback_impl SHA256 HMAC now (control_exchange cfg env link st GET) (Some ctx) (Some (to_hex (unat a) @ '':'' @ rest)) sz = n"
    and "0 \<le> n"
  defines "key \<equiv> path_key (gc_path ctx)" and "token \<equiv> encode_rdma_token (to_hex (unat a) @ '':'' @ rest) (po_token_encoding proto)"
  defines "calls \<equiv> served_calls cfg env key (gc_range ctx) token st"
  shows "\<exists>e fo len isr. op_valid (parse_object_path (gc_path ctx))
    \<and> fst (fd_for cfg env st key) = Some e
    \<and> get_span (gc_range ctx) (fe_size e) = Some (fo, len, isr)
    \<and> (\<forall>mem. memory_after calls mem = memory_with a (take (unat len) (drop (unat fo) (ge_file env (fe_fd e)))) mem)
    \<and> n = (if po_token_encoding proto = Verbatim then sum_list (map (ge_rdma env) [0..<length calls]) else sint sz)"
proof -
  let ?req = "\<lparr>rq_method = GET, rq_path = gc_path ctx, rq_token = token, rq_range = gc_range ctx\<rparr>"
  obtain target headers where q: "callback_request SHA256 HMAC now proto ctx (to_hex (unat a) @ '':'' @ rest) = Inr (target, headers)"
    using callback_request_needed [OF assms(2)] assms(4,5) by blast
  have n: "n = callback_reply proto sz (case fst (serve cfg env ?req st) of Answer resp \<Rightarrow> Some (received resp) | Unanswered _ \<Rightarrow> None)"
    using callback_over_link [OF assms(2,3) q] assms(4) by (simp add: token_def)
  with assms(5) obtain resp st' where s: "serve cfg env ?req st = (Answer resp, st')"
    and n': "n = callback_reply proto sz (Some (received resp))"
    by (cases "serve cfg env ?req st"; cases "fst (serve cfg env ?req st)") (auto simp: callback_reply_def)
  from n' assms(5) have code: "rs_status resp = 200 \<or> rs_status resp = 206"
    by (auto simp: callback_reply_def received_def split: if_splits)
  obtain bytes cs where v: "op_valid (parse_object_path (gc_path ctx))"
    and h: "handle_get cfg env key (gc_range ctx) token st = (Replied (rs_status resp) bytes cs, st')"
    and hd: "rs_headers resp = reply_headers token (rs_status resp) bytes"
    using serve_get_ok [OF s _ code] by (auto simp: key_def)
  have cs: "calls = cs" by (simp add: calls_def served_calls_def h)
  have "po_token_encoding proto = Verbatim \<longrightarrow> CHR '':'' \<in> set token" using verbatim_colon by (auto simp: token_def)
  then have b: "n = (if po_token_encoding proto = Verbatim then bytes else sint sz)"
    using n' callback_reply_served [OF code] assms(5) by (cases "po_token_encoding proto") (auto simp: received_def hd split: if_splits)
  have addr: "parse_rdma_remote_addr (get_token_descr token) = a" unfolding token_def by (rule token_address)
  obtain e fo len isr where e: "sv_fds st' (object_file cfg key) = Some e" "get_span (gc_range ctx) (fe_size e) = Some (fo, len, isr)"
    and sent: "concat (map rc_data calls) = take (unat len) (drop (unat fo) (ge_file env (fe_fd e)))"
    "length (concat (map rc_data calls)) = unat len" "calls_from a calls"
    and bytes: "bytes = sum_list (map (ge_rdma env) [0..<length calls])"
    using handle_get_sent [OF assms(1) h code] unfolding addr cs by blast
  have "memory_after calls mem = memory_with a (take (unat len) (drop (unat fo) (ge_file env (fe_fd e)))) mem" for mem
    using memory_after_calls [OF sent(3), of mem] sent(1,2) unat_u64_lt [of len] by simp
  moreover have "fst (fd_for cfg env st key) = Some e" using handle_get_fd [of cfg env key "gc_range ctx" token st] h e(1) by simp
  ultimately show ?thesis using v e(2) b bytes by blast
qed

lemma callback_healthy:
  fixes a :: u64
  assumes link: "gc_proto ctx = Some proto" "get_carried SHA256 HMAC now proto ctx (to_hex (unat a) @ '':'' @ rest) link"
    and q: "callback_request SHA256 HMAC now proto ctx (to_hex (unat a) @ '':'' @ rest) = Inr (target, headers)"
    and path: "op_valid (parse_object_path (gc_path ctx))" "a \<noteq> 0"
    and env: "env_ok cfg env" "cfg_chunk_size cfg \<noteq> 0"
    and fd: "fd_for cfg env st (path_key (gc_path ctx)) = (Some e, fds, closed)" "length (ge_file env (fe_fd e)) = unat (fe_size e)"
    and span: "get_span (gc_range ctx) (fe_size e) = Some (fo, len, isr)" "aligned cfg fo"
    and slot: "acquire_slot (unat (cfg_max_concurrency cfg)) (ge_alloc env) (sv_pool st) = Some (Done slot, pool)"
    and io: "Pread_failed \<notin> set (ge_preads env)" "\<forall>k. 0 \<le> ge_rdma env k"
  defines "calls \<equiv> served_calls cfg env (path_key (gc_path ctx)) (gc_range ctx)
      (encode_rdma_token (to_hex (unat a) @ '':'' @ rest) (po_token_encoding proto)) st"
  defines "bytes \<equiv> sum_list (map (ge_rdma env) [0..<length calls])"
  shows "length (concat (map rc_data calls)) = unat len"
    and "get_callback_impl SHA256 HMAC now (control_exchange cfg env link st GET) (Some ctx) (Some (to_hex (unat a) @ '':'' @ rest)) sz
      = (if po_token_encoding proto = Base64 then sint sz
         else if 0 \<le> bytes \<and> bytes \<le> int (min (unat sz) LONG_MAX) then bytes else -1)"
proof -
  define token where "token = encode_rdma_token (to_hex (unat a) @ '':'' @ rest) (po_token_encoding proto)"
  let ?req = "\<lparr>rq_method = GET, rq_path = gc_path ctx, rq_token = token, rq_range = gc_range ctx\<rparr>"
  let ?key = "path_key (gc_path ctx)"
  define code :: nat where "code = (if gc_range ctx = [] then 200 else 206)"
  have code: "code = 200 \<or> code = 206" by (simp add: code_def)
  have addr: "parse_rdma_remote_addr (get_token_descr token) = a" unfolding token_def by (rule token_address)
  obtain b cs st' where h: "handle_get cfg env ?key (gc_range ctx) token st = (Replied code b cs, st')" and st': "sv_fds st' = fds"
    using handle_get_sends [OF env fd span _ slot io, of token] path(2) unfolding addr code_def by blast
  have cs: "calls = cs" unfolding calls_def served_calls_def token_def [symmetric] h by simp
  have "fds (object_file cfg ?key) = Some e" using fd(1) get_fd_entry by (auto simp: fd_for_def Let_def)
  then have len: "length (concat (map rc_data calls)) = unat len" and b: "b = bytes"
    using handle_get_sent [OF env(1) h code] span(1) by (auto simp: st' bytes_def cs)
  then show "length (concat (map rc_data calls)) = unat len" by simp
  have "token \<noteq> []" unfolding token_def by (rule token_not_empty)
  then have "serve cfg env ?req st = (Answer \<lparr>rs_status = code, rs_headers = reply_headers token code bytes, rs_content = ''OK'' @ [LF]\<rparr>, st')"
    using serve_get_replied [of cfg env ?req st code bytes cs st'] h path(1) code b by simp
  then have n: "get_callback_impl SHA256 HMAC now (control_exchange cfg env link st GET) (Some ctx) (Some (to_hex (unat a) @ '':'' @ rest)) sz
      = callback_reply proto sz (Some \<lparr>hr_status = code, hr_field = map_of (reply_headers token code bytes)\<rparr>)"
    unfolding callback_over_link [OF link q] token_def [symmetric] by (simp add: received_def)
  have "po_token_encoding proto = Verbatim \<longrightarrow> CHR '':'' \<in> set token" using verbatim_colon by (auto simp: token_def)
  from callback_reply_served [OF code this, of sz bytes]
  show "get_callback_impl SHA256 HMAC now (control_exchange cfg env link st GET) (Some ctx) (Some (to_hex (unat a) @ '':'' @ rest)) sz
      = (if po_token_encoding proto = Base64 then sint sz
         else if 0 \<le> bytes \<and> bytes \<le> int (min (unat sz) LONG_MAX) then bytes else -1)" unfolding n .
qed

lemma callback_returns_size:
  fixes a :: u64
  assumes link: "gc_proto ctx = Some proto" "get_carried SHA256 HMAC now proto ctx (to_hex (unat a) @ '':'' @ rest) link"
    and q: "callback_request SHA256 HMAC now proto ctx (to_hex (unat a) @ '':'' @ rest) = Inr (target, headers)"
    and path: "op_valid (parse_object_path (gc_path ctx))" "a \<noteq> 0"
    and env: "env_ok cfg env" "cfg_chunk_size cfg \<noteq> 0"
    and fd: "fd_for cfg env st (path_key (gc_path ctx)) = (Some e, fds, closed)" "length (ge_file env (fe_fd e)) = unat (fe_size e)"
    and span: "get_span (gc_range ctx) (fe_size e) = Some (fo, sz, isr)" "aligned cfg fo" "unat sz \<le> LONG_MAX"
    and slot: "acquire_slot (unat (cfg_max_concurrency cfg)) (ge_alloc env) (sv_pool st) = Some (Done slot, pool)"
    and io: "Pread_failed \<notin> set (ge_preads env)" "\<forall>k. 0 \<le> ge_rdma env k"
    and reports: "reports_sizes env (served_calls cfg env (path_key (gc_path ctx)) (gc_range ctx)
        (encode_rdma_token (to_hex (unat a) @ '':'' @ rest) (po_token_encoding proto)) st)"
  shows "get_callback_impl SHA256 HMAC now (control_exchange cfg env link st GET) (Some ctx) (Some (to_hex (unat a) @ '':'' @ rest)) sz
     = int (unat sz)"
  unfolding callback_healthy(2) [OF link q path env fd span(1,2) slot io]
    reports_sum [OF reports] callback_healthy(1) [OF link q path env fd span(1,2) slot io]
  using span(3) sint_small [OF span(3)] by (cases "po_token_encoding proto") (auto simp del: of_nat_unat)

section \<open>Discovery\<close>

lemma stol_to_string: "stol (to_string n) = (if n \<le> LONG_MAX then Some (int n, length (to_string n)) else None)"
  using strto_parse_decimal [of "to_string n" "[]"] to_string_digits [of n]
  by (auto simp: stol_def LONG_MAX_def)

definition head_carried ::
  "(string \<Rightarrow> string option) \<Rightarrow> (string \<Rightarrow> string \<Rightarrow> string option) \<Rightarrow> tm \<Rightarrow> protocol_options \<Rightarrow> string \<Rightarrow> int \<Rightarrow> string \<Rightarrow>
   (http_method \<Rightarrow> string \<Rightarrow> header_list \<Rightarrow> http_request) \<Rightarrow> bool" where
  "head_carried SHA256 HMAC now proto host port path link \<longleftrightarrow>
     (case control_plane_headers SHA256 HMAC proto ''HEAD'' (http_host_header host port) path [] [] now of
        Inl _ \<Rightarrow> True
      | Inr headers \<Rightarrow> link HEAD (control_plane_target proto path) headers = carried HEAD path headers)"

lemma head_size_served:
  assumes "control_plane_headers SHA256 HMAC proto ''HEAD'' (http_host_header host port) path [] [] now = Inr hs"
    and "head_carried SHA256 HMAC now proto host port path link"
  shows "head_size SHA256 HMAC now (control_exchange cfg env link st HEAD) proto host port path
    = (if \<not> op_valid (parse_object_path path) then -1
       else case fst (fd_for cfg env st (path_key path)) of
         None \<Rightarrow> -1
       | Some e \<Rightarrow> if unat (fe_size e) \<le> LONG_MAX then int (unat (fe_size e)) else -1)"
proof -
  have x: "control_exchange cfg env link st HEAD host port (control_plane_target proto path) hs
      = (case fst (serve cfg env (carried HEAD path hs) st) of Answer resp \<Rightarrow> Some (received resp) | Unanswered _ \<Rightarrow> None)"
    using assms by (simp add: head_carried_def control_exchange_def)
  obtain entry fds closed where fd: "fd_for cfg env st (path_key path) = (entry, fds, closed)" by (metis prod_cases3)
  have s: "fst (serve cfg env (carried HEAD path hs) st)
      = (if \<not> op_valid (parse_object_path path) then answer 400 [] (''expected /<bucket>/<object>'' @ [LF])
         else case entry of None \<Rightarrow> answer 404 [] [] | Some e \<Rightarrow> answer 200 [(''Content-Length'', to_string (unat (fe_size e)))] [])"
    using fd by (auto simp: serve_def get_route_def carried_def fd_for_def path_key_def object_file_def Let_def split: option.splits)
  show ?thesis
    using assms(1) x s fd
    by (auto simp: head_size_def answer_def received_def has_header_def header_value_def stol_to_string split: option.splits)
qed

lemma served_head_size:
  assumes "head_carried SHA256 HMAC now proto host port path link"
    and "0 < head_size SHA256 HMAC now (control_exchange cfg env link st HEAD) proto host port path"
  obtains e where "fst (fd_for cfg env st (path_key path)) = Some e"
    "head_size SHA256 HMAC now (control_exchange cfg env link st HEAD) proto host port path = int (unat (fe_size e))"
proof -
  obtain hs where "control_plane_headers SHA256 HMAC proto ''HEAD'' (http_host_header host port) path [] [] now = Inr hs"
    using assms(2) by (cases "control_plane_headers SHA256 HMAC proto ''HEAD'' (http_host_header host port) path [] [] now")
      (auto simp: head_size_def)
  from head_size_served [OF this assms(1), of cfg env st] assms(2) that show thesis by (auto split: if_splits option.splits)
qed

text \<open>The object sizes that discovery collects, at whatever state \<open>hst path\<close> the server answers each HEAD.\<close>

definition served_head ::
  "(string \<Rightarrow> string option) \<Rightarrow> (string \<Rightarrow> string \<Rightarrow> string option) \<Rightarrow> tm \<Rightarrow> server_config \<Rightarrow> get_env \<Rightarrow>
   (http_method \<Rightarrow> string \<Rightarrow> header_list \<Rightarrow> http_request) \<Rightarrow> (string \<Rightarrow> server_state) \<Rightarrow> protocol_options \<Rightarrow> string \<Rightarrow> int \<Rightarrow>
   string \<Rightarrow> int" where
  "served_head SHA256 HMAC now cfg env link hst proto host port path =
     head_size SHA256 HMAC now (control_exchange cfg env link (hst path) HEAD) proto host port path"

lemma head_size_bound: "head_size SHA256 HMAC now http proto host port path < 2 ^ 63"
  by (auto simp: head_size_def stol_def Let_def split: sum.splits option.splits if_splits)

lemma discover_objects_sizes:
  "discover_objects head bucket ks objs mx = Some (objs', mx') \<Longrightarrow> ob \<in> set objs' - set objs \<Longrightarrow>
   od_key ob \<in> set ks \<and> 0 < head (''/'' @ bucket @ ''/'' @ od_key ob) \<and> od_size ob = word_of_int (head (''/'' @ bucket @ ''/'' @ od_key ob))"
  by (induction head bucket ks objs mx rule: discover_objects.induct) (fastforce simp: Let_def split: if_splits)+

lemma get_span_request:
  assumes "0 < od_size ob"
  shows "get_span (bq_range (xfer_request rs ob)) (od_size ob) = Some (0, bq_size (xfer_request rs ob), 0 < rs)"
proof (cases "0 < rs")
  case True
  define q where "q = xfer_request rs ob"
  note b = xfer_request_bounds [OF assms, of rs, folded q_def]
  have 1: "1 \<le> bq_size q" using b(1) by (simp add: word_le_nat_alt word_less_nat_alt)
  have e: "(word_of_nat (unat (bq_size q) - 1) :: u64) = bq_size q - 1"
    using unat_sub_u64 [OF 1] unat_u64_lt [of "bq_size q"] by (simp add: word_of_nat_eq_u64)
  have "unat (bq_size q) - 1 < unat (od_size ob)" using b(1,2) by (simp add: word_le_nat_alt word_less_nat_alt)
  then have "parse_range (bq_range q) (od_size ob) = \<lparr>br_start = 0, br_end = bq_size q - 1, br_present = True, br_valid = True\<rparr>"
    using parse_range_print [of 0 "unat (bq_size q) - 1" "od_size ob"] b(3) True e unat_u64_lt [of "bq_size q"] by simp
  with True show ?thesis by (simp add: get_span_def Let_def b(3) q_def [symmetric])
next
  case False
  then show ?thesis using xfer_request_bounds(3) [OF assms, of rs] by (simp add: get_span_def xfer_request_def)
qed

lemma benchmark_get_lands:
  assumes disc: "discover_objects (served_head SHA256 HMAC now cfg env link hst (cl_proto c) host port) bucket ks [] 0 = Some (objs, max_size)"
    and heads: "\<forall>k \<in> set ks. head_carried SHA256 HMAC now (cl_proto c) host port (''/'' @ bucket @ ''/'' @ k) link" "ks \<noteq> []"
    and q: "q \<in> set (warm_up objs rs) \<union> set (snd (worker objs rs ns))"
    and ctx: "ctx = client_context c bucket (bq_key q) (bq_range q)"
    and same: "fst (fd_for cfg env st (path_key (gc_path ctx))) = fst (fd_for cfg env (hst (gc_path ctx)) (path_key (gc_path ctx)))"
    and get: "env_ok cfg env" "get_carried SHA256 HMAC now (cl_proto c) ctx (to_hex (unat a) @ '':'' @ rest) link"
      "0 \<le> get_callback_impl SHA256 HMAC now (control_exchange cfg env link st GET) (Some ctx) (Some (to_hex (unat a) @ '':'' @ rest)) (bq_size q)"
  shows "\<exists>e. fst (fd_for cfg env st (path_key (gc_path ctx))) = Some e \<and> 0 < bq_size q \<and> bq_size q \<le> max_size
    \<and> bq_size q = (if rs = 0 then fe_size e else min rs (fe_size e))
    \<and> (\<forall>mem. memory_after (served_calls cfg env (path_key (gc_path ctx)) (bq_range q)
          (encode_rdma_token (to_hex (unat a) @ '':'' @ rest) (po_token_encoding (cl_proto c))) st) mem
        = memory_with a (take (unat (bq_size q)) (ge_file env (fe_fd e))) mem)"
proof -
  let ?h = "served_head SHA256 HMAC now cfg env link hst (cl_proto c) host port"
  have d: "map od_key objs = ks" "\<forall>ob \<in> set objs. 0 < od_size ob \<and> od_size ob \<le> max_size"
    using discover_objects_spec [OF disc] head_size_bound by (simp_all add: served_head_def)
  have "objs \<noteq> []" using d(1) heads(2) by auto
  then have "objs ! (i mod length objs) \<in> set objs" for i by simp
  with q obtain ob where ob: "ob \<in> set objs" "q = xfer_request rs ob"
    by (auto simp: warm_up_def worker_def worker_loop_spec Let_def)
  from ob(1) d(2) have sz: "0 < od_size ob" "od_size ob \<le> max_size" by auto
  have path: "gc_path ctx = ''/'' @ bucket @ ''/'' @ od_key ob" and rng: "gc_range ctx = bq_range q"
    and proto: "gc_proto ctx = Some (cl_proto c)"
    by (simp_all add: ctx ob(2) client_context_def xfer_request_def Let_def)
  have h: "od_key ob \<in> set ks" "0 < ?h (gc_path ctx)" "od_size ob = word_of_int (?h (gc_path ctx))"
    using discover_objects_sizes [OF disc, of ob] ob(1) by (simp_all add: path)
  obtain e where e: "fst (fd_for cfg env (hst (gc_path ctx)) (path_key (gc_path ctx))) = Some e" "?h (gc_path ctx) = int (unat (fe_size e))"
    using served_head_size [of SHA256 HMAC now "cl_proto c" host port "gc_path ctx" link cfg env "hst (gc_path ctx)"] heads(1) h(1,2)
    unfolding served_head_def path by blast
  then have size: "fe_size e = od_size ob" using h(3) by simp
  have amount: "bq_size (xfer_request rs ob) = (if rs = 0 then od_size ob else min rs (od_size ob))"
    by (simp add: xfer_request_def word_neq_0_conv Let_def)
  have fd: "fst (fd_for cfg env st (path_key (gc_path ctx))) = Some e" using same e(1) by simp
  with callback_lands [OF get(1) proto get(2) refl get(3)] get_span_request [OF sz(1), of rs] show ?thesis
    using fd xfer_request_bounds(1,2) [OF sz(1), of rs] sz(2) amount unfolding rng ob(2) [symmetric]
    by (auto simp: size intro: order_trans min.coboundedI2)
qed

section \<open>An exchange to try it on\<close>

definition demo_link :: "http_method \<Rightarrow> string \<Rightarrow> header_list \<Rightarrow> http_request" where
  "demo_link m target hs = carried m (uri_decode target) hs"

definition demo_one :: get_env where
  "demo_one = demo_env\<lparr>ge_fstat := \<lambda>_. Some 1, ge_file := \<lambda>_. ''x'', ge_rdma := \<lambda>_. 1\<rparr>"

definition demo_client :: s3_client where
  "demo_client = \<lparr>cl_host = ''h'', cl_port = 80, cl_proto = default_protocol_options\<lparr>po_token_encoding := Verbatim\<rparr>, cl_registered = []\<rparr>"

lemma one_call:
  assumes "calls_from a calls" "list_all (\<lambda>c. rc_size c \<noteq> 0 \<and> rc_size c \<le> m) calls" "length (concat (map rc_data calls)) = 1"
  shows "reports_sizes demo_one calls"
proof -
  have pos: "1 \<le> length (rc_data c)" if "c \<in> set calls" for c
    using assms(2) that calls_from_size [OF assms(1) that] unat_eq_zero [of "rc_size c"] by (auto simp: list_all_iff Suc_le_eq)
  then have "length (rc_data c) = 1" if "c \<in> set calls" for c
    using that assms(3) elem_le_sum_list [of _ "map (length \<circ> rc_data) calls"] pos [OF that]
    by (fastforce simp: length_concat in_set_conv_nth comp_def)
  then show ?thesis by (auto simp: reports_sizes_def demo_one_def)
qed

abbreviation "demo_desc \<equiv> to_hex (unat (10 :: u64)) @ '':'' @ ''0''"
abbreviation "demo_ctx \<equiv> client_context demo_client ''b'' ''k'' []"

lemma demo_path: "parse_object_path (gc_path demo_ctx) = \<lparr>op_bucket = ''b'', op_object = ''k'', op_valid = True\<rparr>"
proof -
  have "parse_object_path ''/b/k'' = \<lparr>op_bucket = ''b'', op_object = ''k'', op_valid = True\<rparr>" by code_simp
  then show ?thesis by (simp add: client_context_def)
qed

lemma demo_carries: "demo_link m (control_plane_target (cl_proto demo_client) path) hs = carried m path hs"
  using uri.dec_enc by (simp add: demo_link_def demo_client_def control_plane_target_def)

lemma demo_request:
  obtains target headers where "callback_request (\<lambda>_. None) (\<lambda>_ _. None) demo_tm (cl_proto demo_client) demo_ctx demo_desc = Inr (target, headers)"
  by (simp add: demo_client_def callback_request_def control_plane_headers_def default_protocol_options_def Let_def)

lemma demo_get_carried: "get_carried (\<lambda>_. None) (\<lambda>_ _. None) demo_tm (cl_proto demo_client) demo_ctx demo_desc demo_link"
proof -
  obtain target headers where q: "callback_request (\<lambda>_. None) (\<lambda>_ _. None) demo_tm (cl_proto demo_client) demo_ctx demo_desc = Inr (target, headers)"
    by (rule demo_request)
  from callback_request_Inr(1) [OF this token_not_empty] q show ?thesis by (simp add: get_carried_def demo_carries)
qed

lemma demo_one_fd: "fd_for demo_cfg demo_one demo_server key
    = (Some \<lparr>fe_fd = 7, fe_size = 1\<rparr>, [object_file demo_cfg key \<mapsto> \<lparr>fe_fd = 7, fe_size = 1\<rparr>], [])"
  by (simp add: fd_for_def Let_def demo_one_def demo_env_def demo_server_def get_fd_def get_fd_shared_def get_fd_exclusive_def)

lemma demo_one_ok: "env_ok demo_cfg demo_one" "ge_file demo_one fd = ''x''"
  "Pread_failed \<notin> set (ge_preads demo_one)" "\<forall>k. 0 \<le> ge_rdma demo_one k"
  "acquire_slot (unat (cfg_max_concurrency demo_cfg)) (ge_alloc demo_one) (sv_pool demo_server) = Some (Done demo_slot, \<lparr>ps_pool = [], ps_total = 1\<rparr>)"
  using demo_env_ok(1) demo_acquire by (simp_all add: demo_one_def demo_env_def env_ok_def)

lemma demo_one_reports:
  "reports_sizes demo_one (served_calls demo_cfg demo_one (path_key (gc_path demo_ctx)) []
     (encode_rdma_token demo_desc Verbatim) demo_server)"
proof -
  let ?tok = "encode_rdma_token demo_desc Verbatim" and ?key = "path_key (gc_path demo_ctx)"
  have t: "parse_rdma_remote_addr (get_token_descr ?tok) \<noteq> 0" unfolding token_address by simp
  obtain bytes calls st' where h: "handle_get demo_cfg demo_one ?key [] ?tok demo_server = (Replied 200 bytes calls, st')"
    using handle_get_sends [OF demo_one_ok(1) demo_env_ok(2) demo_one_fd [of ?key] _ _ _ t demo_one_ok(5,3,4), of "[]" 0 1 False]
    by (auto simp: get_span_def aligned_def demo_env_ok(3) demo_one_ok(2))
  have "fst (fd_for demo_cfg demo_one demo_server ?key) = Some \<lparr>fe_fd = 7, fe_size = 1\<rparr>" by (simp add: demo_one_fd)
  then have "sv_fds st' (object_file demo_cfg ?key) = Some \<lparr>fe_fd = 7, fe_size = 1\<rparr>"
    using handle_get_fd [of demo_cfg demo_one ?key "[]" ?tok demo_server] h by simp
  with handle_get_sent [OF demo_one_ok(1) h] obtain a m where "calls_from a calls" "list_all (\<lambda>c. rc_size c \<noteq> 0 \<and> rc_size c \<le> m) calls"
    "length (concat (map rc_data calls)) = 1" by (auto simp: get_span_def)
  then have "reports_sizes demo_one calls" by (rule one_call)
  then show ?thesis unfolding served_calls_def h by simp
qed

lemma demo_proto: "gc_proto demo_ctx = Some (cl_proto demo_client)" "po_token_encoding (cl_proto demo_client) = Verbatim"
  "gc_range demo_ctx = []"
  by (simp_all add: client_context_def demo_client_def)

lemma demo_sides: "op_valid (parse_object_path (gc_path demo_ctx))" "(10 :: u64) \<noteq> 0"
  "length (ge_file demo_one (fe_fd \<lparr>fe_fd = 7, fe_size = 1\<rparr>)) = unat (fe_size \<lparr>fe_fd = 7, fe_size = 1\<rparr>)"
  "get_span (gc_range demo_ctx) (fe_size \<lparr>fe_fd = 7, fe_size = 1\<rparr>) = Some (0, 1, False)"
  "aligned demo_cfg 0" "unat (1 :: u64) \<le> LONG_MAX"
  by (simp_all add: demo_path demo_one_ok(2) demo_proto(3) get_span_def aligned_def demo_env_ok(3) LONG_MAX_def)

lemma demo_reports: "reports_sizes demo_one (served_calls demo_cfg demo_one (path_key (gc_path demo_ctx)) (gc_range demo_ctx)
     (encode_rdma_token demo_desc (po_token_encoding (cl_proto demo_client))) demo_server)"
  unfolding demo_proto(2,3) by (rule demo_one_reports)

lemmas demo_asking = demo_proto(1) demo_get_carried
lemmas demo_serving = demo_sides(1,2) demo_one_ok(1) demo_env_ok(2) demo_one_fd demo_sides(3-6) demo_one_ok(5,3,4) demo_reports

lemma demo_callback:
  "get_callback_impl (\<lambda>_. None) (\<lambda>_ _. None) demo_tm (control_exchange demo_cfg demo_one demo_link demo_server GET)
     (Some demo_ctx) (Some demo_desc) 1 = int (unat (1 :: u64))"
  by (rule demo_request) (rule callback_returns_size [OF demo_asking _ demo_serving])

abbreviation "demo_obj \<equiv> \<lparr>od_key = ''k'', od_size = 1\<rparr>"

lemma demo_head_headers:
  "control_plane_headers (\<lambda>_. None) (\<lambda>_ _. None) (cl_proto demo_client) ''HEAD'' (http_host_header ''h'' 80) path [] [] demo_tm = Inr []"
  by (simp add: control_plane_headers_def demo_client_def default_protocol_options_def)

lemma demo_head_carried: "head_carried (\<lambda>_. None) (\<lambda>_ _. None) demo_tm (cl_proto demo_client) ''h'' 80 path demo_link"
  by (simp add: head_carried_def demo_head_headers demo_carries)

lemma demo_discovery:
  "discover_objects (served_head (\<lambda>_. None) (\<lambda>_ _. None) demo_tm demo_cfg demo_one demo_link (\<lambda>_. demo_server) (cl_proto demo_client) ''h'' 80)
     ''b'' [''k''] [] 0 = Some ([demo_obj], 1)"
proof -
  have p: "''/'' @ ''b'' @ ''/'' @ ''k'' = gc_path demo_ctx" by (simp add: client_context_def)
  have "served_head (\<lambda>_. None) (\<lambda>_ _. None) demo_tm demo_cfg demo_one demo_link (\<lambda>_. demo_server) (cl_proto demo_client) ''h'' 80 (gc_path demo_ctx) = 1"
    unfolding served_head_def head_size_served [OF demo_head_headers demo_head_carried] by (simp add: demo_path demo_one_fd LONG_MAX_def)
  then show ?thesis unfolding p [symmetric] by (simp add: Let_def)
qed

section \<open>Properties\<close>

text \<open>C1. A GET that the client counts as a success has put the object into its memory. Whenever the callback, talking to the
  server, returns a non-negative number for a descriptor of address \<open>a\<close>, the server has answered the very request the
  client meant, its RDMA writes leave the requested span of the object at \<open>a\<close> and every other byte of the client's memory as
  it was; the number is the sum of what the RDMA library reported (verbatim tokens) or the size asked for (base64).\<close>

theorem callback_delivers:
  assumes "env_ok cfg env" and "gc_proto ctx = Some proto"
    and "get_carried SHA256 HMAC now proto ctx (to_hex (unat a) @ '':'' @ rest) link"
    and "get_callback_impl SHA256 HMAC now (control_exchange cfg env link st GET) (Some ctx) (Some (to_hex (unat a) @ '':'' @ rest)) sz = n"
    and "0 \<le> n"
  defines "key \<equiv> path_key (gc_path ctx)" and "token \<equiv> encode_rdma_token (to_hex (unat a) @ '':'' @ rest) (po_token_encoding proto)"
  defines "calls \<equiv> served_calls cfg env key (gc_range ctx) token st"
  shows "\<exists>e fo len isr. op_valid (parse_object_path (gc_path ctx))
    \<and> fst (fd_for cfg env st key) = Some e
    \<and> get_span (gc_range ctx) (fe_size e) = Some (fo, len, isr)
    \<and> (\<forall>mem. memory_after calls mem = memory_with a (take (unat len) (drop (unat fo) (ge_file env (fe_fd e)))) mem)
    \<and> n = (if po_token_encoding proto = Verbatim then sum_list (map (ge_rdma env) [0..<length calls]) else sint sz)"
  unfolding key_def token_def calls_def by (rule callback_lands [OF assms(1-5)])

theorem callback_delivers_witness:
  "\<forall>mem. memory_after (served_calls demo_cfg demo_one (path_key (gc_path demo_ctx)) [] (encode_rdma_token demo_desc Verbatim) demo_server) mem
     = memory_with 10 ''x'' mem"
proof -
  have "0 \<le> int (unat (1 :: u64))" by simp
  from callback_delivers [OF demo_one_ok(1) demo_asking demo_callback this] show ?thesis
    unfolding demo_proto(2,3) by (auto simp: demo_one_fd get_span_def demo_one_ok(2) simp del: append.simps)
qed



text \<open>C5. A benchmark GET stays inside its buffer. Sizes come from the server's own HEAD answers and the buffer has the
  largest of them; if the object has not changed since, a request of the warm-up or of a worker that succeeds leaves exactly the
  first \<open>bq_size q\<close> bytes of the object at the start of the buffer, at least one and at most the buffer's size, and changes no other byte of the
  client's memory.\<close>

theorem benchmark_get_fits:
  assumes disc: "discover_objects (served_head SHA256 HMAC now cfg env link hst (cl_proto c) host port) bucket ks [] 0 = Some (objs, max_size)"
    and heads: "\<forall>k \<in> set ks. head_carried SHA256 HMAC now (cl_proto c) host port (''/'' @ bucket @ ''/'' @ k) link" "ks \<noteq> []"
    and q: "q \<in> set (warm_up objs rs) \<union> set (snd (worker objs rs ns))"
    and ctx: "ctx = client_context c bucket (bq_key q) (bq_range q)"
    and same: "fst (fd_for cfg env st (path_key (gc_path ctx))) = fst (fd_for cfg env (hst (gc_path ctx)) (path_key (gc_path ctx)))"
    and get: "env_ok cfg env" "get_carried SHA256 HMAC now (cl_proto c) ctx (to_hex (unat a) @ '':'' @ rest) link"
      "0 \<le> get_callback_impl SHA256 HMAC now (control_exchange cfg env link st GET) (Some ctx) (Some (to_hex (unat a) @ '':'' @ rest)) (bq_size q)"
  shows "\<exists>e. fst (fd_for cfg env st (path_key (gc_path ctx))) = Some e \<and> 0 < bq_size q \<and> bq_size q \<le> max_size
    \<and> bq_size q = (if rs = 0 then fe_size e else min rs (fe_size e))
    \<and> (\<forall>mem. memory_after (served_calls cfg env (path_key (gc_path ctx)) (bq_range q)
          (encode_rdma_token (to_hex (unat a) @ '':'' @ rest) (po_token_encoding (cl_proto c))) st) mem
        = memory_with a (take (unat (bq_size q)) (ge_file env (fe_fd e))) mem)"
  by (rule benchmark_get_lands [OF assms])

theorem benchmark_get_fits_witness:
  "\<forall>mem. memory_after (served_calls demo_cfg demo_one (path_key (gc_path demo_ctx)) [] (encode_rdma_token demo_desc Verbatim) demo_server) mem
     = memory_with 10 ''x'' mem"
proof -
  let ?q = "xfer_request 0 demo_obj"
  have q: "bq_key ?q = ''k''" "bq_size ?q = 1" "bq_range ?q = []" "?q \<in> set (warm_up [demo_obj] 0)"
    by (simp_all add: xfer_request_def warm_up_def)
  from benchmark_get_fits [OF demo_discovery, of ?q 0 "[]" demo_ctx demo_server 10 "''0''"] demo_head_carried q demo_one_ok(1)
    demo_get_carried demo_callback
  show ?thesis unfolding demo_proto(2) by (auto simp: demo_one_fd demo_one_ok(2) simp del: append.simps)
qed

text \<open>The size in the descriptor is not looked at. In base64 mode a healthy GET of a span that is longer than the buffer the
  descriptor announces still reports the size the client asked for, and the bytes of the object land behind the end of that buffer.\<close>

lemma descriptor_size_ignored:
  fixes a buf :: u64 and rest :: string
  defines "desc \<equiv> to_hex (unat a) @ '':'' @ to_hex (unat buf) @ '':'' @ rest"
  assumes link: "gc_proto ctx = Some proto" "get_carried SHA256 HMAC now proto ctx desc link"
    and q: "callback_request SHA256 HMAC now proto ctx desc = Inr (target, headers)" "po_token_encoding proto = Base64"
    and path: "op_valid (parse_object_path (gc_path ctx))" "a \<noteq> 0"
    and env: "env_ok cfg env" "cfg_chunk_size cfg \<noteq> 0"
    and fd: "fd_for cfg env st (path_key (gc_path ctx)) = (Some e, fds, closed)" "length (ge_file env (fe_fd e)) = unat (fe_size e)"
    and span: "get_span (gc_range ctx) (fe_size e) = Some (fo, len, isr)" "aligned cfg fo"
    and slot: "acquire_slot (unat (cfg_max_concurrency cfg)) (ge_alloc env) (sv_pool st) = Some (Done slot, pool)"
    and io: "Pread_failed \<notin> set (ge_preads env)" "\<forall>k. 0 \<le> ge_rdma env k"
    and small: "buf < len" "unat buf \<le> LONG_MAX"
  shows "get_callback_impl SHA256 HMAC now (control_exchange cfg env link st GET) (Some ctx) (Some desc) buf = int (unat buf)
    \<and> (\<forall>mem. memory_after (served_calls cfg env (path_key (gc_path ctx)) (gc_range ctx) (encode_rdma_token desc Base64) st) mem (a + buf)
         = ge_file env (fe_fd e) ! (unat fo + unat buf))"
proof -
  note hyps = link [unfolded desc_def] q(1) [unfolded desc_def] path env fd span slot io
  have n: "get_callback_impl SHA256 HMAC now (control_exchange cfg env link st GET) (Some ctx) (Some desc) buf = int (unat buf)"
    using callback_healthy(2) [OF hyps, of buf] sint_small [OF small(2)] unfolding desc_def by (simp add: q(2) del: of_nat_unat)
  have "0 \<le> int (unat buf)" by simp
  from callback_lands [OF env(1) link(1) hyps(2) n [unfolded desc_def] this]
  have "memory_after (served_calls cfg env (path_key (gc_path ctx)) (gc_range ctx) (encode_rdma_token desc Base64) st) mem
      = memory_with a (take (unat len) (drop (unat fo) (ge_file env (fe_fd e)))) mem" for mem
    using fd(1) span(1) unfolding desc_def q(2) by auto
  moreover have "unat buf < unat len" "unat fo + unat len \<le> length (ge_file env (fe_fd e))"
    using small(1) get_span_bound(1) [OF span(1)] fd(2) by (simp_all add: word_less_nat_alt)
  ultimately show ?thesis using n by (simp add: memory_with_def)
qed

lemma descriptor_size_ignored_example:
  "\<exists>ctx. get_callback_impl (\<lambda>_. None) (\<lambda>_ _. None) demo_tm (control_exchange demo_cfg demo_env demo_link demo_server GET) (Some ctx)
      (Some (to_hex (unat (10 :: u64)) @ '':'' @ to_hex (unat (4 :: u64)) @ '':'' @ ''r'')) 4 = int (unat (4 :: u64))
    \<and> (\<forall>mem. memory_after (served_calls demo_cfg demo_env (path_key (gc_path ctx)) (gc_range ctx)
        (encode_rdma_token (to_hex (unat (10 :: u64)) @ '':'' @ to_hex (unat (4 :: u64)) @ '':'' @ ''r'') Base64) demo_server) mem (10 + 4)
      = CHR ''o'')"
proof -
  let ?ctx = "client_context (demo_client\<lparr>cl_proto := default_protocol_options\<rparr>) ''b'' ''k'' []"
  have p: "gc_path ?ctx = ''/b/k''" "gc_range ?ctx = []" "gc_proto ?ctx = Some default_protocol_options"
    by (simp_all add: client_context_def demo_client_def)
  have v: "op_valid (parse_object_path (gc_path ?ctx))" and u: "uri_decode ''/b/k'' = ''/b/k''" unfolding p by code_simp+
  have "\<exists>t h. callback_request (\<lambda>_. None) (\<lambda>_ _. None) demo_tm default_protocol_options ?ctx desc = Inr (t, h) \<and> t = ''/b/k''" for desc
    by (simp add: callback_request_def control_plane_headers_def control_plane_target_def default_protocol_options_def client_context_def Let_def)
  then obtain h where q: "callback_request (\<lambda>_. None) (\<lambda>_ _. None) demo_tm default_protocol_options ?ctx
      (to_hex (unat (10 :: u64)) @ '':'' @ to_hex (unat (4 :: u64)) @ '':'' @ ''r'') = Inr (''/b/k'', h)" by metis
  then have c: "get_carried (\<lambda>_. None) (\<lambda>_ _. None) demo_tm default_protocol_options ?ctx
      (to_hex (unat (10 :: u64)) @ '':'' @ to_hex (unat (4 :: u64)) @ '':'' @ ''r'') demo_link"
    by (simp add: get_carried_def demo_link_def p u)
  have env: "get_span (gc_range ?ctx) (fe_size \<lparr>fe_fd = 7, fe_size = 11\<rparr>) = Some (0, 11, False)" "(4 :: u64) < 11"
    "unat (4 :: u64) \<le> LONG_MAX" "po_token_encoding default_protocol_options = Base64" "ge_file demo_env 7 ! 4 = CHR ''o''"
    by (simp_all add: demo_env_def get_span_def LONG_MAX_def default_protocol_options_def client_context_def)
  show ?thesis
    using descriptor_size_ignored [OF p(3) c q env(4) v _ demo_env_ok(1,2) demo_fd demo_io(1) env(1) demo_io(3) demo_acquire demo_io(4,5) env(2,3)] env(5)
    by (intro exI [of _ ?ctx]) simp
qed

end
