(* ===== verification/Probe_Link.thy ===== *)
theory Probe_Link
  imports Transport Completion
begin

text \<open>
  A probe and the server on one wire: the raw exchange of \<^verbatim>\<open>common/raw_http.hpp\<close> and the completion authority of
  \<^verbatim>\<open>common/completion_authority.hpp\<close>, which the probes use, against the answers of the server's routes
  (\<^verbatim>\<open>server/s3_server.cpp\<close>). The server's HTTP library is an argument: \<open>answer_text resp reas extra\<close> is the message it writes for an
  answer, with a reason phrase and header fields of its own choice, of which \<open>writes_plainly\<close> asks what the library documents.
\<close>

section \<open>The answer on the wire\<close>

definition answer_text :: "http_response \<Rightarrow> string \<Rightarrow> header_list \<Rightarrow> string" where
  "answer_text resp reas extra =
     print_head 1 (rs_status resp div 100) (rs_status resp div 10 mod 10) (rs_status resp mod 10) reas (rs_headers resp @ extra)
     @ rs_content resp"

definition named :: "string \<Rightarrow> header_list \<Rightarrow> header_list" where
  "named n hs = filter (\<lambda>h. lower_ascii (fst h) = n) hs"

text \<open>One Content-Length with the length of the body, no transfer coding, no field that imitates the RDMA fields.\<close>

definition writes_plainly :: "http_response \<Rightarrow> string \<Rightarrow> header_list \<Rightarrow> bool" where
  "writes_plainly resp reas extra \<longleftrightarrow> valid_field_value reas \<and> list_all response_field_ok extra
     \<and> map snd (named ''content-length'' extra) = [to_string (length (rs_content resp))]
     \<and> named ''transfer-encoding'' extra = [] \<and> named kHdrRdmaReply extra = [] \<and> named kHdrRdmaBytesTransferred extra = []"

text \<open>A network on which the request goes out whole and the answer comes in, in any segmentation.\<close>

definition cooperative :: "net \<Rightarrow> string \<Rightarrow> string \<Rightarrow> bool" where
  "cooperative net req text \<longleftrightarrow>
     (\<exists>fails others. net_resolution net = Resolved (fails @ Connected # others)
        \<and> list_all (\<lambda>e. e = No_socket \<or> (\<exists>n. e = Conn_error n)) fails)
     \<and> (\<exists>ns. net_sends net = map Sent ns \<and> length req \<le> sum_list (map Suc ns))
     \<and> (\<exists>ds. net_recvs net = map Recv ds \<and> list_all (\<lambda>d. d \<noteq> []) ds \<and> concat ds = text)"

section \<open>Fields\<close>

lemma numeral_field:
  assumes "\<forall>c \<in> set v. is_digit c \<or> c = CHR ''-''" "n \<noteq> []" "list_all is_tchar n"
  shows "response_field_ok (n, v)"
proof -
  have ok: "\<not> is_ows c \<and> 32 \<le> ord c \<and> ord c \<noteq> 127" if "c \<in> set v" for c
    using assms(1) that by (auto simp: is_digit_def is_ows_def)
  then show ?thesis using assms(2,3) by (auto simp: response_field_ok_def valid_field_value_def list_all_iff not_less)
qed

lemma rdma_names: "kHdrRdmaReply \<noteq> []" "kHdrRdmaBytesTransferred \<noteq> []" "list_all is_tchar kHdrRdmaReply" "list_all is_tchar kHdrRdmaBytesTransferred"
  "lower_ascii kHdrRdmaReply = kHdrRdmaReply" "lower_ascii kHdrRdmaBytesTransferred = kHdrRdmaBytesTransferred"
  "kHdrRdmaReply \<notin> {''content-length'', ''transfer-encoding''}" "kHdrRdmaBytesTransferred \<notin> {''content-length'', ''transfer-encoding''}"
  by code_simp+

lemma reply_headers_ok: "list_all response_field_ok (reply_headers token code bytes)"
proof -
  have "\<forall>c \<in> set (to_string n). is_digit c \<or> c = CHR ''-''" for n using to_string_digits [of n] by (simp add: list_all_iff)
  moreover have "\<forall>c \<in> set (to_string_int bytes). is_digit c \<or> c = CHR ''-''"
    using to_string_digits [of "nat bytes"] to_string_digits [of "nat (- bytes)"] by (auto simp: to_string_int_def list_all_iff)
  moreover have "\<forall>c \<in> set ''200''. is_digit c \<or> c = CHR ''-''" by (simp add: is_digit_def)
  ultimately show ?thesis using rdma_names by (simp add: reply_headers_def numeral_field)
qed

lemma reply_headers_named:
  "named kHdrRdmaReply (reply_headers token code bytes) = [(kHdrRdmaReply, if CHR '':'' \<in> set token then to_string code else ''200'')]"
  "named kHdrRdmaBytesTransferred (reply_headers token code bytes) = [(kHdrRdmaBytesTransferred, to_string_int bytes)]"
  "named ''content-length'' (reply_headers token code bytes) = []" "named ''transfer-encoding'' (reply_headers token code bytes) = []"
  using rdma_names header_names(6) by (auto simp: named_def reply_headers_def)

lemma named_append: "named n (xs @ ys) = named n xs @ named n ys"
  by (simp add: named_def)

section \<open>The receipt\<close>

lemma answer_received:
  assumes b: "build_request host target headers = Inr (req, tb)" and net: "cooperative net req (answer_text resp reas extra)"
    and w: "writes_plainly resp reas extra" and hs: "rs_headers resp = reply_headers token code bytes" "rs_status resp = code" "100 \<le> code" "code < 1000"
    and caps: "length (answer_text resp reas extra) \<le> mh" "length (rs_content resp) \<le> mb" "length (rs_content resp) < 10 ^ 18"
  shows "\<exists>r. raw_http_get strerror net host target headers mh mb = Inr r \<and> message_complete r \<and> status r = code
    \<and> hdr_fields r = map field_of (reply_headers token code bytes @ extra) \<and> body_octets r = length (rs_content resp)"
proof -
  let ?hs = "reply_headers token code bytes @ extra"
  obtain fails others ns ds where n: "net_resolution net = Resolved (fails @ Connected # others)"
    "list_all (\<lambda>e. e = No_socket \<or> (\<exists>n. e = Conn_error n)) fails" "net_sends net = map Sent ns" "length req \<le> sum_list (map Suc ns)"
    "net_recvs net = map Recv ds" "list_all (\<lambda>d. d \<noteq> []) ds"
    "concat ds = print_head 1 (code div 100) (code div 10 mod 10) (code mod 10) reas ?hs @ rs_content resp"
    using net by (auto simp: cooperative_def answer_text_def hs(1,2))
  have d: "(1 :: nat) < 10" "code div 100 < 10" "code div 10 mod 10 < 10" "code mod 10 < 10" using hs(4) by auto
  have f: "valid_field_value reas" "list_all response_field_ok ?hs" using w reply_headers_ok by (auto simp: writes_plainly_def)
  have te: "filter (\<lambda>h. lower_ascii (fst h) = ''transfer-encoding'') ?hs = []"
    using w reply_headers_named(4) [of token code bytes] by (simp add: writes_plainly_def named_def)
  have "map snd (named ''content-length'' extra) = [to_string (length (rs_content resp))]" using w by (simp add: writes_plainly_def)
  then obtain x where x: "named ''content-length'' extra = [x]" "snd x = to_string (length (rs_content resp))"
    by (cases "named ''content-length'' extra") (simp_all del: to_string.simps)
  have "named ''content-length'' ?hs = [(fst x, to_string (length (rs_content resp)))]"
    using x unfolding named_append reply_headers_named(3) by (metis append_Nil prod.collapse)
  then have cl: "filter (\<lambda>h. lower_ascii (fst h) = ''content-length'') ?hs = [(fst x, to_string (length (rs_content resp)))]"
    unfolding named_def .
  have code: "code div 100 * 100 + code div 10 mod 10 * 10 + code mod 10 = code"
  proof -
    have "code div 100 = code div 10 div 10" using div_mult2_eq [of code 10 10] by simp
    then show ?thesis using div_mult_mod_eq [of code 10] div_mult_mod_eq [of "code div 10" 10] by linarith
  qed
  have cap: "length (print_head 1 (code div 100) (code div 10 mod 10) (code mod 10) reas ?hs) \<le> mh"
    using caps(1) by (simp add: answer_text_def hs(1,2))
  have len: "length (to_string (length (rs_content resp))) \<le> 18" using caps(3) by (intro to_string_length) simp_all
  from exchange_whole [OF b n d f te cl len cap caps(2), of strerror] show ?thesis unfolding code .
qed

lemma to_string_200: "to_string 200 = ''200''" "to_string 206 = ''206''" "dec_value ''200'' = 200" "dec_value ''206'' = 206"
  by code_simp+

lemma printed_count:
  assumes "unat (expected :: u64) \<le> LONG_MAX"
  shows "plain_digits (to_string_int bytes) 1 20 \<and> dec_value (to_string_int bytes) = unat expected \<longleftrightarrow> bytes = int (unat expected)"
proof (cases "bytes < 0")
  case True
  then show ?thesis using dash_not_digit by (auto simp: to_string_int_def plain_digits_def simp del: of_nat_unat)
next
  case False
  have "length (to_string (unat expected)) \<le> 20" using assms by (intro to_string_length) (simp_all add: LONG_MAX_def)
  then have p: "plain_digits (to_string (unat expected)) 1 20"
    using to_string_digits by (simp add: plain_digits_def Suc_le_eq)
  have "to_string_int bytes = to_string (nat bytes)" using False by (simp add: to_string_int_def)
  then show ?thesis using False p by (auto simp del: of_nat_unat)
qed

text \<open>What the authority decides about such a receipt.\<close>

lemma served_authority:
  assumes r: "raw_http_get strerror net host target headers mh mb = Inr r" "message_complete r" "status r = code"
      "hdr_fields r = map field_of (reply_headers token code bytes @ extra)" "body_octets r = length (rs_content resp)"
    and w: "writes_plainly resp reas extra" and code: "code = 200 \<or> code = 206" and body: "rs_content resp \<noteq> []"
    and token: "po_token_encoding proto = Verbatim \<longleftrightarrow> CHR '':'' \<in> set token"
  shows "completion_authority (view_receipt r cs) proto expected requested \<longleftrightarrow>
     po_token_encoding proto = Base64 \<and> expected = requested \<and> bytes = int (unat expected) \<and> unat expected \<le> min (unat cs) LONG_MAX"
proof -
  have none: "named kHdrRdmaReply extra = []" "named kHdrRdmaBytesTransferred extra = []" using w by (simp_all add: writes_plainly_def)
  note reply = reply_headers_named(1) [of token code bytes] and cnt = reply_headers_named(2) [of token code bytes]
  have f: "field_count r kHdrRdmaReply = 1" "field_count r kHdrRdmaBytesTransferred = 1"
    using field_count_printed [OF r(4)] none reply cnt by (simp_all add: named_def)
  have fst: "first_value r kHdrRdmaReply = (if CHR '':'' \<in> set token then to_string code else ''200'')"
    "first_value r kHdrRdmaBytesTransferred = to_string_int bytes"
    using field_first_printed [OF r(4), of kHdrRdmaReply] field_first_printed [OF r(4), of kHdrRdmaBytesTransferred] none reply cnt
    by (simp_all add: named_def first_value_def field_of_def)
  note c = complete_receipt [OF r(1,2)]
  then have bc: "body_content r = body_octets r" by auto
  have plain: "plain_digits (first_value r kHdrRdmaReply) 3 3"
    using code by (auto simp: fst(1) to_string_200 plain_digits_def is_digit_def)
  have num: "plain_digits (to_string_int bytes) 1 20 \<and> dec_value (to_string_int bytes) = unat expected \<longleftrightarrow> bytes = int (unat expected)"
    if "unat expected \<le> LONG_MAX" by (rule printed_count [OF that])
  have "completion_authority (view_receipt r cs) proto expected requested \<longleftrightarrow>
      plain_digits (to_string_int bytes) 1 20 \<and> dec_value (to_string_int bytes) = unat expected \<and> unat expected \<le> min (unat cs) LONG_MAX
      \<and> po_token_encoding proto = Base64 \<and> expected = requested"
    unfolding completion_authority_iff using c r(2,3,5) f plain fst token code body bc to_string_200
    by (cases "po_token_encoding proto") auto
  also have "\<dots> \<longleftrightarrow> po_token_encoding proto = Base64 \<and> expected = requested \<and> bytes = int (unat expected) \<and> unat expected \<le> min (unat cs) LONG_MAX"
    using num by auto
  finally show ?thesis .
qed

section \<open>A probe against the server\<close>

lemma token_colon: "CHR '':'' \<in> set (encode_rdma_token (to_hex (unat a) @ '':'' @ rest) enc) \<longleftrightarrow> enc = Verbatim"
  using verbatim_colon [of a rest] base64_no_colon by (cases enc) (auto simp: encode_rdma_token_def)

lemma serve_get_content:
  assumes "serve cfg env req st = (Answer resp, st')" "rq_method req = GET" "rs_status resp = 200 \<or> rs_status resp = 206"
  shows "rs_content resp = ''OK'' @ [LF]"
  using assms
  by (auto simp: serve_def get_route_def answer_def Let_def split: if_splits get_result.splits prod.splits)

lemma probe_exchange:
  assumes served: "serve cfg env rq st = (Answer resp, st')" "rq_method rq = GET" "rs_status resp = 200 \<or> rs_status resp = 206"
    and sent: "build_request host target headers = Inr (req, tb)" "cooperative net req (answer_text resp reas extra)" "writes_plainly resp reas extra"
    and caps: "length (answer_text resp reas extra) \<le> mh" "3 \<le> mb"
    and token: "po_token_encoding proto = Verbatim \<longleftrightarrow> CHR '':'' \<in> set (rq_token rq)"
  shows "\<exists>r bytes calls. raw_http_get strerror net host target headers mh mb = Inr r
    \<and> handle_get cfg env (path_key (rq_path rq)) (rq_range rq) (rq_token rq) st = (Replied (rs_status resp) bytes calls, st')
    \<and> (completion_authority (view_receipt r cs) proto expected requested \<longleftrightarrow>
         po_token_encoding proto = Base64 \<and> expected = requested \<and> bytes = int (unat expected) \<and> unat expected \<le> min (unat cs) LONG_MAX)"
proof -
  obtain bytes calls where h: "handle_get cfg env (path_key (rq_path rq)) (rq_range rq) (rq_token rq) st = (Replied (rs_status resp) bytes calls, st')"
    and hs: "rs_headers resp = reply_headers (rq_token rq) (rs_status resp) bytes"
    using serve_get_ok [OF served] by blast
  have body: "rs_content resp = ''OK'' @ [LF]" by (rule serve_get_content [OF served])
  have "100 \<le> rs_status resp" "rs_status resp < 1000" using served(3) by auto
  moreover have "length (rs_content resp) \<le> mb" "length (rs_content resp) < 10 ^ 18" using caps(2) by (simp_all add: body)
  ultimately obtain r where r: "raw_http_get strerror net host target headers mh mb = Inr r" "message_complete r" "status r = rs_status resp"
    "hdr_fields r = map field_of (reply_headers (rq_token rq) (rs_status resp) bytes @ extra)" "body_octets r = length (rs_content resp)"
    using answer_received [OF sent hs refl _ _ caps(1), of mb strerror] by blast
  have "rs_content resp \<noteq> []" by (simp add: body)
  from served_authority [OF r sent(3) served(3) this token, of cs expected requested] r(1) h show ?thesis by blast
qed

text \<open>The request as the probes build it, and as the handler sees it.\<close>

lemma carried_request:
  assumes "control_plane_headers SHA256 HMAC proto meth hosth path rng token now = Inr headers"
  shows "carried GET path headers = \<lparr>rq_method = GET, rq_path = path, rq_token = token, rq_range = rng\<rparr>"
  using control_plane_fields [OF assms] by (simp add: carried_def)

section \<open>An exchange to try it on\<close>

abbreviation "probe_token \<equiv> encode_rdma_token demo_desc (po_token_encoding default_protocol_options)"
abbreviation "probe_headers \<equiv> [(kHdrRdmaToken, probe_token)]"
abbreviation "probe_extra \<equiv> [(''Content-Length'', ''3'')]"

definition probe_net :: "string \<Rightarrow> net" where
  "probe_net text = \<lparr>net_resolution = Resolved [Connected], net_sends = [Sent 400], net_recvs = [Recv text]\<rparr>"

lemma probe_token_text: "probe_token = ''YTow''"
proof -
  have "encode_rdma_token (to_hex 10 @ '':0'') Base64 = ''YTow''" by code_simp
  then show ?thesis by (simp add: default_protocol_options_def)
qed

lemma probe_asks:
  "control_plane_headers (\<lambda>_. None) (\<lambda>_ _. None) default_protocol_options ''GET'' ''h:80'' ''/b/k'' [] probe_token demo_tm = Inr probe_headers"
  unfolding probe_token_text by (simp add: control_plane_headers_def default_protocol_options_def)

lemma probe_builds: "\<exists>req tb. build_request ''h:80'' ''/b/k'' probe_headers = Inr (req, tb) \<and> length req \<le> 400"
proof -
  have "case build_request ''h:80'' ''/b/k'' [(kHdrRdmaToken, ''YTow'')] of Inl _ \<Rightarrow> False | Inr (req, tb) \<Rightarrow> length req \<le> 400" by code_simp
  then show ?thesis unfolding probe_token_text by (auto split: sum.splits)
qed

lemma probe_path: "path_key ''/b/k'' = path_key (gc_path demo_ctx)" "op_valid (parse_object_path ''/b/k'')"
  using demo_path by (simp_all add: client_context_def)

definition probe_answer :: http_response where
  "probe_answer = \<lparr>rs_status = 200, rs_headers = reply_headers probe_token 200 1, rs_content = ''OK'' @ [LF]\<rparr>"

abbreviation "probe_text \<equiv> answer_text probe_answer ''OK'' probe_extra"

lemma probe_served:
  obtains calls st' where "handle_get demo_cfg demo_one (path_key ''/b/k'') [] probe_token demo_server = (Replied 200 1 calls, st')"
    "reports_sizes demo_one calls" "serve demo_cfg demo_one (carried GET ''/b/k'' probe_headers) demo_server = (Answer probe_answer, st')"
proof -
  let ?rq = "\<lparr>rq_method = GET, rq_path = ''/b/k'', rq_token = probe_token, rq_range = []\<rparr>"
  have t: "parse_rdma_remote_addr (get_token_descr probe_token) = 10" by (rule token_address)
  obtain bytes calls st' where h: "handle_get demo_cfg demo_one (path_key ''/b/k'') [] probe_token demo_server = (Replied 200 bytes calls, st')"
    using handle_get_sends [OF demo_one_ok(1) demo_env_ok(2) demo_one_fd demo_sides(3) demo_sides(4) [unfolded demo_proto(3)] demo_sides(5) _
        demo_one_ok(5,3,4), of probe_token "path_key ''/b/k''"] unfolding t by auto
  have "sv_fds st' (object_file demo_cfg (path_key ''/b/k'')) = Some \<lparr>fe_fd = 7, fe_size = 1\<rparr>"
    using handle_get_fd [of demo_cfg demo_one "path_key ''/b/k''" "[]" probe_token demo_server] h by (simp add: demo_one_fd)
  then have c: "calls_from 10 calls" "list_all (\<lambda>c. rc_size c \<noteq> 0 \<and> rc_size c \<le> cfg_chunk_size demo_cfg) calls"
    "length (concat (map rc_data calls)) = 1" "bytes = sum_list (map (ge_rdma demo_one) [0..<length calls])"
    using handle_get_sent [OF demo_one_ok(1) h] unfolding t by (auto simp: get_span_def)
  have r: "reports_sizes demo_one calls" by (rule one_call [OF c(1-3)])
  have b: "bytes = 1" using reports_sum [OF r] c(3,4) by simp
  have "probe_token \<noteq> []" by (rule token_not_empty)
  then have "serve demo_cfg demo_one ?rq demo_server = (Answer probe_answer, st')"
    using serve_get_replied [of demo_cfg demo_one ?rq demo_server 200 bytes calls st'] h b probe_path(2) by (simp add: probe_answer_def)
  with that [OF h [unfolded b] r] show thesis unfolding carried_request [OF probe_asks] .
qed

lemma probe_writes:
  "writes_plainly probe_answer ''OK'' probe_extra"
proof -
  have "valid_field_value ''OK''" "list_all response_field_ok probe_extra" "to_string 3 = ''3''"
    "map snd (named ''content-length'' probe_extra) = [''3'']" "named ''transfer-encoding'' probe_extra = []"
    "named kHdrRdmaReply probe_extra = []" "named kHdrRdmaBytesTransferred probe_extra = []" by code_simp+
  then show ?thesis by (simp add: writes_plainly_def probe_answer_def numeral_3_eq_3)
qed

lemma probe_text_not_empty: "answer_text resp reas extra \<noteq> []"
  by (simp add: answer_text_def print_head_def)

lemma probe_cooperates: "length req \<le> 400 \<Longrightarrow> text \<noteq> [] \<Longrightarrow> cooperative (probe_net text) req text"
  unfolding cooperative_def probe_net_def
  by (intro conjI exI [of _ "[]"] exI [of _ "[]"] exI [of _ "[400]"] exI [of _ "[text]"]) auto

lemma probe_status: "rs_status probe_answer = 200 \<or> rs_status probe_answer = 206"
  by (simp add: probe_answer_def)

lemma probe_sends:
  obtains req tb where "build_request ''h:80'' ''/b/k'' probe_headers = Inr (req, tb)" "cooperative (probe_net probe_text) req probe_text"
  using probe_builds probe_cooperates [OF _ probe_text_not_empty] by blast

lemmas probe_wire = probe_writes order_refl

lemma probe_accepted:
  obtains r where "raw_http_get (\<lambda>_. []) (probe_net probe_text) ''h:80'' ''/b/k'' probe_headers (length probe_text) 16 = Inr r"
    "completion_authority (view_receipt r 1) default_protocol_options 1 1"
proof -
  obtain calls st' where h: "handle_get demo_cfg demo_one (path_key ''/b/k'') [] probe_token demo_server = (Replied 200 1 calls, st')"
    and s: "serve demo_cfg demo_one (carried GET ''/b/k'' probe_headers) demo_server = (Answer probe_answer, st')" by (rule probe_served)
  obtain req tb where q: "build_request ''h:80'' ''/b/k'' probe_headers = Inr (req, tb)" "cooperative (probe_net probe_text) req probe_text"
    by (rule probe_sends)
  from probe_exchange [OF s _ probe_status q probe_wire, of 16 default_protocol_options "\<lambda>_. []" 1 1 1] h that show thesis
    unfolding carried_request [OF probe_asks] http_request.simps token_colon by (auto simp: default_protocol_options_def LONG_MAX_def)
qed

section \<open>Properties\<close>

text \<open>C12. What a probe concludes from the server's answer, octet by octet: over a network that works, the raw exchange reads back
  the answer to the GET it sent, and the completion authority accepts it exactly when the token was base64, the whole request was
  expected and the server counted exactly the expected bytes. A verbatim GET is never accepted, because this server always sends a body.\<close>

theorem probe_reads_server:
  assumes asked: "control_plane_headers SHA256 HMAC proto ''GET'' hosth path rng
      (encode_rdma_token (to_hex (unat a) @ '':'' @ rest) (po_token_encoding proto)) now = Inr headers"
    and served: "serve cfg env (carried GET path headers) st = (Answer resp, st')" "rs_status resp = 200 \<or> rs_status resp = 206"
    and sent: "build_request host target headers = Inr (req, tb)" "cooperative net req (answer_text resp reas extra)" "writes_plainly resp reas extra"
    and caps: "length (answer_text resp reas extra) \<le> mh" "3 \<le> mb"
  shows "\<exists>r bytes calls. raw_http_get strerror net host target headers mh mb = Inr r
    \<and> handle_get cfg env (path_key path) rng (encode_rdma_token (to_hex (unat a) @ '':'' @ rest) (po_token_encoding proto)) st
      = (Replied (rs_status resp) bytes calls, st')
    \<and> (completion_authority (view_receipt r cs) proto expected requested \<longleftrightarrow>
         po_token_encoding proto = Base64 \<and> expected = requested \<and> bytes = int (unat expected) \<and> unat expected \<le> min (unat cs) LONG_MAX)"
  using probe_exchange [OF served(1) _ served(2) sent caps, of proto strerror cs expected requested]
  unfolding carried_request [OF asked] http_request.simps token_colon by blast

theorem probe_reads_server_witness:
  "\<exists>r. raw_http_get (\<lambda>_. []) (probe_net probe_text) ''h:80'' ''/b/k'' probe_headers (length probe_text) 16 = Inr r
     \<and> completion_authority (view_receipt r 1) default_protocol_options 1 1"
proof -
  obtain calls st' where h: "handle_get demo_cfg demo_one (path_key ''/b/k'') [] probe_token demo_server = (Replied 200 1 calls, st')"
    and s: "serve demo_cfg demo_one (carried GET ''/b/k'' probe_headers) demo_server = (Answer probe_answer, st')" by (rule probe_served)
  obtain req tb where q: "build_request ''h:80'' ''/b/k'' probe_headers = Inr (req, tb)" "cooperative (probe_net probe_text) req probe_text"
    by (rule probe_sends)
  from probe_reads_server [OF probe_asks s probe_status q probe_wire, of 16 "\<lambda>_. []" 1 1 1] h show ?thesis
    by (auto simp: default_protocol_options_def LONG_MAX_def)
qed

text \<open>C8. Known complete means delivered: when the completion authority accepts the server's answer to a GET with a descriptor of address \<open>a\<close>,
  and the RDMA library reports what it wrote, then exactly the expected number of bytes of the requested span are in the
  client's memory at \<open>a\<close>, and no other byte has changed.\<close>

theorem complete_means_landed:
  fixes a :: u64
  assumes asked: "control_plane_headers SHA256 HMAC proto ''GET'' hosth path rng
      (encode_rdma_token (to_hex (unat a) @ '':'' @ rest) (po_token_encoding proto)) now = Inr headers"
    and served: "serve cfg env (carried GET path headers) st = (Answer resp, st')" "rs_status resp = 200 \<or> rs_status resp = 206"
    and sent: "build_request host target headers = Inr (req, tb)" "cooperative net req (answer_text resp reas extra)" "writes_plainly resp reas extra"
    and caps: "length (answer_text resp reas extra) \<le> mh" "3 \<le> mb"
    and env: "env_ok cfg env" "reports_sizes env (served_calls cfg env (path_key path) rng
      (encode_rdma_token (to_hex (unat a) @ '':'' @ rest) (po_token_encoding proto)) st)"
    and accepted: "raw_http_get strerror net host target headers mh mb = Inr r" "completion_authority (view_receipt r cs) proto expected requested"
  shows "\<exists>e fo isr. fst (fd_for cfg env st (path_key path)) = Some e \<and> get_span rng (fe_size e) = Some (fo, expected, isr)
    \<and> (\<forall>mem. memory_after (served_calls cfg env (path_key path) rng
           (encode_rdma_token (to_hex (unat a) @ '':'' @ rest) (po_token_encoding proto)) st) mem
         = memory_with a (take (unat expected) (drop (unat fo) (ge_file env (fe_fd e)))) mem)"
proof -
  define token where "token = encode_rdma_token (to_hex (unat a) @ '':'' @ rest) (po_token_encoding proto)"
  obtain bytes calls where h: "handle_get cfg env (path_key path) rng token st = (Replied (rs_status resp) bytes calls, st')"
    and b: "bytes = int (unat expected)"
    using probe_exchange [OF served(1) _ served(2) sent caps, of proto strerror cs expected requested] accepted
    unfolding carried_request [OF asked] http_request.simps token_colon token_def by auto
  have calls: "served_calls cfg env (path_key path) rng token st = calls" by (simp add: served_calls_def h)
  have addr: "parse_rdma_remote_addr (get_token_descr token) = a" unfolding token_def by (rule token_address)
  obtain e fo len isr where e: "sv_fds st' (object_file cfg (path_key path)) = Some e" "get_span rng (fe_size e) = Some (fo, len, isr)"
    and s: "concat (map rc_data calls) = take (unat len) (drop (unat fo) (ge_file env (fe_fd e)))" "length (concat (map rc_data calls)) = unat len"
    "calls_from a calls" "bytes = sum_list (map (ge_rdma env) [0..<length calls])"
    using handle_get_sent [OF env(1) h served(2)] unfolding addr by blast
  have "unat len = unat expected"
    using reports_sum [of env calls] env(2) b s(2,4) unfolding token_def [symmetric] calls by (simp del: of_nat_unat)
  then have len: "len = expected" by (simp add: word_unat_eq_iff)
  have "memory_after calls mem = memory_with a (take (unat expected) (drop (unat fo) (ge_file env (fe_fd e)))) mem" for mem
    using memory_after_calls [OF s(3), of mem] s(1,2) unat_u64_lt [of len] len by simp
  moreover have "fst (fd_for cfg env st (path_key path)) = Some e"
    using handle_get_fd [of cfg env "path_key path" rng token st] h e(1) by simp
  ultimately show ?thesis using e(2) unfolding token_def [symmetric] calls len by blast
qed

theorem complete_means_landed_witness:
  "\<forall>mem. memory_after (served_calls demo_cfg demo_one (path_key ''/b/k'') [] probe_token demo_server) mem = memory_with 10 ''x'' mem"
proof -
  obtain calls st' where h: "handle_get demo_cfg demo_one (path_key ''/b/k'') [] probe_token demo_server = (Replied 200 1 calls, st')"
    and c: "reports_sizes demo_one calls"
    and s: "serve demo_cfg demo_one (carried GET ''/b/k'' probe_headers) demo_server = (Answer probe_answer, st')" by (rule probe_served)
  obtain req tb where q: "build_request ''h:80'' ''/b/k'' probe_headers = Inr (req, tb)" "cooperative (probe_net probe_text) req probe_text"
    by (rule probe_sends)
  obtain r where r: "raw_http_get (\<lambda>_. []) (probe_net probe_text) ''h:80'' ''/b/k'' probe_headers (length probe_text) 16 = Inr r"
    "completion_authority (view_receipt r 1) default_protocol_options 1 1" by (rule probe_accepted)
  have "reports_sizes demo_one (served_calls demo_cfg demo_one (path_key ''/b/k'') [] probe_token demo_server)"
    unfolding served_calls_def h using c by simp
  from complete_means_landed [OF probe_asks s probe_status q probe_wire _ demo_one_ok(1) this r] show ?thesis
    by (auto simp: demo_one_fd demo_one_ok(2) get_span_def simp del: append.simps)
qed

end
