(* ===== verification/Scope_Layout.thy ===== *)
theory Scope_Layout
  imports SigV4
begin

text \<open>
  The first half of \<^verbatim>\<open>probe/scope_probe_main.cpp\<close>: the verdicts, checked arithmetic on \<^verbatim>\<open>size_t\<close>, the
  layout of the arena in guarded cells, and the span operations on its bytes. Host and device memory are
  the same byte string here; a failing CUDA copy aborts the probe and is not modelled.
\<close>

section \<open>Verdicts\<close>

datatype verdict = Pass | Fail | Inconclusive | EnvError

definition verdict_string :: "verdict \<Rightarrow> string" where
  "verdict_string v = (case v of
      Pass \<Rightarrow> ''PASS'' | Fail \<Rightarrow> ''FAIL'' | Inconclusive \<Rightarrow> ''INCONCLUSIVE'' | EnvError \<Rightarrow> ''ENV_ERROR'')"

definition exit_code :: "verdict \<Rightarrow> nat" where
  "exit_code v = (case v of Pass \<Rightarrow> 0 | Fail \<Rightarrow> 1 | EnvError \<Rightarrow> 3 | Inconclusive \<Rightarrow> 4)"

text \<open>Verdicts ordered by how much they say against a pass.\<close>

definition severity :: "verdict \<Rightarrow> nat" where
  "severity v = (case v of Pass \<Rightarrow> 0 | Inconclusive \<Rightarrow> 1 | Fail \<Rightarrow> 2 | EnvError \<Rightarrow> 3)"

lemma severity_inject: "severity v = severity w \<longleftrightarrow> v = w"
  by (cases v; cases w) (simp_all add: severity_def)

instantiation verdict :: linorder
begin

definition less_eq_verdict :: "verdict \<Rightarrow> verdict \<Rightarrow> bool" where
  "less_eq_verdict v w \<longleftrightarrow> severity v \<le> severity w"

definition less_verdict :: "verdict \<Rightarrow> verdict \<Rightarrow> bool" where
  "less_verdict v w \<longleftrightarrow> severity v < severity w"

instance
  by standard (auto simp: less_eq_verdict_def less_verdict_def severity_inject)

end

record slot_verdict =
  sv_verdict :: verdict
  sv_detail :: string

fun fold_scan :: "slot_verdict option \<Rightarrow> slot_verdict option \<Rightarrow> slot_verdict list \<Rightarrow>
    slot_verdict option \<times> slot_verdict option" where
  "fold_scan failed inc [] = (failed, inc)"
| "fold_scan failed inc (s # svs) =
     fold_scan (if sv_verdict s = Fail \<and> failed = None then Some s else failed)
       (if sv_verdict s = Inconclusive \<and> inc = None then Some s else inc) svs"

definition fold_verdicts :: "slot_verdict list \<Rightarrow> verdict \<times> string" where
  "fold_verdicts svs = (case fold_scan None None svs of
      (Some s, _) \<Rightarrow> (Fail, sv_detail s)
    | (None, Some s) \<Rightarrow> (Inconclusive, sv_detail s)
    | (None, None) \<Rightarrow> (Pass, ''ok''))"

section \<open>Checked arithmetic\<close>

abbreviation SIZE_MAX :: u64 where "SIZE_MAX \<equiv> -1"

definition checked_add :: "u64 \<Rightarrow> u64 \<Rightarrow> u64 option" where
  "checked_add a b = (if SIZE_MAX - b < a then None else Some (a + b))"

definition checked_mul :: "u64 \<Rightarrow> u64 \<Rightarrow> u64 option" where
  "checked_mul a b = (if a \<noteq> 0 \<and> SIZE_MAX div a < b then None else Some (a * b))"

definition arena_align :: u64 where "arena_align = 4096"

definition arena_align_up :: "u64 \<Rightarrow> u64 option" where
  "arena_align_up v = map_option (\<lambda>r. (r div arena_align) * arena_align) (checked_add v (arena_align - 1))"

definition arena_align_down :: "u64 \<Rightarrow> u64" where
  "arena_align_down v = (v div arena_align) * arena_align"

section \<open>Layout\<close>

record span =
  sp_offset :: u64
  sp_len :: u64

record slot =
  sl_payload :: span
  sl_lead_guard :: span
  sl_trail_guard :: span

record layout =
  ly_xfer :: u64
  ly_guard :: u64
  ly_base_region :: u64
  ly_cell :: u64

definition build_layout :: "u64 \<Rightarrow> u64 \<Rightarrow> string + layout" where
  "build_layout xfer guard =
     (case Option.bind (checked_add xfer guard) arena_align_up of
        None \<Rightarrow> Inl ''base region overflow''
      | Some base_region \<Rightarrow>
          (case Option.bind (Option.bind (checked_add guard xfer) (\<lambda>tmp. checked_add tmp guard)) arena_align_up of
             None \<Rightarrow> Inl ''cell size overflow''
           | Some cell \<Rightarrow> Inr \<lparr>ly_xfer = xfer, ly_guard = guard, ly_base_region = base_region, ly_cell = cell\<rparr>))"

definition base_slot :: "layout \<Rightarrow> slot" where
  "base_slot L = \<lparr>sl_payload = \<lparr>sp_offset = 0, sp_len = ly_xfer L\<rparr>, sl_lead_guard = \<lparr>sp_offset = 0, sp_len = 0\<rparr>,
     sl_trail_guard = \<lparr>sp_offset = ly_xfer L, sp_len = ly_base_region L - ly_xfer L\<rparr>\<rparr>"

definition interior_slot :: "layout \<Rightarrow> u64 \<Rightarrow> u64 \<Rightarrow> slot option" where
  "interior_slot L j arena =
     Option.bind (checked_mul j (ly_cell L)) (\<lambda>c.
     Option.bind (checked_add (ly_base_region L) c) (\<lambda>cell_start.
     Option.bind (checked_add cell_start (ly_guard L)) (\<lambda>off.
     Option.bind (checked_add off (ly_xfer L)) (\<lambda>end_off.
     Option.bind (checked_add cell_start (ly_cell L)) (\<lambda>slot_end.
       if arena < slot_end then None
       else Some \<lparr>sl_payload = \<lparr>sp_offset = off, sp_len = ly_xfer L\<rparr>,
         sl_lead_guard = \<lparr>sp_offset = cell_start, sp_len = ly_guard L\<rparr>,
         sl_trail_guard = \<lparr>sp_offset = end_off, sp_len = slot_end - end_off\<rparr>\<rparr>)))))"

definition arena_for_slots :: "layout \<Rightarrow> u64 \<Rightarrow> u64" where
  "arena_for_slots L n =
     (case Option.bind (checked_mul n (ly_cell L)) (checked_add (ly_base_region L)) of
        None \<Rightarrow> SIZE_MAX | Some total_len \<Rightarrow> total_len)"

section \<open>Bytes of the arena\<close>

definition kGuardByte :: char where "kGuardByte = CHR 0xC3"

definition write_span :: "string \<Rightarrow> span \<Rightarrow> string \<Rightarrow> string" where
  "write_span buf s src = (if sp_len s = 0 then buf else poke buf (unat (sp_offset s)) (take (unat (sp_len s)) src))"

definition fill_span :: "string \<Rightarrow> span \<Rightarrow> char \<Rightarrow> string" where
  "fill_span buf s byte = (if sp_len s = 0 then buf else poke buf (unat (sp_offset s)) (replicate (unat (sp_len s)) byte))"

definition read_span :: "string \<Rightarrow> span \<Rightarrow> string" where
  "read_span buf s = take (unat (sp_len s)) (drop (unat (sp_offset s)) buf)"

definition all_bytes :: "string \<Rightarrow> char \<Rightarrow> bool" where
  "all_bytes v byte = list_all (\<lambda>c. c = byte) v"

definition make_poison :: "u64 \<Rightarrow> string" where
  "make_poison len = map (\<lambda>i. char_of ((i * 167 + 13) mod 256)) [0..<unat len]"

definition prepare_slot :: "string \<Rightarrow> slot \<Rightarrow> string \<Rightarrow> string" where
  "prepare_slot arena s poison =
     fill_span (fill_span (write_span arena (sl_payload s) poison) (sl_lead_guard s) kGuardByte) (sl_trail_guard s) kGuardByte"

section \<open>Arithmetic lemmas\<close>

lemma unat_SIZE_MAX: "unat SIZE_MAX = 2 ^ 64 - 1"
  by (simp add: unsigned_minus_1_eq_mask mask_eq_exp_minus_1)

lemma checked_add_Some: "checked_add a b = Some c \<longleftrightarrow> unat a + unat b < 2 ^ 64 \<and> unat c = unat a + unat b"
proof -
  have "unat (SIZE_MAX - b) = 2 ^ 64 - 1 - unat b"
    using unat_sub [of b SIZE_MAX] by (simp add: unat_SIZE_MAX)
  then have "SIZE_MAX - b < a \<longleftrightarrow> \<not> unat a + unat b < 2 ^ 64"
    using unat_u64_lt [of a] unat_u64_lt [of b] by (auto simp: word_less_nat_alt)
  then show ?thesis
    by (auto simp: checked_add_def word_unat_eq_iff unat_add_u64)
qed

lemma checked_mul_Some: "checked_mul a b = Some c \<longleftrightarrow> unat a * unat b < 2 ^ 64 \<and> unat c = unat a * unat b"
proof (cases "a = 0")
  case True
  then show ?thesis by (auto simp: checked_mul_def unat_eq_zero)
next
  case False
  then have a: "0 < unat a" by (simp add: unat_gt_0)
  have "SIZE_MAX div a < b \<longleftrightarrow> (2 ^ 64 - 1) div unat a < unat b"
    by (simp add: word_less_nat_alt unat_div unat_SIZE_MAX)
  also have "\<dots> \<longleftrightarrow> \<not> unat b * unat a \<le> 2 ^ 64 - 1"
    using less_eq_div_iff_mult_less_eq [OF a, of "unat b" "2 ^ 64 - 1"] by linarith
  also have "\<dots> \<longleftrightarrow> \<not> unat a * unat b < 2 ^ 64" by (simp add: mult.commute) linarith
  finally show ?thesis using False by (auto simp: checked_mul_def word_unat_eq_iff unat_mult_u64)
qed

lemma arena_align_up_Some:
  assumes "arena_align_up v = Some r"
  shows "unat v \<le> unat r" "unat r < unat v + 4096" "4096 dvd unat r"
proof -
  obtain t where t: "checked_add v (arena_align - 1) = Some t" and r: "r = (t div arena_align) * arena_align"
    using assms by (auto simp: arena_align_up_def)
  have ut: "unat t = unat v + 4095" using t by (simp add: checked_add_Some arena_align_def)
  have "unat t div 4096 * 4096 < 2 ^ 64" using unat_u64_lt [of t] by (rule le_less_trans [OF div_times_less_eq_dividend])
  then have ur: "unat r = unat t div 4096 * 4096"
    unfolding r by (simp add: arena_align_def unat_div unat_word_ariths)
  then show "unat v \<le> unat r" "unat r < unat v + 4096" "4096 dvd unat r"
    using ut by (auto simp: algebra_simps)
qed

lemma arena_align_down_le: "unat (arena_align_down v) \<le> unat v" "4096 dvd unat (arena_align_down v)"
proof -
  have "unat v div 4096 * 4096 < 2 ^ 64" using unat_u64_lt [of v] by (rule le_less_trans [OF div_times_less_eq_dividend])
  then have "unat (arena_align_down v) = unat v div 4096 * 4096"
    by (simp add: arena_align_down_def arena_align_def unat_div unat_word_ariths)
  then show "unat (arena_align_down v) \<le> unat v" "4096 dvd unat (arena_align_down v)" by simp_all
qed

section \<open>Layout lemmas\<close>

text \<open>A slot is one block of consecutive bytes: lead guard, payload, trailing guard.\<close>

definition slot_start :: "slot \<Rightarrow> nat" where
  "slot_start s = unat (sp_offset (sl_lead_guard s))"

definition slot_end :: "slot \<Rightarrow> nat" where
  "slot_end s = unat (sp_offset (sl_trail_guard s)) + unat (sp_len (sl_trail_guard s))"

definition slot_bytes :: "slot \<Rightarrow> nat set" where
  "slot_bytes s = {slot_start s..<slot_end s}"

definition contiguous :: "slot \<Rightarrow> bool" where
  "contiguous s \<longleftrightarrow>
     slot_start s + unat (sp_len (sl_lead_guard s)) = unat (sp_offset (sl_payload s))
     \<and> unat (sp_offset (sl_payload s)) + unat (sp_len (sl_payload s)) = unat (sp_offset (sl_trail_guard s))"

lemma build_layout_Inr:
  assumes "build_layout xfer guard = Inr L"
  shows "ly_xfer L = xfer" "ly_guard L = guard"
    "unat xfer + unat guard \<le> unat (ly_base_region L)"
    "unat guard + unat xfer + unat guard \<le> unat (ly_cell L)"
    "4096 dvd unat (ly_base_region L)" "4096 dvd unat (ly_cell L)"
proof -
  obtain t t' where t: "unat t = unat xfer + unat guard" "arena_align_up t = Some (ly_base_region L)"
    and t': "unat t' = unat guard + unat xfer + unat guard" "arena_align_up t' = Some (ly_cell L)"
    and L: "ly_xfer L = xfer" "ly_guard L = guard"
    using assms by (auto simp: build_layout_def checked_add_Some bind_eq_Some_conv split: option.splits)
  show "ly_xfer L = xfer" "ly_guard L = guard" by (rule L)+
  show "unat xfer + unat guard \<le> unat (ly_base_region L)" "4096 dvd unat (ly_base_region L)"
    using arena_align_up_Some [OF t(2)] t(1) by simp_all
  show "unat guard + unat xfer + unat guard \<le> unat (ly_cell L)" "4096 dvd unat (ly_cell L)"
    using arena_align_up_Some [OF t'(2)] t'(1) by simp_all
qed

lemma interior_slot_Some:
  assumes "build_layout xfer guard = Inr L" and "interior_slot L j arena = Some s"
  shows "contiguous s" "slot_start s = unat (ly_base_region L) + unat j * unat (ly_cell L)"
    "slot_end s = slot_start s + unat (ly_cell L)" "slot_end s \<le> unat arena"
    "sp_len (sl_lead_guard s) = guard" "sp_len (sl_payload s) = xfer"
proof -
  note L = build_layout_Inr [OF assms(1)]
  obtain c st off en se where eqs: "checked_mul j (ly_cell L) = Some c" "checked_add (ly_base_region L) c = Some st"
      "checked_add st guard = Some off" "checked_add off xfer = Some en" "checked_add st (ly_cell L) = Some se"
    and fits: "se \<le> arena"
    and s: "s = \<lparr>sl_payload = \<lparr>sp_offset = off, sp_len = xfer\<rparr>, sl_lead_guard = \<lparr>sp_offset = st, sp_len = guard\<rparr>,
      sl_trail_guard = \<lparr>sp_offset = en, sp_len = se - en\<rparr>\<rparr>"
    using assms(2) L(1,2) by (auto simp: interior_slot_def bind_eq_Some_conv not_less split: if_splits)
  then have sums: "unat c = unat j * unat (ly_cell L)" "unat st = unat (ly_base_region L) + unat c"
      "unat off = unat st + unat guard" "unat en = unat off + unat xfer" "unat se = unat st + unat (ly_cell L)"
    by (simp_all only: checked_add_Some checked_mul_Some)
  have "unat en \<le> unat se" using sums L(4) by simp
  then have "unat (se - en) = unat se - unat en" by (simp add: unat_sub_u64 word_le_nat_alt)
  then show "contiguous s" "slot_start s = unat (ly_base_region L) + unat j * unat (ly_cell L)"
    "slot_end s = slot_start s + unat (ly_cell L)" "slot_end s \<le> unat arena"
    "sp_len (sl_lead_guard s) = guard" "sp_len (sl_payload s) = xfer"
    using sums fits \<open>unat en \<le> unat se\<close>
    by (simp_all add: contiguous_def slot_start_def slot_end_def s word_le_nat_alt)
qed

lemma checked_add_fits: "unat a + unat b < 2 ^ 64 \<Longrightarrow> \<exists>c. checked_add a b = Some c \<and> unat c = unat a + unat b"
  by (rule exI [of _ "a + b"]) (simp add: checked_add_Some unat_add_u64)

lemma checked_mul_fits: "unat a * unat b < 2 ^ 64 \<Longrightarrow> \<exists>c. checked_mul a b = Some c \<and> unat c = unat a * unat b"
  by (rule exI [of _ "a * b"]) (simp add: checked_mul_Some unat_mult_u64)

lemma interior_slot_exists:
  assumes "build_layout xfer guard = Inr L"
    and room: "unat (ly_base_region L) + (unat j + 1) * unat (ly_cell L) \<le> unat arena"
  shows "\<exists>s. interior_slot L j arena = Some s"
proof -
  note L = build_layout_Inr [OF assms(1)]
  have lim: "unat (ly_base_region L) + unat j * unat (ly_cell L) + unat (ly_cell L) < 2 ^ 64"
    using room unat_u64_lt [of arena] by simp
  then obtain c where c: "checked_mul j (ly_cell L) = Some c" "unat c = unat j * unat (ly_cell L)"
    using checked_mul_fits [of j "ly_cell L"] by auto
  then obtain st where st: "checked_add (ly_base_region L) c = Some st"
    "unat st = unat (ly_base_region L) + unat j * unat (ly_cell L)"
    using checked_add_fits [of "ly_base_region L" c] lim by auto
  then obtain off where off: "checked_add st guard = Some off" "unat off = unat st + unat guard"
    using checked_add_fits [of st guard] lim L(4) by auto
  then obtain en where en: "checked_add off xfer = Some en"
    using checked_add_fits [of off xfer] lim L(4) st by auto
  obtain se where se: "checked_add st (ly_cell L) = Some se" "unat se = unat st + unat (ly_cell L)"
    using checked_add_fits [of st "ly_cell L"] lim st by auto
  have "\<not> arena < se" using se(2) st(2) room by (simp add: word_less_nat_alt)
  then show ?thesis using c st off en se L(1,2) by (simp add: interior_slot_def)
qed

lemma base_slot_facts:
  assumes "build_layout xfer guard = Inr L"
  shows "contiguous (base_slot L)" "slot_start (base_slot L) = 0" "slot_end (base_slot L) = unat (ly_base_region L)"
proof -
  note L = build_layout_Inr [OF assms]
  have "xfer \<le> ly_base_region L" using L(3) by (simp add: word_le_nat_alt)
  then show "contiguous (base_slot L)" "slot_start (base_slot L) = 0" "slot_end (base_slot L) = unat (ly_base_region L)"
    using L(1) by (simp_all add: base_slot_def contiguous_def slot_start_def slot_end_def unat_sub_u64 word_le_nat_alt)
qed

lemma interior_slots_disjoint:
  assumes "build_layout xfer guard = Inr L"
    and "interior_slot L i arena = Some s" and "interior_slot L j arena' = Some t" and "i < j"
  shows "slot_end s \<le> slot_start t"
proof -
  have "(unat i + 1) * unat (ly_cell L) \<le> unat j * unat (ly_cell L)"
    using assms(4) by (intro mult_le_mono1) (simp add: word_less_nat_alt)
  then show ?thesis using interior_slot_Some [OF assms(1,2)] interior_slot_Some [OF assms(1,3)] by simp
qed

section \<open>Span lemmas\<close>

text \<open>Preparing a slot writes exactly its own bytes: poison in the payload, guard bytes around it.\<close>

lemma length_make_poison [simp]: "length (make_poison n) = unat n"
  by (simp add: make_poison_def)

lemma fill_span_poke: "fill_span buf s b = poke buf (unat (sp_offset s)) (replicate (unat (sp_len s)) b)"
  by (auto simp: fill_span_def poke_def)

lemma write_span_poke: "length src = unat (sp_len s) \<Longrightarrow> write_span buf s src = poke buf (unat (sp_offset s)) src"
  by (auto simp: write_span_def poke_def)

lemma prepare_slot_effect:
  assumes "contiguous s" and "slot_end s \<le> length arena" and "length poison = unat (sp_len (sl_payload s))"
  shows "length (prepare_slot arena s poison) = length arena"
    "read_span (prepare_slot arena s poison) (sl_payload s) = poison"
    "all_bytes (read_span (prepare_slot arena s poison) (sl_lead_guard s)) kGuardByte"
    "all_bytes (read_span (prepare_slot arena s poison) (sl_trail_guard s)) kGuardByte"
    "b + n \<le> slot_start s \<or> slot_end s \<le> b \<and> b + n \<le> length arena \<Longrightarrow>
       take n (drop b (prepare_slot arena s poison)) = take n (drop b arena)"
proof -
  let ?p = "unat (sp_offset (sl_payload s))" and ?l = "unat (sp_offset (sl_lead_guard s))"
    and ?t = "unat (sp_offset (sl_trail_guard s))"
    and ?ln = "unat (sp_len (sl_lead_guard s))" and ?tn = "unat (sp_len (sl_trail_guard s))"
  define a1 where "a1 = poke arena ?p poison"
  define a2 where "a2 = poke a1 ?l (replicate ?ln kGuardByte)"
  define a3 where "a3 = poke a2 ?t (replicate ?tn kGuardByte)"
  have r: "prepare_slot arena s poison = a3"
    using assms(3) by (simp add: prepare_slot_def write_span_poke fill_span_poke a1_def a2_def a3_def)
  have c: "?l + ?ln = ?p" "?p + length poison = ?t" "?t + ?tn \<le> length arena"
    using assms by (simp_all add: contiguous_def slot_start_def slot_end_def)
  have l1: "length a1 = length arena" unfolding a1_def using c by (intro poke_length) simp
  have l2: "length a2 = length arena" unfolding a2_def using c l1 by (subst poke_length) simp_all
  show l3: "length (prepare_slot arena s poison) = length arena"
    unfolding r a3_def using c l2 by (subst poke_length) simp_all
  have 3: "take n (drop b a3) = take n (drop b a2)" if "b + n \<le> length arena" "b + n \<le> ?t \<or> ?t + ?tn \<le> b" for b n
    unfolding a3_def using that c l2 by (intro poke_read_other) auto
  have 2: "take n (drop b a2) = take n (drop b a1)" if "b + n \<le> length arena" "b + n \<le> ?l \<or> ?p \<le> b" for b n
    unfolding a2_def using that c l1 by (intro poke_read_other) auto
  have 1: "take n (drop b a1) = take n (drop b arena)" if "b + n \<le> length arena" "b + n \<le> ?p \<or> ?t \<le> b" for b n
    unfolding a1_def using that c by (intro poke_read_other) auto
  have "take (length poison) (drop ?p a3) = take (length poison) (drop ?p a1)" using 3 2 c by simp
  also have "\<dots> = poison" unfolding a1_def using c by (intro poke_read_same) simp
  finally show "read_span (prepare_slot arena s poison) (sl_payload s) = poison"
    by (simp add: r read_span_def assms(3))
  have "take ?ln (drop ?l a3) = take ?ln (drop ?l a2)" using 3 c by simp
  also have "\<dots> = replicate ?ln kGuardByte"
    unfolding a2_def using poke_read_same [of ?l "replicate ?ln kGuardByte" a1] c l1 by simp
  finally show "all_bytes (read_span (prepare_slot arena s poison) (sl_lead_guard s)) kGuardByte"
    by (simp add: r read_span_def all_bytes_def list_all_iff)
  have "take ?tn (drop ?t a3) = replicate ?tn kGuardByte"
    unfolding a3_def using poke_read_same [of ?t "replicate ?tn kGuardByte" a2] c l2 by simp
  then show "all_bytes (read_span (prepare_slot arena s poison) (sl_trail_guard s)) kGuardByte"
    by (simp add: r read_span_def all_bytes_def list_all_iff)
  show "take n (drop b (prepare_slot arena s poison)) = take n (drop b arena)"
    if "b + n \<le> slot_start s \<or> slot_end s \<le> b \<and> b + n \<le> length arena"
  proof -
    have "b + n \<le> ?l \<or> ?t + ?tn \<le> b" "b + n \<le> length arena"
      using that c by (auto simp: slot_start_def slot_end_def)
    moreover from this c have "b + n \<le> ?t \<or> ?t + ?tn \<le> b" "b + n \<le> ?l \<or> ?p \<le> b" "b + n \<le> ?p \<or> ?t \<le> b" by auto
    ultimately show ?thesis by (simp only: r 3 2 1)
  qed
qed

section \<open>Folding\<close>

lemma fold_scan_find:
  "fold_scan f i svs =
     ((case f of None \<Rightarrow> find (\<lambda>s. sv_verdict s = Fail) svs | Some s \<Rightarrow> Some s),
      (case i of None \<Rightarrow> find (\<lambda>s. sv_verdict s = Inconclusive) svs | Some s \<Rightarrow> Some s))"
  by (induction f i svs rule: fold_scan.induct) (auto split: option.splits)

lemma find_split: "find P xs = Some x \<Longrightarrow> \<exists>us vs. xs = us @ x # vs \<and> P x \<and> (\<forall>u \<in> set us. \<not> P u)"
proof (induction xs)
  case (Cons y ys)
  show ?case
  proof (cases "P y")
    case True
    with Cons.prems show ?thesis by (intro exI [of _ "[]"] exI [of _ ys]) simp
  next
    case False
    with Cons obtain us vs where "ys = us @ x # vs" "P x" "\<forall>u \<in> set us. \<not> P u" by auto
    with False show ?thesis by (intro exI [of _ "y # us"] exI [of _ vs]) simp
  qed
qed simp

lemma fold_verdicts_Pass: "fst (fold_verdicts svs) = Pass \<longleftrightarrow> (\<forall>s \<in> set svs. sv_verdict s \<notin> {Fail, Inconclusive})"
  by (auto simp: fold_verdicts_def fold_scan_find find_None_iff find_Some_iff split: option.splits)

section \<open>Properties\<close>

text \<open>The arena is cut into disjoint guarded cells: in an accepted layout every slot is lead guard, payload and
  trailing guard back to back with at least \<open>guard\<close> bytes on each side inside its own cell, two cells never
  share a byte, none touches the base region, none reaches past the arena, and an arena of
  \<open>arena_for_slots L n\<close> bytes has room for the first \<open>n\<close> of them; no sum or product wraps.\<close>

lemma layout_guarded:
  assumes "build_layout xfer guard = Inr L"
    and "interior_slot L i arena = Some s" and "interior_slot L j arena = Some t" and "i \<noteq> j"
  shows "contiguous s \<and> sp_len (sl_payload s) = xfer \<and> sp_len (sl_lead_guard s) = guard
    \<and> unat guard \<le> unat (sp_len (sl_trail_guard s)) \<and> slot_bytes s \<subseteq> {..<unat arena}
    \<and> slot_bytes s \<inter> slot_bytes t = {} \<and> slot_bytes (base_slot L) \<inter> slot_bytes s = {}
    \<and> (arena_for_slots L n \<noteq> SIZE_MAX \<and> k < n \<and> arena_for_slots L n \<le> arena' \<longrightarrow> interior_slot L k arena' \<noteq> None)"
proof -
  note L = build_layout_Inr [OF assms(1)] and S = interior_slot_Some [OF assms(1,2)] and T = interior_slot_Some [OF assms(1,3)]
  have "slot_end s \<le> slot_start t \<or> slot_end t \<le> slot_start s"
    using interior_slots_disjoint [OF assms(1,2,3)] interior_slots_disjoint [OF assms(1,3,2)] assms(4)
    by (metis linorder_less_linear)
  then have "slot_bytes s \<inter> slot_bytes t = {}" by (auto simp: slot_bytes_def)
  moreover have "slot_bytes (base_slot L) \<inter> slot_bytes s = {}"
    using base_slot_facts [OF assms(1)] S(2) by (auto simp: slot_bytes_def)
  moreover have "unat guard \<le> unat (sp_len (sl_trail_guard s))"
    using S L(4) by (simp add: contiguous_def slot_start_def slot_end_def)
  moreover have "interior_slot L k arena' \<noteq> None"
    if n: "arena_for_slots L n \<noteq> SIZE_MAX" and k: "k < n" and le: "arena_for_slots L n \<le> arena'"
  proof -
    obtain c t where c: "checked_mul n (ly_cell L) = Some c" "checked_add (ly_base_region L) c = Some t"
      and t: "arena_for_slots L n = t"
      using n by (auto simp: arena_for_slots_def bind_eq_Some_conv split: option.splits)
    have "(unat k + 1) * unat (ly_cell L) \<le> unat n * unat (ly_cell L)"
      using k by (intro mult_le_mono1) (simp add: word_less_nat_alt)
    moreover have "unat t = unat (ly_base_region L) + unat n * unat (ly_cell L)"
      using c by (simp add: checked_add_Some checked_mul_Some)
    moreover have "unat t \<le> unat arena'" using le t by (simp add: word_le_nat_alt)
    ultimately have "unat (ly_base_region L) + (unat k + 1) * unat (ly_cell L) \<le> unat arena'" by linarith
    from interior_slot_exists [OF assms(1) this] show ?thesis by auto
  qed
  ultimately show ?thesis using S by (auto simp: slot_bytes_def)
qed

text \<open>Folding takes the worst slot: over slot verdicts without an environment error the folded verdict is the
  maximum in the order Pass, Inconclusive, Fail (Pass when there is no slot), and the detail is that of
  the first slot with that verdict, so a later failure never keeps an earlier explanation.\<close>

lemma fold_takes_worst:
  assumes "EnvError \<notin> sv_verdict ` set svs"
  shows "fst (fold_verdicts svs) = Max (insert Pass (sv_verdict ` set svs))
    \<and> (fst (fold_verdicts svs) = Pass
       \<or> (\<exists>us s vs. svs = us @ s # vs \<and> sv_verdict s = fst (fold_verdicts svs) \<and> sv_detail s = snd (fold_verdicts svs)
           \<and> fst (fold_verdicts svs) \<notin> sv_verdict ` set us))"
proof -
  obtain v d where vd: "fold_verdicts svs = (v, d)" by force
  consider (failed) s where "find (\<lambda>s. sv_verdict s = Fail) svs = Some s" "v = Fail" "d = sv_detail s"
    | (inc) s where "find (\<lambda>s. sv_verdict s = Fail) svs = None" "find (\<lambda>s. sv_verdict s = Inconclusive) svs = Some s"
        "v = Inconclusive" "d = sv_detail s"
    | (ok) "find (\<lambda>s. sv_verdict s = Fail) svs = None" "find (\<lambda>s. sv_verdict s = Inconclusive) svs = None" "v = Pass"
    using vd by (auto simp: fold_verdicts_def fold_scan_find split: option.splits)
  note outcome = this
  have first: "v = Pass \<or> (\<exists>us s vs. svs = us @ s # vs \<and> sv_verdict s = v \<and> sv_detail s = d \<and> v \<notin> sv_verdict ` set us)"
  proof (cases rule: outcome)
    case failed
    obtain us vs where "svs = us @ s # vs" "sv_verdict s = Fail" "\<forall>u \<in> set us. sv_verdict u \<noteq> Fail"
      using find_split [OF failed(1)] by metis
    with failed(2,3) show ?thesis by (intro disjI2 exI [of _ us] exI [of _ s] exI [of _ vs]) auto
  next
    case inc
    obtain us vs where "svs = us @ s # vs" "sv_verdict s = Inconclusive" "\<forall>u \<in> set us. sv_verdict u \<noteq> Inconclusive"
      using find_split [OF inc(2)] by metis
    with inc(3,4) show ?thesis by (intro disjI2 exI [of _ us] exI [of _ s] exI [of _ vs]) auto
  qed simp
  have "w \<le> v" if "w \<in> sv_verdict ` set svs" for w
  proof (cases rule: outcome)
    case failed
    with that assms show ?thesis by (cases w) (auto simp: less_eq_verdict_def severity_def)
  next
    case inc
    with that assms show ?thesis by (cases w) (auto simp: find_None_iff less_eq_verdict_def severity_def)
  next
    case ok
    with that assms show ?thesis by (cases w) (auto simp: find_None_iff less_eq_verdict_def severity_def)
  qed
  moreover have "Pass \<le> v" by (simp add: less_eq_verdict_def severity_def)
  moreover have "v \<in> insert Pass (sv_verdict ` set svs)" using first by auto
  ultimately have "v = Max (insert Pass (sv_verdict ` set svs))" by (intro Max_eqI [symmetric]) auto
  with first vd show ?thesis by simp
qed

end
