(* ===== verification/Scope_Probe.thy ===== *)
theory Scope_Probe
  imports Scope_Layout Client Jsonl
begin

text \<open>
  The second half of \<^verbatim>\<open>probe/scope_probe_main.cpp\<close>: the JSON lines, the callback, the options, HEAD, the
  GET primitives, the verification of a slot and the experiments of \<^verbatim>\<open>main\<close>. Addresses are relative to the
  arena. The RDMA SDK is the record \<open>sdk\<close> of what its calls return (a GET also returns how often it
  called back and the arena it left); HTTP, SHA-256 and HMAC are functions. Only registrations are traced
  in the experiments; their other log lines and the times are not modelled.
\<close>

section \<open>JSON lines\<close>

definition escape_char :: "char \<Rightarrow> string" where
  "escape_char c = (if c = DQ \<or> c = BSL then [BSL, c] else if ord c < 32 then u_escape c else [c])"

definition escape :: "string \<Rightarrow> string" where
  "escape s = concat (map escape_char s)"

type_synonym line = string

definition line_new :: "string \<Rightarrow> string \<Rightarrow> line" where
  "line_new tag event = ''{'' @ [DQ] @ ''case'' @ [DQ] @ '':'' @ [DQ] @ tag @ [DQ] @ '','' @ [DQ] @ ''event'' @ [DQ] @ '':''
     @ [DQ] @ event @ [DQ]"

definition line_str :: "string \<Rightarrow> string \<Rightarrow> line \<Rightarrow> line" where
  "line_str k v buf = buf @ '','' @ [DQ] @ k @ [DQ] @ '':'' @ [DQ] @ escape v @ [DQ]"

definition line_num :: "string \<Rightarrow> int \<Rightarrow> line \<Rightarrow> line" where
  "line_num k v buf = buf @ '','' @ [DQ] @ k @ [DQ] @ '':'' @ to_string_int v"

definition line_boolean :: "string \<Rightarrow> bool \<Rightarrow> line \<Rightarrow> line" where
  "line_boolean k v buf = buf @ '','' @ [DQ] @ k @ [DQ] @ '':'' @ (if v then ''true'' else ''false'')"

definition line_emit :: "line \<Rightarrow> string" where
  "line_emit buf = c_str buf @ ''}'' @ [LF]"

section \<open>Visibility\<close>

record visibility =
  vi_raw :: int
  vi_name :: string
  vi_trustworthy :: bool

text \<open>\<open>attr\<close> is what \<^verbatim>\<open>cudaDeviceGetAttribute\<close> delivers.\<close>

definition read_visibility :: "buffer_mode \<Rightarrow> int option \<Rightarrow> visibility" where
  "read_visibility mode attr = (case mode of
      Host \<Rightarrow> \<lparr>vi_raw = -1, vi_name = ''host_na'', vi_trustworthy = True\<rparr>
    | Gpu \<Rightarrow> (case attr of
        None \<Rightarrow> \<lparr>vi_raw = -1, vi_name = ''query_failed'', vi_trustworthy = False\<rparr>
      | Some v \<Rightarrow>
          if 200 \<le> v then \<lparr>vi_raw = v, vi_name = ''all_devices'', vi_trustworthy = True\<rparr>
          else if 100 \<le> v then \<lparr>vi_raw = v, vi_name = ''owner'', vi_trustworthy = True\<rparr>
          else \<lparr>vi_raw = v, vi_name = ''none'', vi_trustworthy = False\<rparr>))"

section \<open>Callback\<close>

record probe_context =
  pc_tag :: string
  pc_who :: string
  pc_host :: string
  pc_port :: int
  pc_path :: string
  pc_range :: string
  pc_proto :: protocol_options
  pc_arena_base :: u64
  pc_callbacks :: nat

datatype cb_event = Logged string | Requested string header_list

fun exn_what :: "cxx_exn \<Rightarrow> string" where
  "exn_what (Invalid_argument s) = s"
| "exn_what (Runtime_error s) = s"

definition probe_request ::
  "(string \<Rightarrow> string option) \<Rightarrow> (string \<Rightarrow> string \<Rightarrow> string option) \<Rightarrow> tm \<Rightarrow> probe_context \<Rightarrow> string \<Rightarrow>
   (string \<times> header_list) result" where
  "probe_request SHA256 HMAC now ctx desc =
     (let proto = pc_proto ctx;
          token = encode_rdma_token desc (po_token_encoding proto);
          target = control_plane_target proto (pc_path ctx)
      in bind_res (control_plane_headers SHA256 HMAC proto ''GET'' (http_host_header (pc_host ctx) (pc_port ctx))
                     (pc_path ctx) (pc_range ctx) token now)
           (\<lambda>headers. Inr (target,
              if token = [] \<and> po_token_encoding proto = Base64 \<and> po_auth proto = AuthNone
              then headers @ [(kHdrRdmaToken, [])] else headers)))"

definition kind_name :: "reply_kind \<Rightarrow> string" where
  "kind_name k = (case k of Code \<Rightarrow> ''code'' | Declined \<Rightarrow> ''declined'' | Malformed \<Rightarrow> ''malformed'')"

text \<open>The response: what the callback returns, and what it adds to its closing line.\<close>

definition probe_response :: "protocol_options \<Rightarrow> u64 \<Rightarrow> string + http_reply \<Rightarrow> line \<Rightarrow> int \<times> line" where
  "probe_response proto sz res line = (case res of
      Inl terr \<Rightarrow> (-1, line_str ''transport_error'' terr (line_boolean ''http_ok'' False line))
    | Inr res \<Rightarrow>
        let reply_present = has_header res kHdrRdmaReply;
            raw = (if reply_present then header_value res kHdrRdmaReply else []);
            reply = parse_rdma_reply reply_present raw;
            count_present = has_header res kHdrRdmaBytesTransferred;
            declared = parse_rdma_bytes_transferred count_present
              (if count_present then header_value res kHdrRdmaBytesTransferred else []) sz;
            line = line_num ''http_status'' (int (hr_status res)) (line_boolean ''http_ok'' True line);
            line = line_num ''reply_code'' (int (rr_code reply)) (line_str ''reply_kind'' (kind_name (rr_kind reply))
              (line_str ''reply_b64'' (base64_encode raw) (line_boolean ''reply_present'' reply_present line)));
            line = line_num ''bytes_transferred_declared'' declared (line_boolean ''count_present'' count_present line);
            rc = (if hr_status res = 200 \<or> hr_status res = 206 then
                    if po_token_encoding proto = Base64 then sint sz
                    else if rr_kind reply = Code \<and> rr_code reply = hr_status res then declared
                    else -1
                  else -1)
        in (rc, line))"

definition probe_get_callback ::
  "(string \<Rightarrow> string option) \<Rightarrow> (string \<Rightarrow> string \<Rightarrow> string option) \<Rightarrow> tm \<Rightarrow>
   (string \<Rightarrow> int \<Rightarrow> string \<Rightarrow> header_list \<Rightarrow> string + http_reply) \<Rightarrow>
   probe_context option \<Rightarrow> string option \<Rightarrow> u64 \<Rightarrow> u64 \<Rightarrow> int \<Rightarrow> int \<times> cb_event list \<times> probe_context option" where
  "probe_get_callback SHA256 HMAC now http ctx desc ptr sz offset =
     (case (ctx, desc) of
        (Some ctx, Some desc) \<Rightarrow>
          let idx = int (pc_callbacks ctx);
              ctx' = ctx\<lparr>pc_callbacks := pc_callbacks ctx + 1\<rparr>;
              opening = line_num ''cb_offset'' offset (line_num ''cb_size'' (sint sz)
                (line_num ''ptr_delta'' (sint (ptr - pc_arena_base ctx)) (line_num ''call_index'' idx
                (line_str ''who'' (pc_who ctx) (line_new (pc_tag ctx) ''callback_begin'')))));
              closing = line_num ''call_index'' idx (line_str ''who'' (pc_who ctx) (line_new (pc_tag ctx) ''callback_end''))
          in (case probe_request SHA256 HMAC now ctx desc of
                Inl e \<Rightarrow> (-1, [Logged (line_emit opening), Logged (line_emit (line_num ''returns'' (-1)
                    (line_str ''request_error'' (exn_what e) (line_boolean ''http_ok'' False closing))))], Some ctx')
              | Inr (target, headers) \<Rightarrow>
                  (case probe_response (pc_proto ctx) sz (http (pc_host ctx) (pc_port ctx) target headers) closing of
                     (rc, line) \<Rightarrow> (rc, [Logged (line_emit opening), Requested target headers,
                       Logged (line_emit (line_num ''returns'' rc line))], Some ctx')))
      | _ \<Rightarrow> (-1, [], ctx))"

section \<open>Options\<close>

record scope_options =
  so_host :: string
  so_port :: int
  so_bucket :: string
  so_object :: string
  so_exp :: string
  so_mode :: string
  so_expect_sha :: string
  so_xfer :: u64
  so_guard :: u64
  so_arena_bytes :: u64
  so_concurrent :: int
  so_proto :: protocol_options
  so_base_offset_api :: bool

definition default_scope_options :: scope_options where
  "default_scope_options = \<lparr>so_host = ''127.0.0.1'', so_port = 8080, so_bucket = [], so_object = [], so_exp = [],
     so_mode = ''gpu'', so_expect_sha = [], so_xfer = 4 * 1024 * 1024, so_guard = 64 * 1024, so_arena_bytes = 0,
     so_concurrent = 0, so_proto = default_protocol_options, so_base_offset_api = False\<rparr>"

definition parse_size_arg :: "string \<Rightarrow> u64 option" where
  "parse_size_arg s =
     (if s = [] \<or> hd s = CHR ''-'' \<or> hd s = CHR ''+'' then None
      else case stoull 10 s of
        None \<Rightarrow> None
      | Some (v, pos) \<Rightarrow> if pos \<noteq> length s \<or> v = 0 then None else Some v)"

definition scope_hex_64 :: "string \<Rightarrow> bool" where
  "scope_hex_64 s \<longleftrightarrow> length s = 64 \<and> list_all is_lower_hex s"

definition scope_value :: "string list \<Rightarrow> (string \<Rightarrow> scope_options option) \<Rightarrow> (scope_options \<times> string list) option" where
  "scope_value args f = (case args of [] \<Rightarrow> None | v # rest \<Rightarrow> map_option (\<lambda>o'. (o', rest)) (f v))"

definition scope_server :: "scope_options \<Rightarrow> string \<Rightarrow> scope_options option" where
  "scope_server opts s = (case find_char CHR '':'' s of
      None \<Rightarrow> None
    | Some c \<Rightarrow> (case parse_size_arg (drop (c + 1) s) of
        None \<Rightarrow> None
      | Some p \<Rightarrow> if 65535 < p then None else Some (opts\<lparr>so_host := take c s, so_port := int (unat p)\<rparr>)))"

definition scope_concurrent :: "scope_options \<Rightarrow> string \<Rightarrow> scope_options option" where
  "scope_concurrent opts v =
     (if v = ''0'' then Some (opts\<lparr>so_concurrent := 0\<rparr>)
      else case parse_size_arg v of
        None \<Rightarrow> None
      | Some c \<Rightarrow> if c < 2 \<or> 256 < c then None else Some (opts\<lparr>so_concurrent := int (unat c)\<rparr>))"

definition scope_option :: "scope_options \<Rightarrow> string \<Rightarrow> string list \<Rightarrow> (scope_options \<times> string list) option" where
  "scope_option opts a args =
     (if a = ''--server'' then scope_value args (scope_server opts)
      else if a = ''--bucket'' then scope_value args (\<lambda>v. Some (opts\<lparr>so_bucket := v\<rparr>))
      else if a = ''--object'' then scope_value args (\<lambda>v. Some (opts\<lparr>so_object := v\<rparr>))
      else if a = ''--exp'' then scope_value args (\<lambda>v. Some (opts\<lparr>so_exp := v\<rparr>))
      else if a = ''--mode'' then scope_value args (\<lambda>v.
        if v \<noteq> ''host'' \<and> v \<noteq> ''gpu'' then None else Some (opts\<lparr>so_mode := v\<rparr>))
      else if a = ''--landing-api'' then scope_value args (\<lambda>v.
        if v = ''base-offset'' then Some (opts\<lparr>so_base_offset_api := True\<rparr>)
        else if v = ''pointer'' then Some (opts\<lparr>so_base_offset_api := False\<rparr>) else None)
      else if a = ''--xfer'' then scope_value args (\<lambda>v. map_option (\<lambda>n. opts\<lparr>so_xfer := n\<rparr>) (parse_size_arg v))
      else if a = ''--guard'' then scope_value args (\<lambda>v. map_option (\<lambda>n. opts\<lparr>so_guard := n\<rparr>) (parse_size_arg v))
      else if a = ''--arena-bytes'' then scope_value args (\<lambda>v. map_option (\<lambda>n. opts\<lparr>so_arena_bytes := n\<rparr>) (parse_size_arg v))
      else if a = ''--concurrent'' then scope_value args (scope_concurrent opts)
      else if a = ''--expect-sha'' then scope_value args (\<lambda>v. if scope_hex_64 v then Some (opts\<lparr>so_expect_sha := v\<rparr>) else None)
      else
        (case parse_protocol_flag a (case args of [] \<Rightarrow> None | v # _ \<Rightarrow> Some v) (so_proto opts) of
           (f, proto) \<Rightarrow>
             if pf_matched f \<and> pf_ok f then Some (opts\<lparr>so_proto := proto\<rparr>, if pf_used_value f then drop 1 args else args)
             else None))"

lemma scope_value_Some: "scope_value args f = Some (o', rest) \<longleftrightarrow> (\<exists>v. args = v # rest \<and> f v = Some o')"
  by (cases args) (auto simp: scope_value_def)

lemma scope_option_shorter: "scope_option opts a args = Some (opts', rest) \<Longrightarrow> length rest \<le> length args"
  by (auto simp: scope_option_def scope_value_Some split: if_splits prod.splits)

function scope_option_loop :: "scope_options \<Rightarrow> string list \<Rightarrow> scope_options option" where
  "scope_option_loop opts [] = Some opts"
| "scope_option_loop opts (a # args) =
     (case scope_option opts a args of
        None \<Rightarrow> None
      | Some (opts', rest) \<Rightarrow> scope_option_loop opts' rest)"
  by pat_completeness auto
termination
  by (relation "measure (\<lambda>(opts, args). length args)") (auto dest: scope_option_shorter)

definition parse_options :: "string list \<Rightarrow> scope_options option" where
  "parse_options argv = (case scope_option_loop default_scope_options argv of
      None \<Rightarrow> None
    | Some opts \<Rightarrow>
        if so_bucket opts = [] \<or> so_object opts = [] \<or> so_exp opts = [] then None
        else if so_exp opts \<notin> set [''b0'', ''i0'', ''s0'', ''si'', ''r'', ''p'', ''m''] then None
        else if 0 < so_concurrent opts \<and> so_exp opts \<noteq> ''si'' then None
        else Some opts)"

section \<open>HEAD\<close>

definition head_object ::
  "(string \<Rightarrow> string option) \<Rightarrow> (string \<Rightarrow> string \<Rightarrow> string option) \<Rightarrow> tm \<Rightarrow>
   (string \<Rightarrow> int \<Rightarrow> string \<Rightarrow> header_list \<Rightarrow> string + http_reply) \<Rightarrow> scope_options \<Rightarrow> string \<Rightarrow> string + int" where
  "head_object SHA256 HMAC now http opts path =
     (case control_plane_headers SHA256 HMAC (so_proto opts) ''HEAD'' (http_host_header (so_host opts) (so_port opts))
             path [] [] now of
        Inl e \<Rightarrow> Inl (''HEAD request build failure: '' @ exn_what e)
      | Inr headers \<Rightarrow>
          (case http (so_host opts) (so_port opts) (control_plane_target (so_proto opts) path) headers of
             Inl terr \<Rightarrow> Inl (''HEAD transport failure: '' @ terr)
           | Inr res \<Rightarrow>
               if hr_status res \<noteq> 200 then Inl (''HEAD status '' @ to_string (hr_status res))
               else if \<not> has_header res ''Content-Length'' then Inl ''HEAD missing Content-Length''
               else (case stol (header_value res ''Content-Length'') of
                  None \<Rightarrow> Inl ''HEAD malformed Content-Length''
                | Some (n, _) \<Rightarrow> if n \<le> 0 then Inl ''HEAD non-positive Content-Length'' else Inr n)))"

section \<open>GET primitives\<close>

text \<open>
  The SDK as the probe sees it. \<open>sdk_get who ctx ptr size buf_offset arena\<close> is \<^verbatim>\<open>cuObjGet\<close> of the named
  client: its return value (\<^const>\<open>None\<close> when it throws), the number of callbacks it made, and the arena
  afterwards.
\<close>

record sdk =
  sdk_register :: "string \<Rightarrow> u64 \<Rightarrow> u64 \<Rightarrow> int"
  sdk_callback_max :: "string \<Rightarrow> u64 \<Rightarrow> int"
  sdk_get :: "string \<Rightarrow> probe_context \<Rightarrow> u64 \<Rightarrow> u64 \<Rightarrow> u64 \<Rightarrow> string \<Rightarrow> int option \<times> nat \<times> string"
  sdk_slice_token :: "u64 \<Rightarrow> u64 \<Rightarrow> int \<times> string option"

record probe_get_result =
  gr_rc :: int
  gr_callbacks :: nat

definition EINVAL :: int where "EINVAL = 22"

definition client_probe_get ::
  "sdk \<Rightarrow> bool \<Rightarrow> string \<Rightarrow> probe_context \<Rightarrow> u64 \<Rightarrow> u64 \<Rightarrow> u64 \<Rightarrow> string \<Rightarrow> int \<times> nat \<times> string" where
  "client_probe_get sdk base_offset_api who ctx base offset sz arena =
     (case (if base_offset_api then sdk_get sdk who ctx base sz offset arena
            else sdk_get sdk who ctx (base + offset) sz 0 arena) of
        (rc, cbs, arena') \<Rightarrow> ((case rc of None \<Rightarrow> -1 | Some n \<Rightarrow> n), cbs, arena'))"

definition issue_get ::
  "scope_options \<Rightarrow> sdk \<Rightarrow> string \<Rightarrow> string \<Rightarrow> slot \<Rightarrow> u64 \<Rightarrow> probe_get_result \<times> string" where
  "issue_get opts sdk who arena slot registration_origin =
     (let ctx = \<lparr>pc_tag = so_exp opts, pc_who = who, pc_host = so_host opts, pc_port = so_port opts,
            pc_path = ''/'' @ so_bucket opts @ ''/'' @ so_object opts,
            pc_range = ''bytes=0-'' @ to_string (unat (so_xfer opts - 1)), pc_proto = so_proto opts,
            pc_arena_base = 0, pc_callbacks = 0\<rparr>
      in if sp_offset (sl_payload slot) < registration_origin
         then (\<lparr>gr_rc = - EINVAL, gr_callbacks = 0\<rparr>, arena)
         else
           (case client_probe_get sdk (so_base_offset_api opts) who ctx registration_origin
                   (sp_offset (sl_payload slot) - registration_origin) (so_xfer opts) arena of
              (rc, cbs, arena') \<Rightarrow> (\<lparr>gr_rc = rc, gr_callbacks = cbs\<rparr>, arena')))"

definition verify_slot ::
  "(string \<Rightarrow> string option) \<Rightarrow> scope_options \<Rightarrow> visibility \<Rightarrow> string \<Rightarrow> slot \<Rightarrow> probe_get_result \<Rightarrow> slot_verdict result" where
  "verify_slot SHA256 opts vis arena slot g =
     (let payload = read_span arena (sl_payload slot);
          lead = read_span arena (sl_lead_guard slot);
          trail = read_span arena (sl_trail_guard slot)
      in bind_res (sha256_hex SHA256 payload) (\<lambda>digest.
         let digest_match = (so_expect_sha opts \<noteq> [] \<and> digest = so_expect_sha opts);
             guards_intact = (all_bytes lead kGuardByte \<and> all_bytes trail kGuardByte)
         in Inr
           (if gr_callbacks g \<noteq> 1
            then \<lparr>sv_verdict = Inconclusive, sv_detail = ''callback count != 1 (split request, not decisive)''\<rparr>
            else if gr_rc g < 0 then \<lparr>sv_verdict = Fail, sv_detail = ''cuObjGet rc<0''\<rparr>
            else if \<not> vi_trustworthy vis
            then \<lparr>sv_verdict = Inconclusive, sv_detail = ''gpu rdma write visibility not guaranteed; no flush wired''\<rparr>
            else if \<not> guards_intact then \<lparr>sv_verdict = Fail, sv_detail = ''guard bytes overwritten''\<rparr>
            else if so_expect_sha opts = []
            then \<lparr>sv_verdict = Inconclusive, sv_detail = ''no --expect-sha: landing not provable''\<rparr>
            else if gr_rc g \<noteq> sint (so_xfer opts) then \<lparr>sv_verdict = Fail, sv_detail = ''rc != xfer''\<rparr>
            else if \<not> digest_match then \<lparr>sv_verdict = Fail, sv_detail = ''payload digest mismatch''\<rparr>
            else \<lparr>sv_verdict = Pass, sv_detail = ''ok''\<rparr>)))"

definition serial_get ::
  "(string \<Rightarrow> string option) \<Rightarrow> scope_options \<Rightarrow> visibility \<Rightarrow> sdk \<Rightarrow> string \<Rightarrow> string \<Rightarrow> slot \<Rightarrow> string \<Rightarrow>
   (slot_verdict \<times> string) result" where
  "serial_get SHA256 opts vis sdk who arena slot poison =
     (case issue_get opts sdk who (prepare_slot arena slot poison) slot 0 of
        (g, arena') \<Rightarrow> bind_res (verify_slot SHA256 opts vis arena' slot g) (\<lambda>sv. Inr (sv, arena')))"

definition callback_gate :: "sdk \<Rightarrow> bool \<Rightarrow> string \<Rightarrow> u64 \<Rightarrow> u64 \<Rightarrow> u64 \<Rightarrow> string option" where
  "callback_gate sdk base_offset_api who base offset xfer =
     (let cap = sdk_callback_max sdk who (if base_offset_api then base else base + offset) in
      if cap \<le> 0 then Some ''per-callback max unknown (cap<=0); cannot guarantee single-callback GET''
      else if word_of_int cap < xfer then Some ''xfer exceeds per-callback max (would split into multiple callbacks)''
      else None)"

section \<open>Experiments\<close>

datatype reg_event = Reg string u64 | Dereg string u64

record scope_outcome =
  oc_verdict :: verdict
  oc_detail :: string
  oc_trace :: "reg_event list"
  oc_arena :: string

record scope_setup =
  su_opts :: scope_options
  su_layout :: layout
  su_vis :: visibility
  su_poison :: string
  su_arena_bytes :: u64
  su_p_half :: u64

definition outcome :: "verdict \<Rightarrow> string \<Rightarrow> reg_event list \<Rightarrow> string \<Rightarrow> scope_outcome" where
  "outcome v d tr arena = \<lparr>oc_verdict = v, oc_detail = d, oc_trace = tr, oc_arena = arena\<rparr>"

text \<open>\<^verbatim>\<open>b0\<close>, \<^verbatim>\<open>i0\<close>, \<^verbatim>\<open>s0\<close>, \<^verbatim>\<open>si\<close>: one registration by A, the GET by A or, across clients, by B.\<close>

definition exp_shared :: "(string \<Rightarrow> string option) \<Rightarrow> sdk \<Rightarrow> scope_setup \<Rightarrow> string \<Rightarrow> scope_outcome result" where
  "exp_shared SHA256 sdk su arena =
     (let opts = su_opts su; tr = [Reg ''A'' 0, Dereg ''A'' 0] in
      if sdk_register sdk ''A'' 0 (su_arena_bytes su) \<noteq> 0
      then Inr (outcome Fail ''arena registration failed'' [] arena)
      else
        (case callback_gate sdk (so_base_offset_api opts) ''A'' 0 0 (so_xfer opts) of
           Some err \<Rightarrow> Inr (outcome EnvError err tr arena)
         | None \<Rightarrow>
             let interior = (so_exp opts = ''i0'' \<or> so_exp opts = ''si'');
                 cross = (so_exp opts = ''s0'' \<or> so_exp opts = ''si'')
             in (case (if \<not> interior then Some (base_slot (su_layout su))
                       else interior_slot (su_layout su) 0 (su_arena_bytes su)) of
                   None \<Rightarrow> Inr (outcome EnvError ''interior slot out of arena'' tr arena)
                 | Some slot \<Rightarrow>
                     bind_res (serial_get SHA256 opts (su_vis su) sdk (if cross then ''B'' else ''A'') arena slot (su_poison su))
                       (\<lambda>(sv, arena').
                          if 0 < so_concurrent opts \<and> sv_verdict sv = Pass
                          then Inr (outcome Inconclusive
                            ''serial landing ok; concurrency requested but not verified here (deferred)'' tr arena')
                          else Inr (outcome (sv_verdict sv) (sv_detail sv) tr arena')))))"

text \<open>The two GETs and two verifications that \<^verbatim>\<open>r\<close> and \<^verbatim>\<open>p\<close> share; B's registration begins at \<open>origin\<close>.\<close>

definition get_both ::
  "(string \<Rightarrow> string option) \<Rightarrow> sdk \<Rightarrow> scope_setup \<Rightarrow> slot \<Rightarrow> slot \<Rightarrow> u64 \<Rightarrow> string \<Rightarrow> (verdict \<times> string \<times> string) result" where
  "get_both SHA256 sdk su sa sb origin arena =
     (let opts = su_opts su;
          arena = prepare_slot (prepare_slot arena sa (su_poison su)) sb (su_poison su)
      in case issue_get opts sdk ''A'' arena sa 0 of
           (ga, arena) \<Rightarrow>
             (case issue_get opts sdk ''B'' arena sb origin of
                (gb, arena) \<Rightarrow>
                  bind_res (verify_slot SHA256 opts (su_vis su) arena sa ga) (\<lambda>va.
                  bind_res (verify_slot SHA256 opts (su_vis su) arena sb gb) (\<lambda>vb.
                  case fold_verdicts [va, vb] of (v, d) \<Rightarrow> Inr (v, d, arena)))))"

definition release_registered :: "(string \<times> u64 \<times> int) list \<Rightarrow> reg_event list" where
  "release_registered regs =
     (let ok = filter (\<lambda>(who, base, rc). rc = 0) regs
      in map (\<lambda>(who, base, rc). Reg who base) ok @ map (\<lambda>(who, base, rc). Dereg who base) ok)"

definition exp_r :: "(string \<Rightarrow> string option) \<Rightarrow> sdk \<Rightarrow> scope_setup \<Rightarrow> string \<Rightarrow> scope_outcome result" where
  "exp_r SHA256 sdk su arena =
     (let opts = su_opts su;
          ra = sdk_register sdk ''A'' 0 (su_arena_bytes su);
          rb = sdk_register sdk ''B'' 0 (su_arena_bytes su);
          tr = release_registered [(''A'', 0, ra), (''B'', 0, rb)]
      in if ra \<noteq> 0 \<or> rb \<noteq> 0 then Inr (outcome Fail ''double registration failed'' tr arena)
         else
           (case callback_gate sdk (so_base_offset_api opts) ''A'' 0 0 (so_xfer opts) of
              Some err \<Rightarrow> Inr (outcome EnvError err tr arena)
            | None \<Rightarrow>
                (case (interior_slot (su_layout su) 0 (su_arena_bytes su), interior_slot (su_layout su) 1 (su_arena_bytes su)) of
                   (Some sa, Some sb) \<Rightarrow>
                     bind_res (get_both SHA256 sdk su sa sb 0 arena) (\<lambda>(v, d, arena'). Inr (outcome v d tr arena'))
                 | _ \<Rightarrow> Inr (outcome EnvError ''interior slot out of arena'' tr arena))))"

definition p_slot :: "layout \<Rightarrow> u64 \<Rightarrow> u64 \<Rightarrow> slot" where
  "p_slot L xfer start = \<lparr>sl_payload = \<lparr>sp_offset = start + ly_guard L, sp_len = xfer\<rparr>,
     sl_lead_guard = \<lparr>sp_offset = start, sp_len = ly_guard L\<rparr>,
     sl_trail_guard = \<lparr>sp_offset = start + ly_guard L + xfer, sp_len = ly_cell L - ly_guard L - xfer\<rparr>\<rparr>"

definition exp_p :: "(string \<Rightarrow> string option) \<Rightarrow> sdk \<Rightarrow> scope_setup \<Rightarrow> string \<Rightarrow> scope_outcome result" where
  "exp_p SHA256 sdk su arena =
     (let opts = su_opts su; p_half = su_p_half su;
          ra = sdk_register sdk ''A'' 0 p_half;
          rb = sdk_register sdk ''B'' p_half (su_arena_bytes su - p_half);
          tr = release_registered [(''A'', 0, ra), (''B'', p_half, rb)]
      in if ra \<noteq> 0 \<or> rb \<noteq> 0 then Inr (outcome Fail ''slice registration failed'' tr arena)
         else
           (case (case callback_gate sdk (so_base_offset_api opts) ''A'' 0 0 (so_xfer opts) of
                    Some err \<Rightarrow> Some err
                  | None \<Rightarrow> callback_gate sdk (so_base_offset_api opts) ''B'' p_half 0 (so_xfer opts)) of
              Some err \<Rightarrow> Inr (outcome EnvError err tr arena)
            | None \<Rightarrow>
                bind_res (get_both SHA256 sdk su (p_slot (su_layout su) (so_xfer opts) 0)
                            (p_slot (su_layout su) (so_xfer opts) p_half) p_half arena)
                  (\<lambda>(v, d, arena'). Inr (outcome v d tr arena'))))"

text \<open>\<open>http_get\<close> is the manual control-plane GET: the answer, and the arena the endpoint left.\<close>

definition manual_verdict ::
  "(string \<Rightarrow> string option) \<Rightarrow> scope_options \<Rightarrow> visibility \<Rightarrow> slot \<Rightarrow> nat \<Rightarrow> string \<Rightarrow> (verdict \<times> string) result" where
  "manual_verdict SHA256 opts vis slot status arena =
     bind_res (sha256_hex SHA256 (read_span arena (sl_payload slot))) (\<lambda>digest.
       let guards = (all_bytes (read_span arena (sl_lead_guard slot)) kGuardByte
             \<and> all_bytes (read_span arena (sl_trail_guard slot)) kGuardByte);
           dmatch = (so_expect_sha opts \<noteq> [] \<and> digest = so_expect_sha opts)
       in Inr
         (if \<not> (status = 200 \<or> status = 206) then (Fail, ''manual GET status'')
          else if \<not> vi_trustworthy vis then (Inconclusive, ''visibility not guaranteed'')
          else if \<not> guards then (Fail, ''guard overwritten'')
          else if so_expect_sha opts = [] then (Inconclusive, ''no --expect-sha'')
          else if \<not> dmatch then (Fail, ''digest mismatch'')
          else (Pass, ''ok'')))"

definition exp_m ::
  "(string \<Rightarrow> string option) \<Rightarrow> (string \<Rightarrow> string \<Rightarrow> string option) \<Rightarrow> tm \<Rightarrow>
   (string \<Rightarrow> int \<Rightarrow> string \<Rightarrow> header_list \<Rightarrow> string \<Rightarrow> http_reply option \<times> string) \<Rightarrow>
   sdk \<Rightarrow> scope_setup \<Rightarrow> string \<Rightarrow> scope_outcome result" where
  "exp_m SHA256 HMAC now http_get sdk su arena =
     (let opts = su_opts su; tr = [Reg ''A'' 0, Dereg ''A'' 0]; path = ''/'' @ so_bucket opts @ ''/'' @ so_object opts in
      if sdk_register sdk ''A'' 0 (su_arena_bytes su) \<noteq> 0
      then Inr (outcome Fail ''arena registration failed'' [] arena)
      else
        (case interior_slot (su_layout su) 0 (su_arena_bytes su) of
           None \<Rightarrow> Inr (outcome EnvError ''interior slot out of arena'' tr arena)
         | Some slot \<Rightarrow>
             (case sdk_slice_token sdk (so_xfer opts) (sp_offset (sl_payload slot)) of
                (tok, Some desc) \<Rightarrow>
                  if tok \<noteq> 0 then Inr (outcome Inconclusive ''slice token unavailable'' tr arena)
                  else
                    let arena = prepare_slot arena slot (su_poison su) in
                    (case control_plane_headers SHA256 HMAC (so_proto opts) ''GET''
                            (http_host_header (so_host opts) (so_port opts)) path
                            (''bytes=0-'' @ to_string (unat (so_xfer opts - 1)))
                            (encode_rdma_token (c_str desc) (po_token_encoding (so_proto opts))) now of
                       Inl _ \<Rightarrow> Inr (outcome EnvError ''manual request build failed before HTTP emission'' tr arena)
                     | Inr headers \<Rightarrow>
                         (case http_get (so_host opts) (so_port opts) (control_plane_target (so_proto opts) path) headers arena of
                            (res, arena) \<Rightarrow>
                              bind_res (manual_verdict SHA256 opts (su_vis su) slot
                                  (case res of None \<Rightarrow> 0 | Some r \<Rightarrow> hr_status r) arena)
                                (\<lambda>(v, d). Inr (outcome v d tr arena))))
              | (tok, None) \<Rightarrow> Inr (outcome Inconclusive ''slice token unavailable'' tr arena))))"

section \<open>Main\<close>

definition bind_sum :: "string + 'a \<Rightarrow> ('a \<Rightarrow> string + 'b) \<Rightarrow> string + 'b" where
  "bind_sum r f = (case r of Inl e \<Rightarrow> Inl e | Inr x \<Rightarrow> f x)"

definition kMaxReg :: u64 where "kMaxReg = 4 * 1024 * 1024 * 1024 - 64 * 1024"

text \<open>Arena size and, for \<^verbatim>\<open>p\<close>, where its second half begins.\<close>

definition size_arena :: "scope_options \<Rightarrow> layout \<Rightarrow> string + u64 \<times> u64" where
  "size_arena opts L =
     (let derived = arena_for_slots L (if so_exp opts = ''r'' then 2 else 1);
          arena_bytes = (if so_arena_bytes opts \<noteq> 0 then so_arena_bytes opts else derived)
      in if derived = SIZE_MAX then Inl ''arena size overflow''
         else
           bind_sum
             (if so_exp opts = ''p'' then
                (case checked_mul (ly_cell L) 2 of
                   None \<Rightarrow> Inl ''p overflow''
                 | Some two \<Rightarrow>
                     let arena_bytes = (if arena_bytes < two then two else arena_bytes);
                         p_half = arena_align_down (arena_bytes div 2)
                     in if p_half < ly_cell L then Inl ''p half smaller than a cell'' else Inr (arena_bytes, p_half))
              else if arena_bytes < derived then Inl ''arena too small for layout''
              else Inr (arena_bytes, 0))
             (\<lambda>(arena_bytes, p_half).
                if kMaxReg < arena_bytes then Inl ''arena exceeds CUOBJ_MAX_MEMORY_REG_SIZE'' else Inr (arena_bytes, p_half)))"

text \<open>From HEAD to the allocation; the inner \<open>Inl\<close> is the detail of an \<^verbatim>\<open>ENV_ERROR\<close>.\<close>

definition plan_arena :: "(string \<Rightarrow> string option) \<Rightarrow> visibility \<Rightarrow> scope_options \<Rightarrow> (string + scope_setup) result" where
  "plan_arena SHA256 vis opts =
     (case build_layout (so_xfer opts) (so_guard opts) of
        Inl e \<Rightarrow> Inr (Inl e)
      | Inr L \<Rightarrow>
          let poison = make_poison (so_xfer opts) in
          bind_res (if so_expect_sha opts \<noteq> [] then sha256_hex SHA256 poison else Inr []) (\<lambda>digest.
            if so_expect_sha opts \<noteq> [] \<and> digest = so_expect_sha opts
            then Inr (Inl ''poison pattern collides with --expect-sha'')
            else (case size_arena opts L of
                Inl e \<Rightarrow> Inr (Inl e)
              | Inr (arena_bytes, p_half) \<Rightarrow>
                  Inr (Inr \<lparr>su_opts = opts, su_layout = L, su_vis = vis, su_poison = poison,
                    su_arena_bytes = arena_bytes, su_p_half = p_half\<rparr>))))"

definition scope_prepare ::
  "(string \<Rightarrow> string option) \<Rightarrow> visibility \<Rightarrow> string + int \<Rightarrow> scope_options \<Rightarrow> (string + scope_setup) result" where
  "scope_prepare SHA256 vis head opts = (case head of
      Inl d \<Rightarrow> Inr (Inl d)
    | Inr len \<Rightarrow>
        if word_of_int len < so_xfer opts then
          if so_expect_sha opts \<noteq> []
          then Inr (Inl ''object smaller than requested xfer; --expect-sha would not correspond'')
          else plan_arena SHA256 vis (opts\<lparr>so_xfer := word_of_int len\<rparr>)
        else plan_arena SHA256 vis opts)"

definition scope_experiment ::
  "(string \<Rightarrow> string option) \<Rightarrow> (string \<Rightarrow> string \<Rightarrow> string option) \<Rightarrow> tm \<Rightarrow>
   (string \<Rightarrow> int \<Rightarrow> string \<Rightarrow> header_list \<Rightarrow> string \<Rightarrow> http_reply option \<times> string) \<Rightarrow>
   sdk \<Rightarrow> scope_setup \<Rightarrow> string \<Rightarrow> scope_outcome result" where
  "scope_experiment SHA256 HMAC now http_get sdk su arena =
     (let exp = so_exp (su_opts su) in
      if exp = ''b0'' \<or> exp = ''i0'' \<or> exp = ''s0'' \<or> exp = ''si'' then exp_shared SHA256 sdk su arena
      else if exp = ''r'' then exp_r SHA256 sdk su arena
      else if exp = ''p'' then exp_p SHA256 sdk su arena
      else exp_m SHA256 HMAC now http_get sdk su arena)"

text \<open>
  The run after option parsing. \<open>fresh n\<close> is the content of the \<open>n\<close> bytes the allocation returns; the left
  summand is an exception that leaves \<^verbatim>\<open>main\<close>.
\<close>

definition scope_run ::
  "(string \<Rightarrow> string option) \<Rightarrow> (string \<Rightarrow> string option) \<Rightarrow> (string \<Rightarrow> string \<Rightarrow> string option) \<Rightarrow> tm \<Rightarrow>
   (string \<Rightarrow> int \<Rightarrow> string \<Rightarrow> header_list \<Rightarrow> string + http_reply) \<Rightarrow>
   (string \<Rightarrow> int \<Rightarrow> string \<Rightarrow> header_list \<Rightarrow> string \<Rightarrow> http_reply option \<times> string) \<Rightarrow>
   int option \<Rightarrow> sdk \<Rightarrow> (u64 \<Rightarrow> string) \<Rightarrow> scope_options \<Rightarrow> scope_outcome result" where
  "scope_run getenv SHA256 HMAC now http_head http_get attr sdk fresh opts =
     (case finish_protocol_options getenv (so_proto opts) of
        None \<Rightarrow> Inr (outcome EnvError
          ''--auth sigv4 needs AWS_ACCESS_KEY_ID and AWS_SECRET_ACCESS_KEY in the environment'' [] [])
      | Some proto \<Rightarrow>
          let opts = opts\<lparr>so_proto := proto\<rparr>;
              vis = read_visibility (parse_mode (so_mode opts)) attr;
              head = head_object SHA256 HMAC now http_head opts (''/'' @ so_bucket opts @ ''/'' @ so_object opts)
          in bind_res (scope_prepare SHA256 vis head opts) (\<lambda>prep. case prep of
               Inl d \<Rightarrow> Inr (outcome EnvError d [] [])
             | Inr su \<Rightarrow>
                 scope_experiment SHA256 HMAC now http_get sdk su (fresh (su_arena_bytes su))))"

definition scope_exit :: "string list \<Rightarrow> (scope_options \<Rightarrow> scope_outcome result) \<Rightarrow> nat result" where
  "scope_exit argv run = (case parse_options argv of
      None \<Rightarrow> Inr 2
    | Some opts \<Rightarrow> bind_res (run opts) (\<lambda>oc. Inr (exit_code (oc_verdict oc))))"

section \<open>Slot lemmas\<close>

text \<open>The slots an experiment uses.\<close>

definition probe_slots :: "scope_options \<Rightarrow> layout \<Rightarrow> u64 \<Rightarrow> u64 \<Rightarrow> slot list" where
  "probe_slots opts L arena_bytes p_half =
     (if so_exp opts = ''b0'' \<or> so_exp opts = ''s0'' then [base_slot L]
      else if so_exp opts = ''r'' then
        (case (interior_slot L 0 arena_bytes, interior_slot L 1 arena_bytes) of (Some a, Some b) \<Rightarrow> [a, b] | _ \<Rightarrow> [])
      else if so_exp opts = ''p'' then [p_slot L (so_xfer opts) 0, p_slot L (so_xfer opts) p_half]
      else (case interior_slot L 0 arena_bytes of Some s \<Rightarrow> [s] | None \<Rightarrow> []))"

lemma bind_sum_Inr: "bind_sum r f = Inr y \<longleftrightarrow> (\<exists>x. r = Inr x \<and> f x = Inr y)"
  by (cases r) (auto simp: bind_sum_def)

lemma arena_for_slots_le:
  assumes "arena_for_slots L n \<noteq> SIZE_MAX" and "arena_for_slots L n \<le> ab"
  shows "unat (ly_base_region L) + unat n * unat (ly_cell L) \<le> unat ab"
proof -
  obtain c t where "checked_mul n (ly_cell L) = Some c" "checked_add (ly_base_region L) c = Some t"
    "arena_for_slots L n = t"
    using assms(1) by (auto simp: arena_for_slots_def bind_eq_Some_conv split: option.splits)
  with assms(2) show ?thesis by (simp add: checked_add_Some checked_mul_Some word_le_nat_alt)
qed

lemma size_arena_Inr:
  assumes "size_arena opts L = Inr (ab, ph)" and "so_exp opts \<noteq> ''p''"
  shows "unat (ly_base_region L) + (if so_exp opts = ''r'' then 2 else 1) * unat (ly_cell L) \<le> unat ab"
proof -
  have "arena_for_slots L (if so_exp opts = ''r'' then 2 else 1) \<noteq> SIZE_MAX"
    "arena_for_slots L (if so_exp opts = ''r'' then 2 else 1) \<le> ab"
    using assms by (auto simp: size_arena_def bind_sum_Inr Let_def not_less split: if_splits)
  from arena_for_slots_le [OF this] show ?thesis by (auto split: if_splits)
qed

lemma size_arena_p:
  assumes "size_arena opts L = Inr (ab, ph)" and "so_exp opts = ''p''"
  shows "unat (ly_cell L) \<le> unat ph" "2 * unat ph \<le> unat ab" "4096 dvd unat ph"
proof -
  have ph: "ph = arena_align_down (ab div 2)" "ly_cell L \<le> ph"
    using assms by (auto simp: size_arena_def bind_sum_Inr Let_def not_less split: if_splits option.splits)
  show "unat (ly_cell L) \<le> unat ph" using ph(2) by (simp add: word_le_nat_alt)
  have "unat (ab div 2) = unat ab div 2" by (simp add: unat_div)
  then show "2 * unat ph \<le> unat ab" using arena_align_down_le(1) [of "ab div 2"] unfolding ph(1) by linarith
  show "4096 dvd unat ph" using arena_align_down_le(2) ph(1) by simp
qed

lemma p_slot_facts:
  assumes "build_layout xfer guard = Inr L" and "unat start + unat (ly_cell L) < 2 ^ 64"
  shows "contiguous (p_slot L xfer start)" "slot_start (p_slot L xfer start) = unat start"
    "slot_end (p_slot L xfer start) = unat start + unat (ly_cell L)" "sp_len (sl_payload (p_slot L xfer start)) = xfer"
proof -
  note L = build_layout_Inr [OF assms(1)]
  have 1: "unat (start + guard) = unat start + unat guard" using assms(2) L(4) by (intro unat_add_u64) linarith
  then have 2: "unat (start + guard + xfer) = unat start + unat guard + unat xfer"
    using assms(2) L(4) by (subst unat_add_u64) linarith+
  have g: "guard \<le> ly_cell L" using L(4) by (simp add: word_le_nat_alt)
  then have "unat (ly_cell L - guard) = unat (ly_cell L) - unat guard" by (rule unat_sub_u64)
  moreover from this have "unat (ly_cell L - guard - xfer) = unat (ly_cell L) - unat guard - unat xfer"
    using L(4) by (subst unat_sub_u64) (simp_all add: word_le_nat_alt)
  ultimately show "contiguous (p_slot L xfer start)" "slot_start (p_slot L xfer start) = unat start"
    "slot_end (p_slot L xfer start) = unat start + unat (ly_cell L)" "sp_len (sl_payload (p_slot L xfer start)) = xfer"
    using 1 2 L(2,4) by (simp_all add: p_slot_def contiguous_def slot_start_def slot_end_def)
qed

section \<open>Verdict lemmas\<close>

lemma verify_slot_Pass:
  "(\<exists>d. verify_slot SHA256 opts vis arena slot g = Inr \<lparr>sv_verdict = Pass, sv_detail = d\<rparr>) \<longleftrightarrow>
     gr_callbacks g = 1 \<and> 0 \<le> gr_rc g \<and> gr_rc g = sint (so_xfer opts) \<and> vi_trustworthy vis \<and> so_expect_sha opts \<noteq> []
     \<and> all_bytes (read_span arena (sl_lead_guard slot)) kGuardByte
     \<and> all_bytes (read_span arena (sl_trail_guard slot)) kGuardByte
     \<and> sha256_hex SHA256 (read_span arena (sl_payload slot)) = Inr (so_expect_sha opts)"
  by (cases "sha256_hex SHA256 (read_span arena (sl_payload slot))") (auto simp: verify_slot_def Let_def)

lemma verify_slot_no_EnvError: "verify_slot SHA256 opts vis arena slot g = Inr sv \<Longrightarrow> sv_verdict sv \<noteq> EnvError"
  by (auto simp: verify_slot_def Let_def bind_res_Inr split: if_splits)

text \<open>What a passing slot is evidence of.\<close>

definition landed :: "(string \<Rightarrow> string option) \<Rightarrow> scope_setup \<Rightarrow> sdk \<Rightarrow> string \<Rightarrow> slot \<Rightarrow> bool" where
  "landed SHA256 su sdk arena slot \<longleftrightarrow>
     sha256_hex SHA256 (read_span arena (sl_payload slot)) = Inr (so_expect_sha (su_opts su))
     \<and> read_span arena (sl_payload slot) \<noteq> make_poison (so_xfer (su_opts su))
     \<and> all_bytes (read_span arena (sl_lead_guard slot)) kGuardByte
     \<and> all_bytes (read_span arena (sl_trail_guard slot)) kGuardByte
     \<and> (\<exists>who before origin g later. issue_get (su_opts su) sdk who before slot origin = (g, later)
          \<and> gr_callbacks g = 1 \<and> gr_rc g = sint (so_xfer (su_opts su)))"

definition poison_differs :: "(string \<Rightarrow> string option) \<Rightarrow> scope_setup \<Rightarrow> bool" where
  "poison_differs SHA256 su \<longleftrightarrow> (so_expect_sha (su_opts su) \<noteq> [] \<longrightarrow>
     sha256_hex SHA256 (make_poison (so_xfer (su_opts su))) \<noteq> Inr (so_expect_sha (su_opts su)))"

lemma verify_slot_landed:
  assumes "poison_differs SHA256 su" and "issue_get (su_opts su) sdk who before slot origin = (g, later)"
    and "verify_slot SHA256 (su_opts su) vis arena slot g = Inr sv" and "sv_verdict sv = Pass"
  shows "landed SHA256 su sdk arena slot \<and> vi_trustworthy vis"
proof -
  have "verify_slot SHA256 (su_opts su) vis arena slot g = Inr \<lparr>sv_verdict = Pass, sv_detail = sv_detail sv\<rparr>"
    using assms(3,4) by simp
  then have v: "gr_callbacks g = 1 \<and> 0 \<le> gr_rc g \<and> gr_rc g = sint (so_xfer (su_opts su)) \<and> vi_trustworthy vis
     \<and> so_expect_sha (su_opts su) \<noteq> [] \<and> all_bytes (read_span arena (sl_lead_guard slot)) kGuardByte
     \<and> all_bytes (read_span arena (sl_trail_guard slot)) kGuardByte
     \<and> sha256_hex SHA256 (read_span arena (sl_payload slot)) = Inr (so_expect_sha (su_opts su))"
    using verify_slot_Pass by blast
  with assms(1) have "read_span arena (sl_payload slot) \<noteq> make_poison (so_xfer (su_opts su))"
    by (auto simp: poison_differs_def)
  with v assms(2) show ?thesis unfolding landed_def by blast
qed

lemma get_both_Pass:
  assumes "get_both SHA256 sdk su sa sb origin arena = Inr (Pass, d, arena')" and "poison_differs SHA256 su"
  shows "landed SHA256 su sdk arena' sa \<and> landed SHA256 su sdk arena' sb \<and> vi_trustworthy (su_vis su)"
proof -
  let ?a0 = "prepare_slot (prepare_slot arena sa (su_poison su)) sb (su_poison su)"
  obtain ga a1 where ga: "issue_get (su_opts su) sdk ''A'' ?a0 sa 0 = (ga, a1)" by force
  obtain gb a2 where gb: "issue_get (su_opts su) sdk ''B'' a1 sb origin = (gb, a2)" by force
  obtain va vb where v: "verify_slot SHA256 (su_opts su) (su_vis su) a2 sa ga = Inr va"
      "verify_slot SHA256 (su_opts su) (su_vis su) a2 sb gb = Inr vb" and f: "fold_verdicts [va, vb] = (Pass, d)" "a2 = arena'"
    using assms(1) ga gb by (auto simp: get_both_def Let_def bind_res_Inr case_prod_unfold prod_eq_iff)
  have "sv_verdict va \<notin> {Fail, Inconclusive, EnvError}" "sv_verdict vb \<notin> {Fail, Inconclusive, EnvError}"
    using fold_verdicts_Pass [of "[va, vb]"] f(1) verify_slot_no_EnvError [OF v(1)] verify_slot_no_EnvError [OF v(2)]
    by simp_all
  then have "sv_verdict va = Pass" "sv_verdict vb = Pass" by (metis insertCI verdict.exhaust)+
  then have "landed SHA256 su sdk a2 sa \<and> vi_trustworthy (su_vis su)" "landed SHA256 su sdk a2 sb"
    using verify_slot_landed [OF assms(2) ga v(1)] verify_slot_landed [OF assms(2) gb v(2)] by blast+
  then show ?thesis unfolding f(2) by blast
qed

section \<open>Registrations\<close>

lemma release_registered_balanced: "\<exists>rs. release_registered regs = map (\<lambda>(w, b). Reg w b) rs @ map (\<lambda>(w, b). Dereg w b) rs"
  by (rule exI [of _ "map (\<lambda>(w, b, rc). (w, b)) (filter (\<lambda>(w, b, rc). rc = 0) regs)"])
    (simp add: release_registered_def case_prod_unfold comp_def Let_def)

definition balanced :: "reg_event list \<Rightarrow> bool" where
  "balanced tr \<longleftrightarrow> (\<exists>rs. tr = map (\<lambda>(w, b). Reg w b) rs @ map (\<lambda>(w, b). Dereg w b) rs)"

lemma balanced_simps [simp]: "balanced []" "balanced [Reg w b, Dereg w b]" "balanced (release_registered regs)"
  using release_registered_balanced by (auto simp: balanced_def intro: exI [of _ "[]"] exI [of _ "[(w, b)]"])

lemma oc_trace_outcome [simp]: "oc_trace (outcome v d tr a) = tr" "oc_verdict (outcome v d tr a) = v" "oc_arena (outcome v d tr a) = a"
  by (simp_all add: outcome_def)

lemma outcome_inject [simp]: "outcome v d tr a = outcome v' d' tr' a' \<longleftrightarrow> v = v' \<and> d = d' \<and> tr = tr' \<and> a = a'"
  by (auto simp: outcome_def)

lemma exp_shared_balanced: "exp_shared SHA256 sdk su arena = Inr oc \<Longrightarrow> balanced (oc_trace oc)"
  by (auto simp: exp_shared_def Let_def bind_res_Inr split: if_splits option.splits)

lemma exp_r_balanced: "exp_r SHA256 sdk su arena = Inr oc \<Longrightarrow> balanced (oc_trace oc)"
  by (auto simp: exp_r_def Let_def bind_res_Inr split: if_splits option.splits)

lemma exp_p_balanced: "exp_p SHA256 sdk su arena = Inr oc \<Longrightarrow> balanced (oc_trace oc)"
  by (auto simp: exp_p_def Let_def bind_res_Inr split: if_splits option.splits)

lemma exp_m_balanced: "exp_m SHA256 HMAC now http_get sdk su arena = Inr oc \<Longrightarrow> balanced (oc_trace oc)"
  by (auto simp: exp_m_def Let_def bind_res_Inr split: if_splits option.splits sum.splits prod.splits)

section \<open>Experiment lemmas\<close>

lemma exp_shared_Pass:
  assumes "exp_shared SHA256 sdk su arena = Inr oc" and "oc_verdict oc = Pass" and "poison_differs SHA256 su"
    and "so_exp (su_opts su) \<in> {''b0'', ''i0'', ''s0'', ''si''}"
  shows "\<exists>slot. probe_slots (su_opts su) (su_layout su) (su_arena_bytes su) (su_p_half su) = [slot]
    \<and> landed SHA256 su sdk (oc_arena oc) slot \<and> vi_trustworthy (su_vis su) \<and> \<not> 0 < so_concurrent (su_opts su)"
proof -
  let ?opts = "su_opts su" and ?L = "su_layout su"
  let ?who = "if so_exp ?opts = ''s0'' \<or> so_exp ?opts = ''si'' then ''B'' else ''A''"
  obtain slot sv arena' where
    slot: "(if \<not> (so_exp ?opts = ''i0'' \<or> so_exp ?opts = ''si'') then Some (base_slot ?L)
        else interior_slot ?L 0 (su_arena_bytes su)) = Some slot"
    and get: "serial_get SHA256 ?opts (su_vis su) sdk ?who arena slot (su_poison su) = Inr (sv, arena')"
    and sv: "sv_verdict sv = Pass" "\<not> 0 < so_concurrent ?opts" "oc_arena oc = arena'"
    using assms(1,2) by (auto simp: exp_shared_def Let_def bind_res_Inr split: if_splits option.splits)
  from get obtain g where "issue_get ?opts sdk ?who (prepare_slot arena slot (su_poison su)) slot 0 = (g, arena')"
    "verify_slot SHA256 ?opts (su_vis su) arena' slot g = Inr sv"
    by (auto simp: serial_get_def bind_res_Inr split: prod.splits)
  from verify_slot_landed [OF assms(3) this sv(1)] sv slot assms(4) show ?thesis
    by (auto simp: probe_slots_def split: if_splits)
qed

lemma exp_r_Pass:
  assumes "exp_r SHA256 sdk su arena = Inr oc" and "oc_verdict oc = Pass" and "poison_differs SHA256 su"
    and "so_exp (su_opts su) = ''r''"
  shows "\<exists>sa sb. probe_slots (su_opts su) (su_layout su) (su_arena_bytes su) (su_p_half su) = [sa, sb]
    \<and> landed SHA256 su sdk (oc_arena oc) sa \<and> landed SHA256 su sdk (oc_arena oc) sb \<and> vi_trustworthy (su_vis su)"
  using assms get_both_Pass [OF _ assms(3)]
  by (auto simp: exp_r_def probe_slots_def Let_def bind_res_Inr split: if_splits option.splits)

lemma exp_p_Pass:
  assumes "exp_p SHA256 sdk su arena = Inr oc" and "oc_verdict oc = Pass" and "poison_differs SHA256 su"
    and "so_exp (su_opts su) = ''p''"
  shows "\<exists>sa sb. probe_slots (su_opts su) (su_layout su) (su_arena_bytes su) (su_p_half su) = [sa, sb]
    \<and> landed SHA256 su sdk (oc_arena oc) sa \<and> landed SHA256 su sdk (oc_arena oc) sb \<and> vi_trustworthy (su_vis su)"
  using assms get_both_Pass [OF _ assms(3)]
  by (auto simp: exp_p_def probe_slots_def Let_def bind_res_Inr split: if_splits option.splits)

lemma plan_arena_Inr:
  assumes "plan_arena SHA256 vis opts = Inr (Inr su)"
  shows "poison_differs SHA256 su" "su_vis su = vis" "su_opts su = opts"
    "build_layout (so_xfer opts) (so_guard opts) = Inr (su_layout su)"
    "size_arena opts (su_layout su) = Inr (su_arena_bytes su, su_p_half su)"
    "su_poison su = make_poison (so_xfer opts)"
proof -
  obtain L digest ab ph where L: "build_layout (so_xfer opts) (so_guard opts) = Inr L"
    and d: "(if so_expect_sha opts \<noteq> [] then sha256_hex SHA256 (make_poison (so_xfer opts)) else Inr []) = Inr digest"
      "so_expect_sha opts = [] \<or> digest \<noteq> so_expect_sha opts"
    and ab: "size_arena opts L = Inr (ab, ph)"
    and su: "su = \<lparr>su_opts = opts, su_layout = L, su_vis = vis, su_poison = make_poison (so_xfer opts),
        su_arena_bytes = ab, su_p_half = ph\<rparr>"
    using assms unfolding plan_arena_def Let_def bind_res_def by (auto split: sum.splits if_splits prod.splits)
  show "poison_differs SHA256 su" using d by (auto simp: poison_differs_def su split: if_splits)
  show "su_vis su = vis" "su_opts su = opts" "build_layout (so_xfer opts) (so_guard opts) = Inr (su_layout su)"
    "size_arena opts (su_layout su) = Inr (su_arena_bytes su, su_p_half su)" "su_poison su = make_poison (so_xfer opts)"
    using L ab by (simp_all add: su)
qed

lemma scope_prepare_Inr:
  assumes "scope_prepare SHA256 vis head opts = Inr (Inr su)"
  shows "plan_arena SHA256 vis (su_opts su) = Inr (Inr su)" "so_exp (su_opts su) = so_exp opts"
    "so_concurrent (su_opts su) = so_concurrent opts"
proof -
  obtain opts' where p: "plan_arena SHA256 vis opts' = Inr (Inr su)"
    and o: "so_exp opts' = so_exp opts" "so_concurrent opts' = so_concurrent opts"
    using assms unfolding scope_prepare_def by (auto split: sum.splits if_splits)
  with plan_arena_Inr(3) [OF p] show "plan_arena SHA256 vis (su_opts su) = Inr (Inr su)"
    "so_exp (su_opts su) = so_exp opts" "so_concurrent (su_opts su) = so_concurrent opts" by simp_all
qed

lemma scope_run_cases [consumes 1]:
  assumes "scope_run getenv SHA256 HMAC now http_head http_get attr sdk fresh opts = Inr oc"
  obtains (env) d where "oc = outcome EnvError d [] []"
  | (run) proto head su where "scope_prepare SHA256 (su_vis su) head (opts\<lparr>so_proto := proto\<rparr>) = Inr (Inr su)"
      "scope_experiment SHA256 HMAC now http_get sdk su (fresh (su_arena_bytes su)) = Inr oc"
proof -
  consider (none) d where "oc = outcome EnvError d [] []"
    | (some) proto vis head su where "scope_prepare SHA256 vis head (opts\<lparr>so_proto := proto\<rparr>) = Inr (Inr su)"
      "scope_experiment SHA256 HMAC now http_get sdk su (fresh (su_arena_bytes su)) = Inr oc"
    using assms unfolding scope_run_def Let_def bind_res_def by (force split: option.splits sum.splits)
  then show ?thesis
  proof cases
    case none
    then show ?thesis by (rule env)
  next
    case some
    with plan_arena_Inr(2) [OF scope_prepare_Inr(1) [OF some(1)]] show ?thesis using run by blast
  qed
qed

section \<open>A faithful SDK passes\<close>

definition sdk_delivers :: "sdk \<Rightarrow> u64 \<Rightarrow> string \<Rightarrow> bool" where
  "sdk_delivers sdk xfer data \<longleftrightarrow> (\<forall>who ctx ptr buf_offset arena.
     sdk_get sdk who ctx ptr xfer buf_offset arena = (Some (int (length data)), 1, poke arena (unat (ptr + buf_offset)) data))"

lemma verify_delivered:
  assumes "sdk_delivers sdk (so_xfer opts) data" and len: "length data = unat (so_xfer opts)" "length data < 2 ^ 63"
    and sha: "sha256_hex SHA256 data = Inr (so_expect_sha opts)" "so_expect_sha opts \<noteq> []" and vis: "vi_trustworthy vis"
    and slot: "contiguous slot" "slot_end slot \<le> length arena" "sp_len (sl_payload slot) = so_xfer opts"
  shows "\<exists>arena'. serial_get SHA256 opts vis sdk who arena slot (make_poison (so_xfer opts))
    = Inr (\<lparr>sv_verdict = Pass, sv_detail = ''ok''\<rparr>, arena')"
proof -
  define a0 where "a0 = prepare_slot arena slot (make_poison (so_xfer opts))"
  let ?p = "unat (sp_offset (sl_payload slot))"
  have pl: "length (make_poison (so_xfer opts)) = unat (sp_len (sl_payload slot))" by (simp add: slot(3))
  note prep = prepare_slot_effect [OF slot(1,2) pl, folded a0_def]
  define a1 where "a1 = poke a0 ?p data"
  have i: "issue_get opts sdk who a0 slot 0 = (\<lparr>gr_rc = int (length data), gr_callbacks = 1\<rparr>, a1)"
    using assms(1) by (simp add: issue_get_def client_probe_get_def sdk_delivers_def a1_def Let_def)
  have c: "?p + length data \<le> length a0"
    "unat (sp_offset (sl_lead_guard slot)) + unat (sp_len (sl_lead_guard slot)) = ?p"
    "?p + length data = unat (sp_offset (sl_trail_guard slot))"
    "unat (sp_offset (sl_trail_guard slot)) + unat (sp_len (sl_trail_guard slot)) \<le> length a0"
    using slot len(1) prep(1) by (simp_all add: contiguous_def slot_start_def slot_end_def)
  have "read_span a1 (sl_payload slot) = data"
    unfolding read_span_def a1_def slot(3) len(1) [symmetric] by (rule poke_read_same [OF c(1)])
  moreover have "read_span a1 (sl_lead_guard slot) = read_span a0 (sl_lead_guard slot)"
    unfolding read_span_def a1_def using c by (intro poke_read_other) auto
  moreover have "read_span a1 (sl_trail_guard slot) = read_span a0 (sl_trail_guard slot)"
    unfolding read_span_def a1_def using c by (intro poke_read_other) auto
  moreover have "sint (so_xfer opts) = int (length data)" using len by (simp add: sint_small LONG_MAX_def)
  ultimately have "verify_slot SHA256 opts vis a1 slot \<lparr>gr_rc = int (length data), gr_callbacks = 1\<rparr>
      = Inr \<lparr>sv_verdict = Pass, sv_detail = ''ok''\<rparr>"
    using prep(3,4) sha vis by (simp add: verify_slot_def Let_def)
  with i show ?thesis by (simp add: serial_get_def a0_def)
qed

lemma probe_slots_ok:
  assumes "build_layout (so_xfer opts) (so_guard opts) = Inr L" and "size_arena opts L = Inr (ab, ph)"
  shows "probe_slots opts L ab ph \<noteq> []
    \<and> (\<forall>s \<in> set (probe_slots opts L ab ph). contiguous s \<and> slot_end s \<le> unat ab \<and> sp_len (sl_payload s) = so_xfer opts)
    \<and> sorted_wrt (\<lambda>s t. slot_end s \<le> slot_start t) (probe_slots opts L ab ph)"
proof (cases "so_exp opts = ''p''")
  case True
  note ph = size_arena_p [OF assms(2) True]
  have "unat ph + unat (ly_cell L) < 2 ^ 64" using ph unat_u64_lt [of ab] by linarith
  note P = p_slot_facts [OF assms(1) this]
  have "unat (0 :: u64) + unat (ly_cell L) < 2 ^ 64" using unat_u64_lt [of "ly_cell L"] by simp
  note Z = p_slot_facts [OF assms(1) this]
  show ?thesis using True P Z ph by (simp add: probe_slots_def)
next
  case False
  note room = size_arena_Inr [OF assms(2) False]
  have "unat (ly_base_region L) + (unat (0 :: u64) + 1) * unat (ly_cell L) \<le> unat ab"
    using room by (auto split: if_splits)
  then obtain a where a: "interior_slot L 0 ab = Some a" using interior_slot_exists [OF assms(1)] by blast
  note A = interior_slot_Some [OF assms(1) a]
  show ?thesis
  proof (cases "so_exp opts = ''r''")
    case True
    then have "unat (ly_base_region L) + (unat (1 :: u64) + 1) * unat (ly_cell L) \<le> unat ab" using room by simp
    then obtain b where b: "interior_slot L 1 ab = Some b" using interior_slot_exists [OF assms(1)] by blast
    note B = interior_slot_Some [OF assms(1) b]
    have "slot_end a \<le> slot_start b" by (rule interior_slots_disjoint [OF assms(1) a b]) simp
    then show ?thesis using True A B a b by (simp add: probe_slots_def)
  next
    case False
    have "contiguous (base_slot L)" "slot_end (base_slot L) \<le> unat ab" "sp_len (sl_payload (base_slot L)) = so_xfer opts"
      using base_slot_facts [OF assms(1)] room build_layout_Inr(1) [OF assms(1)] by (auto simp: base_slot_def split: if_splits)
    then show ?thesis using False \<open>so_exp opts \<noteq> ''p''\<close> A a by (auto simp: probe_slots_def)
  qed
qed

lemma size_arena_max: "size_arena opts L = Inr (ab, ph) \<Longrightarrow> ab \<le> kMaxReg"
  by (auto simp: size_arena_def bind_sum_Inr Let_def not_less split: if_splits)

lemma shared_accepts:
  assumes plan: "plan_arena SHA256 vis opts = Inr (Inr su)" and exp: "so_exp opts \<in> {''b0'', ''i0'', ''s0'', ''si''}"
    and conc: "so_concurrent opts \<le> 0" and reg: "sdk_register sdk ''A'' 0 (su_arena_bytes su) = 0"
    and gate: "callback_gate sdk (so_base_offset_api opts) ''A'' 0 0 (so_xfer opts) = None"
    and vis: "vi_trustworthy vis" and del: "sdk_delivers sdk (so_xfer opts) data" "length data = unat (so_xfer opts)"
    and sha: "sha256_hex SHA256 data = Inr (so_expect_sha opts)" "so_expect_sha opts \<noteq> []"
    and arena: "length arena = unat (su_arena_bytes su)"
  shows "\<exists>oc. scope_experiment SHA256 HMAC now http_get sdk su arena = Inr oc \<and> oc_verdict oc = Pass"
proof -
  note P = plan_arena_Inr [OF plan]
  obtain slot where slot: "(if \<not> (so_exp opts = ''i0'' \<or> so_exp opts = ''si'') then Some (base_slot (su_layout su))
      else interior_slot (su_layout su) 0 (su_arena_bytes su)) = Some slot"
    "probe_slots opts (su_layout su) (su_arena_bytes su) (su_p_half su) = [slot]"
    using probe_slots_ok [OF P(4,5)] exp by (auto simp: probe_slots_def split: option.splits)
  have ok: "contiguous slot" "slot_end slot \<le> unat (su_arena_bytes su)" "sp_len (sl_payload slot) = so_xfer opts"
    using probe_slots_ok [OF P(4,5)] slot(2) by auto
  have "unat (so_xfer opts) \<le> unat (su_arena_bytes su)" using ok by (simp add: contiguous_def slot_end_def)
  also have "\<dots> \<le> unat kMaxReg" using size_arena_max [OF P(5)] by (simp add: word_le_nat_alt)
  finally have "length data < 2 ^ 63" by (simp add: del(2) kMaxReg_def)
  from verify_delivered [OF del this sha vis ok(1) _ ok(3), of arena] obtain arena' where
    "serial_get SHA256 opts vis sdk (if so_exp opts = ''s0'' \<or> so_exp opts = ''si'' then ''B'' else ''A'') arena slot
       (su_poison su) = Inr (\<lparr>sv_verdict = Pass, sv_detail = ''ok''\<rparr>, arena')"
    using ok(2) arena P(6) by metis
  then have "exp_shared SHA256 sdk su arena = Inr (outcome Pass ''ok'' [Reg ''A'' 0, Dereg ''A'' 0] arena')"
    using P(2,3) reg gate slot(1) conc by (simp add: exp_shared_def Let_def)
  then show ?thesis using exp P(3) by (auto simp: scope_experiment_def Let_def)
qed

section \<open>Options lemmas\<close>

definition scope_options_ok :: "scope_options \<Rightarrow> bool" where
  "scope_options_ok opts \<longleftrightarrow> 0 < so_port opts \<and> so_port opts \<le> 65535 \<and> so_xfer opts \<noteq> 0 \<and> so_guard opts \<noteq> 0
     \<and> so_mode opts \<in> {''host'', ''gpu''} \<and> (so_expect_sha opts = [] \<or> scope_hex_64 (so_expect_sha opts))
     \<and> (so_concurrent opts = 0 \<or> so_concurrent opts \<in> {2..256})"

lemma parse_size_arg_nonzero: "parse_size_arg s = Some v \<Longrightarrow> v \<noteq> 0"
  by (auto simp: parse_size_arg_def split: if_splits option.splits)

lemma scope_server_ok: "scope_server opts s = Some opts' \<Longrightarrow> scope_options_ok opts \<Longrightarrow> scope_options_ok opts'"
  using parse_size_arg_nonzero
  by (fastforce simp: scope_server_def scope_options_ok_def not_less word_le_nat_alt word_neq_0_conv word_less_nat_alt
      simp del: of_nat_unat split: option.splits if_splits)

lemma scope_concurrent_ok: "scope_concurrent opts v = Some opts' \<Longrightarrow> scope_options_ok opts \<Longrightarrow> scope_options_ok opts'"
  by (auto simp: scope_concurrent_def scope_options_ok_def not_less word_le_nat_alt simp del: of_nat_unat
      split: option.splits if_splits)

lemma scope_option_ok: "scope_option opts a args = Some (opts', rest) \<Longrightarrow> scope_options_ok opts \<Longrightarrow> scope_options_ok opts'"
  unfolding scope_option_def
  by (auto simp: scope_value_Some dest: scope_server_ok scope_concurrent_ok split: if_splits prod.splits)
    (auto simp: scope_options_ok_def dest: parse_size_arg_nonzero)

lemma scope_option_loop_ok: "scope_option_loop opts args = Some opts' \<Longrightarrow> scope_options_ok opts \<Longrightarrow> scope_options_ok opts'"
  by (induction opts args rule: scope_option_loop.induct) (auto dest: scope_option_ok split: option.splits)

section \<open>A concrete run\<close>

definition demo_sha :: "string \<Rightarrow> string option" where
  "demo_sha s = Some (replicate 32 (if s = ''data'' then CHR 0x11 else CHR 0x22))"

definition demo_scope_options :: scope_options where
  "demo_scope_options = default_scope_options\<lparr>so_bucket := ''b'', so_object := ''k'', so_exp := ''b0'', so_mode := ''host'',
     so_xfer := 4, so_guard := 16, so_expect_sha := hex (replicate 32 (CHR 0x11))\<rparr>"

definition demo_sdk :: sdk where
  "demo_sdk = \<lparr>sdk_register = (\<lambda>_ _ _. 0), sdk_callback_max = (\<lambda>_ _. 4096),
     sdk_get = (\<lambda>_ _ ptr _ buf_offset arena. (Some 4, 1, poke arena (unat (ptr + buf_offset)) ''data'')),
     sdk_slice_token = (\<lambda>_ _. (-1, None))\<rparr>"

definition demo_setup :: scope_setup where
  "demo_setup = \<lparr>su_opts = demo_scope_options,
     su_layout = \<lparr>ly_xfer = 4, ly_guard = 16, ly_base_region = 4096, ly_cell = 4096\<rparr>,
     su_vis = \<lparr>vi_raw = -1, vi_name = ''host_na'', vi_trustworthy = True\<rparr>, su_poison = make_poison 4,
     su_arena_bytes = 8192, su_p_half = 0\<rparr>"

definition demo_head :: "string \<Rightarrow> int \<Rightarrow> string \<Rightarrow> header_list \<Rightarrow> string + http_reply" where
  "demo_head host port target headers = Inr \<lparr>hr_status = 200, hr_field = [''Content-Length'' \<mapsto> ''9'']\<rparr>"

lemma demo_prepare: "scope_prepare demo_sha (su_vis demo_setup) (Inr 9) demo_scope_options = Inr (Inr demo_setup)"
  by code_simp

lemma demo_plan: "plan_arena demo_sha (su_vis demo_setup) demo_scope_options = Inr (Inr demo_setup)"
  by code_simp

lemma demo_gate: "callback_gate demo_sdk (so_base_offset_api demo_scope_options) ''A'' 0 0 (so_xfer demo_scope_options) = None"
  by code_simp

lemma demo_stol: "stol ''9'' = Some (9, 1)"
  by (simp add: stol_def strto_parse_def skip_sign_def skip_0x_def base_digit_def hex_digit_val_def is_digit_def is_space_def)

lemma demo_passes:
  "\<exists>oc. scope_run (\<lambda>_. None) demo_sha (\<lambda>_ _. None) demo_tm demo_head (\<lambda>_ _ _ _ a. (None, a)) None demo_sdk
     (\<lambda>n. replicate (unat n) NUL) demo_scope_options = Inr oc \<and> oc_verdict oc = Pass"
proof -
  have o: "so_xfer demo_scope_options = 4" "so_exp demo_scope_options = ''b0''" "so_concurrent demo_scope_options \<le> 0"
    "so_mode demo_scope_options = ''host''" "po_auth (so_proto demo_scope_options) = AuthNone"
    "so_expect_sha demo_scope_options \<noteq> []" "sha256_hex demo_sha ''data'' = Inr (so_expect_sha demo_scope_options)"
    by code_simp+
  have "\<exists>oc. scope_experiment demo_sha (\<lambda>_ _. None) demo_tm (\<lambda>_ _ _ _ a. (None, a)) demo_sdk demo_setup
      (replicate (unat (su_arena_bytes demo_setup)) NUL) = Inr oc \<and> oc_verdict oc = Pass"
  proof (rule shared_accepts [OF demo_plan _ o(3) _ demo_gate _ _ _ o(7,6)])
    show "so_exp demo_scope_options \<in> {''b0'', ''i0'', ''s0'', ''si''}" using o(2) by simp
    show "sdk_register demo_sdk ''A'' 0 (su_arena_bytes demo_setup) = 0" by (simp add: demo_sdk_def)
    show "vi_trustworthy (su_vis demo_setup)" by (simp add: demo_setup_def)
    show "sdk_delivers demo_sdk (so_xfer demo_scope_options) ''data''" by (simp add: demo_sdk_def sdk_delivers_def)
    show "length ''data'' = unat (so_xfer demo_scope_options)" unfolding o(1) by simp
  qed simp
  moreover have "head_object demo_sha (\<lambda>_ _. None) demo_tm demo_head demo_scope_options ''/b/k'' = Inr 9"
    using demo_stol o(5) by (simp add: head_object_def control_plane_headers_def demo_head_def has_header_def header_value_def Let_def)
  moreover have "read_visibility (parse_mode ''host'') None = su_vis demo_setup" by code_simp
  moreover have "so_bucket demo_scope_options = ''b''" "so_object demo_scope_options = ''k''" by code_simp+
  ultimately show ?thesis
    using demo_prepare o(4,5) by (simp add: scope_run_def finish_protocol_options_def Let_def)
qed

section \<open>Properties\<close>

text \<open>The probe's copy of the callback returns exactly what the client library's callback returns on the same
  descriptor, size and answer, and it leaves a trace that shows a hang: the opening line is written before
  the request goes out, a closing line after it, and the callback counter goes up by one.\<close>

lemma probe_callback_agrees:
  "fst (probe_get_callback SHA256 HMAC now http (Some ctx) (Some desc) ptr sz offset)
     = get_callback_impl SHA256 HMAC now
         (\<lambda>h p t hs. case http h p t hs of Inl _ \<Rightarrow> None | Inr r \<Rightarrow> Some r)
         (Some \<lparr>gc_host = pc_host ctx, gc_port = pc_port ctx, gc_path = pc_path ctx, gc_range = pc_range ctx,
            gc_proto = Some (pc_proto ctx)\<rparr>) (Some desc) sz
   \<and> (\<exists>opening closing sent. fst (snd (probe_get_callback SHA256 HMAC now http (Some ctx) (Some desc) ptr sz offset))
        = Logged opening # sent @ [Logged closing]
      \<and> sent = (case probe_request SHA256 HMAC now ctx desc of Inl _ \<Rightarrow> [] | Inr (t, hs) \<Rightarrow> [Requested t hs]))
   \<and> snd (snd (probe_get_callback SHA256 HMAC now http (Some ctx) (Some desc) ptr sz offset))
      = Some (ctx\<lparr>pc_callbacks := pc_callbacks ctx + 1\<rparr>)"
proof -
  let ?gc = "\<lparr>gc_host = pc_host ctx, gc_port = pc_port ctx, gc_path = pc_path ctx, gc_range = pc_range ctx,
      gc_proto = Some (pc_proto ctx)\<rparr>"
  have req: "callback_request SHA256 HMAC now (pc_proto ctx) ?gc desc = probe_request SHA256 HMAC now ctx desc"
    by (simp add: callback_request_def probe_request_def Let_def if_distrib cong: if_cong)
  have resp: "fst (probe_response proto sz res line) = callback_reply proto sz (case res of Inl _ \<Rightarrow> None | Inr r \<Rightarrow> Some r)"
    for proto res line
    by (auto simp: probe_response_def callback_reply_def parse_rdma_bytes_transferred_spec parse_rdma_reply_spec
        has_header_def header_value_def Let_def split: sum.splits option.splits)
  show ?thesis
  proof (cases "probe_request SHA256 HMAC now ctx desc")
    case (Inl e)
    then show ?thesis by (simp add: probe_get_callback_def get_callback_impl_def req Let_def)
  next
    case (Inr p)
    obtain t hs where p: "p = (t, hs)" by force
    obtain rc line where r: "probe_response (pc_proto ctx) sz (http (pc_host ctx) (pc_port ctx) t hs)
        (line_num ''call_index'' (int (pc_callbacks ctx)) (line_str ''who'' (pc_who ctx) (line_new (pc_tag ctx) ''callback_end'')))
        = (rc, line)" by force
    then have "rc = callback_reply (pc_proto ctx) sz (case http (pc_host ctx) (pc_port ctx) t hs of Inl _ \<Rightarrow> None | Inr r \<Rightarrow> Some r)"
      by (metis fst_conv resp)
    with Inr p r show ?thesis by (simp add: probe_get_callback_def get_callback_impl_def req Let_def)
  qed
qed

text \<open>C17. Every landing site lies inside the arena and inside the registration it is used with: whenever the
  preparation succeeds the experiment has at least one slot, its slots are guarded blocks within the
  arena, each after the previous one, and for \<^verbatim>\<open>p\<close> the first ends before the second half begins and the
  second starts there; the arena never exceeds the SDK's registration limit.\<close>

theorem slots_inside_arena:
  assumes "scope_prepare SHA256 vis head opts = Inr (Inr su)"
  defines "slots \<equiv> probe_slots (su_opts su) (su_layout su) (su_arena_bytes su) (su_p_half su)"
  shows "slots \<noteq> [] \<and> list_all (\<lambda>s. contiguous s \<and> slot_end s \<le> unat (su_arena_bytes su)
        \<and> sp_len (sl_payload s) = so_xfer (su_opts su)) slots
    \<and> sorted_wrt (\<lambda>s t. slot_end s \<le> slot_start t) slots
    \<and> unat (su_arena_bytes su) \<le> 4 * 1024 ^ 3 - 64 * 1024
    \<and> (so_exp opts = ''p'' \<longrightarrow> slot_end (slots ! 0) \<le> unat (su_p_half su) \<and> slot_start (slots ! 1) = unat (su_p_half su))"
proof -
  note pl = scope_prepare_Inr [OF assms(1)]
  note P = plan_arena_Inr [OF pl(1)]
  note S = probe_slots_ok [OF P(4,5), folded slots_def]
  have "unat (su_arena_bytes su) \<le> unat kMaxReg" using size_arena_max [OF P(5)] by (simp add: word_le_nat_alt)
  then have mx: "unat (su_arena_bytes su) \<le> 4 * 1024 ^ 3 - 64 * 1024" by (simp add: kMaxReg_def)
  have half: "slot_end (slots ! 0) \<le> unat (su_p_half su) \<and> slot_start (slots ! 1) = unat (su_p_half su)"
    if p: "so_exp opts = ''p''"
  proof -
    have p': "so_exp (su_opts su) = ''p''" using p pl(2) by simp
    note ph = size_arena_p [OF P(5) p']
    have "unat (su_p_half su) + unat (ly_cell (su_layout su)) < 2 ^ 64"
      using ph unat_u64_lt [of "su_arena_bytes su"] by linarith
    note B = p_slot_facts [OF P(4) this]
    have "unat (0 :: u64) + unat (ly_cell (su_layout su)) < 2 ^ 64" using unat_u64_lt [of "ly_cell (su_layout su)"] by simp
    note A = p_slot_facts [OF P(4) this]
    show ?thesis using A B ph p' by (simp add: slots_def probe_slots_def)
  qed
  with S mx show ?thesis by (simp add: list_all_iff)
qed

theorem slots_inside_arena_witness:
  "probe_slots (su_opts demo_setup) (su_layout demo_setup) (su_arena_bytes demo_setup) (su_p_half demo_setup) \<noteq> []
   \<and> unat (su_arena_bytes demo_setup) \<le> 4 * 1024 ^ 3 - 64 * 1024"
  using slots_inside_arena [OF demo_prepare] by blast



text \<open>Nothing stays registered: however an experiment ends, the registrations that succeeded come first and
  exactly those are released afterwards, in the same order.\<close>

lemma scope_deregisters:
  assumes "scope_run getenv SHA256 HMAC now http_head http_get attr sdk fresh opts = Inr oc"
  shows "\<exists>rs. oc_trace oc = map (\<lambda>(who, base). Reg who base) rs @ map (\<lambda>(who, base). Dereg who base) rs"
proof -
  from assms have "balanced (oc_trace oc)"
  proof (cases rule: scope_run_cases)
    case (env d)
    then show ?thesis by simp
  next
    case (run proto head su)
    then show ?thesis
      by (auto simp: scope_experiment_def Let_def
          intro: exp_shared_balanced exp_r_balanced exp_p_balanced exp_m_balanced split: if_splits)
  qed
  then show ?thesis by (simp add: balanced_def)
qed

text \<open>C16. The probe does not fail a working stack: when the preparation succeeded, the registration and the
  callback capacity are fine, visibility is guaranteed, no concurrency was asked for, and the SDK puts
  exactly the expected bytes where it is told to and reports them in one callback, then each of the single
  slot experiments ends in PASS.\<close>

theorem scope_pass_complete:
  assumes "scope_prepare SHA256 vis head opts = Inr (Inr su)" and "so_exp opts \<in> {''b0'', ''i0'', ''s0'', ''si''}"
    and "so_concurrent opts \<le> 0" and "sdk_register sdk ''A'' 0 (su_arena_bytes su) = 0"
    and "callback_gate sdk (so_base_offset_api (su_opts su)) ''A'' 0 0 (so_xfer (su_opts su)) = None"
    and "vi_trustworthy vis"
    and "sdk_delivers sdk (so_xfer (su_opts su)) data" and "length data = unat (so_xfer (su_opts su))"
    and "sha256_hex SHA256 data = Inr (so_expect_sha (su_opts su))" and "so_expect_sha (su_opts su) \<noteq> []"
    and "length arena = unat (su_arena_bytes su)"
  shows "\<exists>oc. scope_experiment SHA256 HMAC now http_get sdk su arena = Inr oc \<and> exit_code (oc_verdict oc) = 0"
proof -
  note pl = scope_prepare_Inr [OF assms(1)]
  have "so_exp (su_opts su) \<in> {''b0'', ''i0'', ''s0'', ''si''}" "so_concurrent (su_opts su) \<le> 0"
    using assms(2,3) pl(2,3) by simp_all
  from shared_accepts [OF pl(1) this assms(4-11)] obtain oc where
    "scope_experiment SHA256 HMAC now http_get sdk su arena = Inr oc" "oc_verdict oc = Pass" by blast
  then show ?thesis by (simp add: exit_code_def)
qed

theorem scope_pass_complete_witness:
  "\<exists>oc. scope_experiment demo_sha (\<lambda>_ _. None) demo_tm (\<lambda>_ _ _ _ a. (None, a)) demo_sdk demo_setup
      (replicate (unat (su_arena_bytes demo_setup)) NUL) = Inr oc \<and> exit_code (oc_verdict oc) = 0"
proof -
  have o: "so_xfer demo_scope_options = 4" "so_exp demo_scope_options = ''b0''" "so_concurrent demo_scope_options \<le> 0"
    "so_expect_sha demo_scope_options \<noteq> []" "sha256_hex demo_sha ''data'' = Inr (so_expect_sha demo_scope_options)"
    by code_simp+
  have s: "su_opts demo_setup = demo_scope_options" by (simp add: demo_setup_def)
  show ?thesis
  proof (rule scope_pass_complete [OF demo_prepare _ o(3) _ _ _ _ _ _ _, where data = "''data''"])
    show "so_exp demo_scope_options \<in> {''b0'', ''i0'', ''s0'', ''si''}" using o(2) by simp
    show "sdk_register demo_sdk ''A'' 0 (su_arena_bytes demo_setup) = 0" by (simp add: demo_sdk_def)
    show "vi_trustworthy (su_vis demo_setup)" by (simp add: demo_setup_def)
    show "sdk_delivers demo_sdk (so_xfer (su_opts demo_setup)) ''data''" by (simp add: demo_sdk_def sdk_delivers_def)
    show "length ''data'' = unat (so_xfer (su_opts demo_setup))" unfolding s o(1) by simp
    show "callback_gate demo_sdk (so_base_offset_api (su_opts demo_setup)) ''A'' 0 0 (so_xfer (su_opts demo_setup)) = None"
      unfolding s by (rule demo_gate)
    show "sha256_hex demo_sha ''data'' = Inr (so_expect_sha (su_opts demo_setup))" unfolding s by (rule o(5))
    show "so_expect_sha (su_opts demo_setup) \<noteq> []" unfolding s by (rule o(4))
  qed simp
qed

text \<open>Accepted options are sane: a port in range, positive transfer and guard sizes, a known mode and
  experiment, a well-formed digest if any, and concurrency only between 2 and 256 and only for \<^verbatim>\<open>si\<close>.\<close>

lemma parse_options_ok:
  assumes "parse_options argv = Some opts"
  shows "scope_options_ok opts \<and> so_bucket opts \<noteq> [] \<and> so_object opts \<noteq> []
    \<and> so_exp opts \<in> {''b0'', ''i0'', ''s0'', ''si'', ''r'', ''p'', ''m''} \<and> (so_concurrent opts = 0 \<or> so_exp opts = ''si'')"
proof -
  have "scope_options_ok default_scope_options"
    by (simp add: scope_options_ok_def default_scope_options_def)
  then have "scope_options_ok opts"
    using assms by (auto simp: parse_options_def dest: scope_option_loop_ok split: option.splits if_splits)
  with assms show ?thesis
    by (auto simp: parse_options_def scope_options_ok_def split: option.splits if_splits)
qed

end
