(* ===== verification/Rig_Options.thy ===== *)
theory Rig_Options
  imports Scope_Probe Manifest Completion
begin

text \<open>
  The first part of \<^verbatim>\<open>probe/rig_probe_main.cpp\<close>: options, the validated geometry of the arena, the poisoned
  cells in it, GPU visibility and the closing report. Verdicts, checked arithmetic and the registration
  limit are those of the scope probe, whose source repeats them. Command-line strings hold no NUL.
\<close>

section \<open>Closing report\<close>

definition verdict_exit :: "verdict \<Rightarrow> nat" where
  "verdict_exit v = (case v of Pass \<Rightarrow> 0 | Fail \<Rightarrow> 1 | Inconclusive \<Rightarrow> 4 | EnvError \<Rightarrow> 3)"

text \<open>\<open>printed\<close> and \<open>flushed\<close> tell how the output calls of the record went.\<close>

definition finish :: "bool \<Rightarrow> bool \<Rightarrow> verdict \<Rightarrow> string \<Rightarrow> jsonl_state \<Rightarrow> nat \<times> jsonl_state" where
  "finish printed flushed v detail s =
     (let v = (if jl_output_failed s \<and> v = Pass then Inconclusive else v);
          s' = rec_emit printed flushed
            (rec_boolean ''evidence_output_failed'' (jl_output_failed s)
              (rec_str ''detail'' detail (rec_str ''verdict'' (verdict_string v) (rec_new ''result'')))) s
      in (if jl_output_failed s' then 3 else verdict_exit v, s'))"

definition terminal_line :: "verdict \<Rightarrow> string" where
  "terminal_line v = ''{'' @ [DQ] @ ''event'' @ [DQ] @ '':'' @ [DQ] @ ''result'' @ [DQ] @ '','' @ [DQ] @ ''verdict'' @ [DQ]
     @ '':'' @ [DQ] @ verdict_string v @ [DQ] @ '','' @ [DQ] @ ''detail'' @ [DQ] @ '':'' @ [DQ]
     @ ''terminal reporting failed after the reading was selected'' @ [DQ] @ '','' @ [DQ] @ ''evidence_output_failed''
     @ [DQ] @ '':true}'' @ [LF]"

text \<open>The direct write of the line is taken to succeed; the exit code does not depend on it.\<close>

definition terminal_fallback :: "verdict \<Rightarrow> jsonl_state \<Rightarrow> nat \<times> jsonl_state" where
  "terminal_fallback v s =
     (let v = (if v = Pass then Inconclusive else v)
      in (3, s\<lparr>jl_output_failed := True, jl_stdout := jl_stdout s @ terminal_line v\<rparr>))"

section \<open>Options\<close>

definition kSsizeMax :: u64 where "kSsizeMax = 2 ^ 63 - 1"

record rig_options =
  ro_exp :: string
  ro_host :: string
  ro_bucket :: string
  ro_object :: string
  ro_mode :: string
  ro_expect_sha :: string
  ro_label :: string
  ro_objects :: "string list"
  ro_port :: int
  ro_slot_bytes :: u64
  ro_guard :: u64
  ro_slots :: u64
  ro_range_start :: u64
  ro_range_end :: u64
  ro_range_given :: bool
  ro_expected_bytes :: u64
  ro_expected_given :: bool
  ro_neg_class :: string
  ro_guard_mode :: string
  ro_iterations :: nat
  ro_deadline_s :: nat
  ro_abrupt :: bool
  ro_child :: bool
  ro_proto :: protocol_options
  ro_base_offset_api :: bool

definition default_rig_options :: rig_options where
  "default_rig_options = \<lparr>ro_exp = [], ro_host = ''127.0.0.1'', ro_bucket = [], ro_object = [], ro_mode = ''gpu'',
     ro_expect_sha = [], ro_label = ''diag'', ro_objects = [], ro_port = 8080, ro_slot_bytes = 8 * 1024 * 1024,
     ro_guard = 64 * 1024, ro_slots = 16, ro_range_start = 0, ro_range_end = 0, ro_range_given = False,
     ro_expected_bytes = 0, ro_expected_given = False, ro_neg_class = ''known-complete'', ro_guard_mode = ''retryable'',
     ro_iterations = 20, ro_deadline_s = 60, ro_abrupt = False, ro_child = False,
     ro_proto = default_protocol_options, ro_base_offset_api = False\<rparr>"

text \<open>The digit loop has the body of the manifest's.\<close>

definition rig_parse_size :: "string \<Rightarrow> u64 option" where
  "rig_parse_size s = (if s = [] then None else scan u64_step 0 s)"

definition rig_hex_64 :: "string \<Rightarrow> bool" where
  "rig_hex_64 s \<longleftrightarrow> length s = 64 \<and> list_all is_lower_hex s"

definition rig_server :: "rig_options \<Rightarrow> string \<Rightarrow> rig_options option" where
  "rig_server opts s = (case find_char CHR '':'' s of
      None \<Rightarrow> None
    | Some c \<Rightarrow>
        if c = 0 then None
        else (case rig_parse_size (drop (c + 1) s) of
            None \<Rightarrow> None
          | Some n \<Rightarrow> if n = 0 \<or> 65535 < n then None else Some (opts\<lparr>ro_host := take c s, ro_port := int (unat n)\<rparr>)))"

lemma find_char_bound: "find_char c s = Some q \<Longrightarrow> q < length s"
  by (induction s arbitrary: q) (auto split: if_splits)

function object_items :: "string \<Rightarrow> string list option" where
  "object_items s = (case find_char CHR '','' s of
      None \<Rightarrow> if s = [] then None else Some [s]
    | Some q \<Rightarrow> if take q s = [] then None else map_option (Cons (take q s)) (object_items (drop (q + 1) s)))"
  by pat_completeness auto
termination
  by (relation "measure length") (auto dest: find_char_bound)

declare object_items.simps [simp del]

definition rig_range :: "rig_options \<Rightarrow> string \<Rightarrow> rig_options option" where
  "rig_range opts s = (case find_char CHR ''-'' s of
      None \<Rightarrow> None
    | Some d \<Rightarrow>
        (case (rig_parse_size (take d s), rig_parse_size (drop (d + 1) s)) of
           (Some n, Some e) \<Rightarrow>
             if e < n then None
             else Some (opts\<lparr>ro_range_start := n, ro_range_end := e, ro_range_given := True\<rparr>)
         | _ \<Rightarrow> None))"

definition rig_bounded :: "string \<Rightarrow> u64 \<Rightarrow> (nat \<Rightarrow> rig_options) \<Rightarrow> rig_options option" where
  "rig_bounded v limit set_it = (case rig_parse_size v of
      None \<Rightarrow> None
    | Some n \<Rightarrow> if n = 0 \<or> limit < n then None else Some (set_it (unat n)))"

text \<open>An option whose value is missing falls through to the protocol flags, which do not know it.\<close>

definition rig_value :: "string list \<Rightarrow> (string \<Rightarrow> rig_options option) \<Rightarrow> (rig_options \<times> string list) option" where
  "rig_value args f = (case args of [] \<Rightarrow> None | v # rest \<Rightarrow> map_option (\<lambda>o'. (o', rest)) (f v))"

definition rig_option :: "rig_options \<Rightarrow> string \<Rightarrow> string list \<Rightarrow> (rig_options \<times> string list) option" where
  "rig_option opts a args =
     (if a = ''--exp'' then rig_value args (\<lambda>v. Some (opts\<lparr>ro_exp := v\<rparr>))
      else if a = ''--server'' then rig_value args (rig_server opts)
      else if a = ''--bucket'' then rig_value args (\<lambda>v. Some (opts\<lparr>ro_bucket := v\<rparr>))
      else if a = ''--object'' then rig_value args (\<lambda>v. Some (opts\<lparr>ro_object := v\<rparr>))
      else if a = ''--objects'' then rig_value args (\<lambda>v.
        map_option (\<lambda>items. opts\<lparr>ro_objects := ro_objects opts @ items\<rparr>) (object_items v))
      else if a = ''--mode'' then rig_value args (\<lambda>v.
        if v \<noteq> ''host'' \<and> v \<noteq> ''gpu'' then None else Some (opts\<lparr>ro_mode := v\<rparr>))
      else if a = ''--slot-bytes'' then rig_value args (\<lambda>v. map_option (\<lambda>n. opts\<lparr>ro_slot_bytes := n\<rparr>) (rig_parse_size v))
      else if a = ''--slots'' then rig_value args (\<lambda>v. map_option (\<lambda>n. opts\<lparr>ro_slots := n\<rparr>) (rig_parse_size v))
      else if a = ''--guard'' then rig_value args (\<lambda>v. map_option (\<lambda>n. opts\<lparr>ro_guard := n\<rparr>) (rig_parse_size v))
      else if a = ''--landing-api'' then rig_value args (\<lambda>v.
        if v = ''base-offset'' then Some (opts\<lparr>ro_base_offset_api := True\<rparr>)
        else if v = ''pointer'' then Some (opts\<lparr>ro_base_offset_api := False\<rparr>) else None)
      else if a = ''--range'' then rig_value args (rig_range opts)
      else if a = ''--expected-bytes'' then rig_value args (\<lambda>v.
        map_option (\<lambda>n. opts\<lparr>ro_expected_bytes := n, ro_expected_given := True\<rparr>) (rig_parse_size v))
      else if a = ''--case'' then rig_value args (\<lambda>v. Some (opts\<lparr>ro_label := v\<rparr>))
      else if a = ''--class'' then rig_value args (\<lambda>v.
        if v \<noteq> ''known-complete'' \<and> v \<noteq> ''unknown'' \<and> v \<noteq> ''no-emission'' then None else Some (opts\<lparr>ro_neg_class := v\<rparr>))
      else if a = ''--expect-sha'' then rig_value args (\<lambda>v. if rig_hex_64 v then Some (opts\<lparr>ro_expect_sha := v\<rparr>) else None)
      else if a = ''--guard-mode'' then rig_value args (\<lambda>v.
        if v \<noteq> ''retryable'' \<and> v \<noteq> ''enotsup'' then None else Some (opts\<lparr>ro_guard_mode := v\<rparr>))
      else if a = ''--iterations'' then rig_value args (\<lambda>v. rig_bounded v 100000 (\<lambda>n. opts\<lparr>ro_iterations := n\<rparr>))
      else if a = ''--deadline-s'' then rig_value args (\<lambda>v. rig_bounded v 3600 (\<lambda>n. opts\<lparr>ro_deadline_s := n\<rparr>))
      else if a = ''--abrupt'' then Some (opts\<lparr>ro_abrupt := True\<rparr>, args)
      else if a = ''--child'' then Some (opts\<lparr>ro_child := True\<rparr>, args)
      else
        (case parse_protocol_flag a (case args of [] \<Rightarrow> None | v # _ \<Rightarrow> Some v) (ro_proto opts) of
           (f, proto) \<Rightarrow>
             if pf_matched f \<and> pf_ok f then Some (opts\<lparr>ro_proto := proto\<rparr>, if pf_used_value f then drop 1 args else args)
             else None))"

lemma rig_value_Some: "rig_value args f = Some (o', rest) \<longleftrightarrow> (\<exists>v. args = v # rest \<and> f v = Some o')"
  by (cases args) (auto simp: rig_value_def)

lemma rig_option_shorter: "rig_option opts a args = Some (opts', rest) \<Longrightarrow> length rest \<le> length args"
  by (auto simp: rig_option_def rig_value_Some split: if_splits prod.splits)

function rig_option_loop :: "rig_options \<Rightarrow> string list \<Rightarrow> rig_options option" where
  "rig_option_loop opts [] = Some opts"
| "rig_option_loop opts (a # args) =
     (case rig_option opts a args of
        None \<Rightarrow> None
      | Some (opts', rest) \<Rightarrow> rig_option_loop opts' rest)"
  by pat_completeness auto
termination
  by (relation "measure (\<lambda>(opts, args). length args)") (auto dest: rig_option_shorter)

definition rig_parse_args :: "string list \<Rightarrow> rig_options option" where
  "rig_parse_args argv = (case rig_option_loop default_rig_options argv of
      None \<Rightarrow> None
    | Some opts \<Rightarrow>
        let exp = ro_exp opts;
            needs_object = (exp = ''diag'' \<or> exp = ''rt-guard'' \<or> exp = ''exit'' \<or> (exp = ''c'' \<and> ro_objects opts = []))
        in if exp = [] then None
           else if exp \<noteq> ''attr'' \<and> exp \<noteq> ''reg'' \<and> ro_bucket opts = [] then None
           else if needs_object \<and> ro_object opts = [] then None
           else Some opts)"

section \<open>Geometry\<close>

record geometry =
  ge_cell :: u64
  ge_arena :: u64
  ge_expected :: u64

definition request_start :: "rig_options \<Rightarrow> u64" where
  "request_start opts = (if ro_range_given opts then ro_range_start opts else 0)"

definition request_end :: "rig_options \<Rightarrow> u64" where
  "request_end opts = (if ro_range_given opts then ro_range_end opts else ro_slot_bytes opts - 1)"

text \<open>The cell size and the arena size; \<^const>\<open>None\<close> when they overflow or exceed the registration limit.\<close>

definition geometry_arena :: "rig_options \<Rightarrow> u64 \<Rightarrow> (u64 \<times> u64) option" where
  "geometry_arena opts slots =
     Option.bind (checked_mul (ro_guard opts) 2) (\<lambda>two_guard.
     Option.bind (checked_add (ro_slot_bytes opts) two_guard) (\<lambda>cell.
     Option.bind (checked_mul cell slots) (\<lambda>arena.
       if kMaxReg < arena then None else Some (cell, arena))))"

definition validate_geometry :: "rig_options \<Rightarrow> u64 \<Rightarrow> string + geometry" where
  "validate_geometry opts slots =
     (if ro_slot_bytes opts = 0 \<or> kSsizeMax < ro_slot_bytes opts then Inl ''S must be 1..SSIZE_MAX''
      else if ro_guard opts = 0 then Inl ''guard must be > 0''
      else if slots = 0 \<or> 256 < slots then Inl ''W must be 1..256''
      else (case geometry_arena opts slots of
          None \<Rightarrow> Inl ''W*(S+2G) overflows or exceeds CUOBJ_MAX_MEMORY_REG_SIZE''
        | Some (cell, arena) \<Rightarrow>
            (case (if request_end opts < request_start opts then None
                   else checked_add (request_end opts - request_start opts) 1) of
               None \<Rightarrow> Inl ''request range longer than S''
             | Some len \<Rightarrow>
                 let expected = (if ro_expected_given opts then ro_expected_bytes opts else len)
                 in if ro_slot_bytes opts < len then Inl ''request range longer than S''
                    else if len < expected then Inl ''--expected-bytes exceeds the request length''
                    else if ro_exp opts = ''c'' \<and> ro_objects opts = [] \<and> checked_mul (ro_slot_bytes opts) slots = None
                    then Inl ''W*S overflows''
                    else Inr \<lparr>ge_cell = cell, ge_arena = arena, ge_expected = expected\<rparr>)))"

section \<open>Visibility\<close>

text \<open>Unlike the scope probe's, the comparison with the CUDA ordering constants is exact.\<close>

definition rig_visibility :: "buffer_mode \<Rightarrow> int option \<Rightarrow> visibility" where
  "rig_visibility mode attr = (case mode of
      Host \<Rightarrow> \<lparr>vi_raw = -1, vi_name = ''host_na'', vi_trustworthy = True\<rparr>
    | Gpu \<Rightarrow> (case attr of
        None \<Rightarrow> \<lparr>vi_raw = -1, vi_name = ''query_failed'', vi_trustworthy = False\<rparr>
      | Some v \<Rightarrow>
          if v = 200 then \<lparr>vi_raw = v, vi_name = ''all_devices'', vi_trustworthy = True\<rparr>
          else if v = 100 then \<lparr>vi_raw = v, vi_name = ''owner'', vi_trustworthy = True\<rparr>
          else if v = 0 then \<lparr>vi_raw = v, vi_name = ''none'', vi_trustworthy = False\<rparr>
          else \<lparr>vi_raw = v, vi_name = ''unknown'', vi_trustworthy = False\<rparr>))"

section \<open>Poisoned cells\<close>

definition poison_next :: "u32 \<Rightarrow> u32" where
  "poison_next x = x * 1664525 + 1013904223"

fun poison_loop :: "u32 \<Rightarrow> nat \<Rightarrow> string" where
  "poison_loop x 0 = []"
| "poison_loop x (Suc n) =
     (let x = poison_next x in char_of (unat (xor (drop_bit 24 x) 0xA5)) # poison_loop x n)"

definition poison_pattern :: "u64 \<Rightarrow> u32 \<Rightarrow> string" where
  "poison_pattern len nonce = poison_loop (xor 0x9E3779B9 nonce) (unat len)"

record cell =
  ce_base :: u64
  ce_payload :: u64
  ce_guard :: u64
  ce_size :: u64

definition make_cell :: "u64 \<Rightarrow> u64 \<Rightarrow> u64 \<Rightarrow> cell" where
  "make_cell index guard payload =
     (let sz = guard + payload + guard; base = index * sz
      in \<lparr>ce_base = base, ce_payload = base + guard, ce_guard = guard, ce_size = sz\<rparr>)"

definition poison_cell :: "string \<Rightarrow> cell \<Rightarrow> u32 \<Rightarrow> string" where
  "poison_cell arena c nonce = poke arena (unat (ce_base c)) (poison_pattern (ce_size c) nonce)"

definition rig_read :: "string \<Rightarrow> u64 \<Rightarrow> u64 \<Rightarrow> string" where
  "rig_read arena off len = take (unat len) (drop (unat off) arena)"

definition poison_intact_outside :: "string \<Rightarrow> cell \<Rightarrow> u64 \<Rightarrow> u32 \<Rightarrow> bool" where
  "poison_intact_outside arena c got nonce =
     (let expect = poison_pattern (ce_size c) nonce;
          whole = rig_read arena (ce_base c) (ce_size c)
      in list_all (\<lambda>i. (unat (ce_guard c) \<le> i \<and> i < unat (ce_guard c + got)) \<or> whole ! i = expect ! i)
           [0..<unat (ce_size c)])"

definition payload_poison_digest :: "(string \<Rightarrow> string option) \<Rightarrow> cell \<Rightarrow> u64 \<Rightarrow> u32 \<Rightarrow> string result" where
  "payload_poison_digest SHA256 c n nonce =
     sha256_hex SHA256 (take (unat n) (drop (unat (ce_guard c)) (poison_pattern (ce_size c) nonce)))"

text \<open>\<open>path\<close> is the environment variable, \<open>content\<close> what reading the file it names gives.\<close>

definition effective_retry_count :: "string option \<Rightarrow> string option \<Rightarrow> string" where
  "effective_retry_count path content =
     (if path = None \<or> path = Some [] then ''env_unset''
      else case content of
        None \<Rightarrow> ''unreadable''
      | Some txt \<Rightarrow>
          (case find_sub ''rdma_io_retry_count'' txt of
             None \<Rightarrow> ''absent''
           | Some k \<Rightarrow>
               (case find_char CHR '':'' (drop k txt) of
                  None \<Rightarrow> ''malformed''
                | Some colon \<Rightarrow>
                    let tail_txt = dropWhile (\<lambda>c. c = SP \<or> c = TAB) (drop (k + colon + 1) txt);
                        digits = takeWhile is_digit tail_txt
                    in if digits = [] then ''malformed'' else digits)))"

section \<open>Lemmas\<close>

lemma rig_parse_size_iff:
  "rig_parse_size s = Some v \<longleftrightarrow> s \<noteq> [] \<and> list_all is_digit s \<and> unat v = dec_value s"
proof -
  have "v = w" if "unat v = dec_value s" "unat w = dec_value s" for w
    using that by (simp add: word_unat_eq_iff)
  moreover have "dec_value s \<le> 2 ^ 64 - 1" if "unat v = dec_value s"
    using unat_u64_lt [of v] that by linarith
  ultimately show ?thesis
    using u64s.scan_Some_iff [of 0 s] u64s.scan_value [of 0 s]
    by (auto simp: rig_parse_size_def)
qed

lemma poison_loop_length [simp]: "length (poison_loop x n) = n"
  by (induction n arbitrary: x) (simp_all add: Let_def)

lemma poison_pattern_length [simp]: "length (poison_pattern len nonce) = unat len"
  by (simp add: poison_pattern_def)

lemma geometry_arena_Some:
  assumes "geometry_arena opts slots = Some (c, a)"
  shows "unat c = unat (ro_slot_bytes opts) + 2 * unat (ro_guard opts)"
    "unat a = unat slots * unat c" "unat a \<le> 4 * 1024 * 1024 * 1024 - 64 * 1024"
proof -
  obtain t where "checked_mul (ro_guard opts) 2 = Some t" "checked_add (ro_slot_bytes opts) t = Some c"
      "checked_mul c slots = Some a" "a \<le> kMaxReg"
    using assms by (auto simp: geometry_arena_def bind_eq_Some_conv not_less split: if_splits)
  then show "unat c = unat (ro_slot_bytes opts) + 2 * unat (ro_guard opts)"
    "unat a = unat slots * unat c" "unat a \<le> 4 * 1024 * 1024 * 1024 - 64 * 1024"
    by (auto simp: checked_mul_Some checked_add_Some kMaxReg_def word_le_nat_alt)
qed

text \<open>A cell of a validated arena is where its index says: nothing wraps.\<close>

lemma make_cell_exact:
  fixes c payload guard :: u64
  assumes "unat c = unat payload + 2 * unat guard" "k < n" "n * unat c < 2 ^ 64"
  shows "unat (ce_size (make_cell (word_of_nat k) guard payload)) = unat c"
    "unat (ce_base (make_cell (word_of_nat k) guard payload)) = k * unat c"
    "unat (ce_payload (make_cell (word_of_nat k) guard payload)) = k * unat c + unat guard"
    "ce_guard (make_cell (word_of_nat k) guard payload) = guard"
proof -
  have le: "Suc k * unat c \<le> n * unat c" using assms(2) by (intro mult_le_mono1) simp
  then have lt: "k * unat c + unat c < 2 ^ 64" using assms(3) by simp
  then have c64: "unat guard + unat payload + unat guard < 2 ^ 64" using assms(1) by simp
  have sz: "guard + payload + guard = c"
  proof -
    have "unat (guard + payload) = unat guard + unat payload" using c64 by (intro unat_add_u64) linarith
    then have "unat ((guard + payload) + guard) = unat guard + unat payload + unat guard"
      using unat_add_u64 [of "guard + payload" guard] c64 by simp
    then show ?thesis using assms(1) by (simp only: word_unat_eq_iff)
  qed
  show "unat (ce_size (make_cell (word_of_nat k) guard payload)) = unat c"
    "ce_guard (make_cell (word_of_nat k) guard payload) = guard"
    by (simp_all add: make_cell_def Let_def sz)
  show base: "unat (ce_base (make_cell (word_of_nat k) guard payload)) = k * unat c"
  proof (cases "c = 0")
    case True
    then show ?thesis by (simp add: make_cell_def Let_def sz)
  next
    case False
    then have "1 \<le> unat c" using unat_gt_0 [of c] by linarith
    then have "k \<le> k * unat c" by simp
    then have "k < 2 ^ 64" using lt by linarith
    then have "unat (word_of_nat k :: u64) = k" by (simp add: unat_of_nat)
    then show ?thesis using lt by (simp add: make_cell_def Let_def sz unat_mult_u64)
  qed
  have "k * unat c + unat guard < 2 ^ 64" using lt assms(1) by linarith
  then show "unat (ce_payload (make_cell (word_of_nat k) guard payload)) = k * unat c + unat guard"
    using base by (simp add: make_cell_def Let_def sz unat_add_u64)
qed

lemma validate_geometry_Inr:
  assumes "validate_geometry opts slots = Inr g"
  shows "geometry_arena opts slots = Some (ge_cell g, ge_arena g)"
    "0 < ro_slot_bytes opts" "ro_slot_bytes opts \<le> kSsizeMax" "0 < ro_guard opts" "0 < slots" "slots \<le> 256"
    "request_start opts \<le> request_end opts"
    "unat (request_end opts - request_start opts + 1) = unat (request_end opts) - unat (request_start opts) + 1"
    "request_end opts - request_start opts + 1 \<le> ro_slot_bytes opts"
    "ge_expected g \<le> request_end opts - request_start opts + 1"
    "ro_exp opts = ''c'' \<Longrightarrow> ro_objects opts = [] \<Longrightarrow> unat slots * unat (ro_slot_bytes opts) < 2 ^ 64"
    "ge_expected g = (if ro_expected_given opts then ro_expected_bytes opts else request_end opts - request_start opts + 1)"
proof -
  obtain len where len: "checked_add (request_end opts - request_start opts) 1 = Some len"
    and le: "request_start opts \<le> request_end opts"
    and rest: "geometry_arena opts slots = Some (ge_cell g, ge_arena g)" "ro_slot_bytes opts \<noteq> 0"
      "ro_slot_bytes opts \<le> kSsizeMax" "ro_guard opts \<noteq> 0" "slots \<noteq> 0" "slots \<le> 256"
      "len \<le> ro_slot_bytes opts" "ge_expected g \<le> len"
      "ge_expected g = (if ro_expected_given opts then ro_expected_bytes opts else len)"
      "ro_exp opts = ''c'' \<Longrightarrow> ro_objects opts = [] \<Longrightarrow> checked_mul (ro_slot_bytes opts) slots \<noteq> None"
    using assms by (auto simp: validate_geometry_def Let_def not_less split: if_splits option.splits)
  have "len = request_end opts - request_start opts + 1"
    using len by (auto simp: checked_add_def split: if_splits)
  then show "request_end opts - request_start opts + 1 \<le> ro_slot_bytes opts"
    "ge_expected g \<le> request_end opts - request_start opts + 1"
    "unat (request_end opts - request_start opts + 1) = unat (request_end opts) - unat (request_start opts) + 1"
    "ge_expected g = (if ro_expected_given opts then ro_expected_bytes opts else request_end opts - request_start opts + 1)"
    using rest len le by (auto simp: checked_add_Some unat_sub_u64)
  show "unat slots * unat (ro_slot_bytes opts) < 2 ^ 64" if "ro_exp opts = ''c''" "ro_objects opts = []"
    using rest(10) [OF that] by (auto simp: checked_mul_Some mult.commute)
  show "geometry_arena opts slots = Some (ge_cell g, ge_arena g)"
    "0 < ro_slot_bytes opts" "ro_slot_bytes opts \<le> kSsizeMax" "0 < ro_guard opts" "0 < slots" "slots \<le> 256"
    "request_start opts \<le> request_end opts"
    using rest le by (simp_all add: word_neq_0_conv)
qed

lemma poison_intact_iff:
  assumes "unat (ce_guard c) + unat got < 2 ^ 64"
  shows "poison_intact_outside arena c got nonce \<longleftrightarrow>
     (\<forall>i < unat (ce_size c). i < unat (ce_guard c) \<or> unat (ce_guard c) + unat got \<le> i \<longrightarrow>
        rig_read arena (ce_base c) (ce_size c) ! i = poison_pattern (ce_size c) nonce ! i)"
proof -
  have "list_all P [0..<n] \<longleftrightarrow> (\<forall>i < n. P i)" for P n by (auto simp: list_all_iff)
  moreover have "(unat (ce_guard c) \<le> i \<and> i < unat (ce_guard c) + unat got \<or> Q) \<longleftrightarrow>
      (i < unat (ce_guard c) \<or> unat (ce_guard c) + unat got \<le> i \<longrightarrow> Q)" for i Q by linarith
  ultimately show ?thesis
    using assms by (simp only: poison_intact_outside_def Let_def unat_add_u64)
qed

section \<open>Accepted options\<close>

text \<open>What the fields of parsed options may hold.\<close>

definition rig_options_ok :: "rig_options \<Rightarrow> bool" where
  "rig_options_ok opts \<longleftrightarrow> ro_mode opts \<in> {''host'', ''gpu''} \<and> 1 \<le> ro_port opts \<and> ro_port opts \<le> 65535
     \<and> (ro_range_given opts \<longrightarrow> ro_range_start opts \<le> ro_range_end opts)
     \<and> (ro_expect_sha opts = [] \<or> length (ro_expect_sha opts) = 64 \<and> list_all is_lower_hex (ro_expect_sha opts))
     \<and> ro_neg_class opts \<in> {''known-complete'', ''unknown'', ''no-emission''} \<and> ro_guard_mode opts \<in> {''retryable'', ''enotsup''}
     \<and> 1 \<le> ro_iterations opts \<and> ro_iterations opts \<le> 100000 \<and> 1 \<le> ro_deadline_s opts \<and> ro_deadline_s opts \<le> 3600
     \<and> [] \<notin> set (ro_objects opts)"

lemma default_rig_options_ok: "rig_options_ok default_rig_options"
  by (simp add: rig_options_ok_def default_rig_options_def)

lemma object_items_nonempty: "object_items s = Some items \<Longrightarrow> [] \<notin> set items"
proof (induction s arbitrary: items rule: object_items.induct)
  case (1 s)
  note unfold = "1.prems" [unfolded object_items.simps [of s]]
  show ?case
  proof (cases "find_char CHR '','' s")
    case None
    with unfold show ?thesis by (auto split: if_splits)
  next
    case (Some q)
    with unfold obtain rest where "take q s \<noteq> []" "object_items (drop (q + 1) s) = Some rest" "items = take q s # rest"
      by (auto split: if_splits)
    with "1.IH" [OF Some] show ?thesis by auto
  qed
qed

lemma rig_bounded_Some:
  assumes "rig_bounded v limit f = Some opts'"
  obtains n where "opts' = f n" "1 \<le> n" "n \<le> unat limit"
  using assms by (auto simp: rig_bounded_def not_less word_le_nat_alt unat_gt_0 Suc_le_eq split: option.splits if_splits)

lemma rig_server_Some:
  assumes "rig_server opts s = Some opts'"
  obtains h n where "opts' = opts\<lparr>ro_host := h, ro_port := n\<rparr>" "1 \<le> n" "n \<le> 65535"
proof -
  obtain c where c: "find_char CHR '':'' s = Some c" using assms by (auto simp: rig_server_def split: option.splits)
  obtain n where n: "rig_parse_size (drop (c + 1) s) = Some n" using assms c by (auto simp: rig_server_def split: option.splits if_splits)
  have "n \<noteq> 0" "n \<le> 65535" and o: "opts' = opts\<lparr>ro_host := take c s, ro_port := int (unat n)\<rparr>"
    using assms c n by (auto simp: rig_server_def not_less split: if_splits)
  then have "0 < unat n" "unat n \<le> 65535" by (simp_all add: unat_gt_0 word_le_nat_alt)
  then have "int 1 \<le> int (unat n)" "int (unat n) \<le> int 65535" by (simp_all only: of_nat_le_iff)
  with that [OF o] show ?thesis by (simp only: of_nat_1 of_nat_numeral)
qed

lemma rig_range_Some:
  assumes "rig_range opts s = Some opts'"
  obtains a b where "opts' = opts\<lparr>ro_range_start := a, ro_range_end := b, ro_range_given := True\<rparr>" "a \<le> b"
  using assms by (auto simp: rig_range_def not_less split: option.splits if_splits)

lemma rig_options_ok_free [simp]:
  "rig_options_ok (opts\<lparr>ro_exp := v\<rparr>) = rig_options_ok opts" "rig_options_ok (opts\<lparr>ro_bucket := v\<rparr>) = rig_options_ok opts"
  "rig_options_ok (opts\<lparr>ro_object := v\<rparr>) = rig_options_ok opts" "rig_options_ok (opts\<lparr>ro_label := v\<rparr>) = rig_options_ok opts"
  "rig_options_ok (opts\<lparr>ro_slot_bytes := n\<rparr>) = rig_options_ok opts" "rig_options_ok (opts\<lparr>ro_slots := n\<rparr>) = rig_options_ok opts"
  "rig_options_ok (opts\<lparr>ro_guard := n\<rparr>) = rig_options_ok opts" "rig_options_ok (opts\<lparr>ro_base_offset_api := b\<rparr>) = rig_options_ok opts"
  "rig_options_ok (opts\<lparr>ro_expected_bytes := n, ro_expected_given := b\<rparr>) = rig_options_ok opts"
  "rig_options_ok (opts\<lparr>ro_abrupt := b\<rparr>) = rig_options_ok opts" "rig_options_ok (opts\<lparr>ro_child := b\<rparr>) = rig_options_ok opts"
  "rig_options_ok (opts\<lparr>ro_proto := q\<rparr>) = rig_options_ok opts"
  by (simp_all add: rig_options_ok_def)

lemma rig_options_ok_bound:
  assumes "rig_options_ok opts"
  shows "[] \<notin> set items \<Longrightarrow> rig_options_ok (opts\<lparr>ro_objects := ro_objects opts @ items\<rparr>)"
    "v = ''host'' \<or> v = ''gpu'' \<Longrightarrow> rig_options_ok (opts\<lparr>ro_mode := v\<rparr>)"
    "v = ''known-complete'' \<or> v = ''unknown'' \<or> v = ''no-emission'' \<Longrightarrow> rig_options_ok (opts\<lparr>ro_neg_class := v\<rparr>)"
    "v = ''retryable'' \<or> v = ''enotsup'' \<Longrightarrow> rig_options_ok (opts\<lparr>ro_guard_mode := v\<rparr>)"
    "rig_hex_64 v \<Longrightarrow> rig_options_ok (opts\<lparr>ro_expect_sha := v\<rparr>)"
    "rig_server opts v = Some opts' \<Longrightarrow> rig_options_ok opts'" "rig_range opts v = Some opts' \<Longrightarrow> rig_options_ok opts'"
    "rig_bounded v 100000 (\<lambda>n. opts\<lparr>ro_iterations := n\<rparr>) = Some opts' \<Longrightarrow> rig_options_ok opts'"
    "rig_bounded v 3600 (\<lambda>n. opts\<lparr>ro_deadline_s := n\<rparr>) = Some opts' \<Longrightarrow> rig_options_ok opts'"
  using assms by (simp_all add: rig_options_ok_def rig_hex_64_def)
    (erule rig_server_Some rig_range_Some rig_bounded_Some, simp)+

lemma rig_value_ok:
  "rig_value args f = Some (opts', rest) \<Longrightarrow> (\<And>v. f v = Some opts' \<Longrightarrow> rig_options_ok opts') \<Longrightarrow> rig_options_ok opts'"
  by (auto simp: rig_value_Some)

lemma rig_option_ok:
  assumes ok: "rig_options_ok opts" and opt: "rig_option opts a args = Some (opts', rest)"
  shows "rig_options_ok opts'"
proof (cases "a \<in> {''--exp'', ''--server'', ''--bucket'', ''--object'', ''--objects'', ''--mode'', ''--slot-bytes'', ''--slots'', ''--guard'',
    ''--landing-api'', ''--range'', ''--expected-bytes'', ''--case'', ''--class'', ''--expect-sha'', ''--guard-mode'', ''--iterations'',
    ''--deadline-s'', ''--abrupt'', ''--child''}")
  case True
  then show ?thesis
    using opt unfolding rig_option_def
    by (elim insertE; simp; (elim rig_value_ok)?;
        auto simp: ok rig_options_ok_bound [OF ok] object_items_nonempty split: if_splits)
next
  case False
  then show ?thesis using ok opt by (auto simp: rig_option_def split: if_splits prod.splits)
qed

lemma rig_option_loop_ok: "rig_options_ok opts \<Longrightarrow> rig_option_loop opts args = Some opts' \<Longrightarrow> rig_options_ok opts'"
proof (induction opts args rule: rig_option_loop.induct)
  case (2 opts a args)
  then show ?case using rig_option_ok by (auto split: option.splits)
qed simp

section \<open>Properties\<close>

text \<open>C28. Accepted options are well typed: whatever the command line, the port, the iteration count and the deadline are in
  range, mode, class and guard mode are known words, an explicit range is not reversed, an expected digest is 64 lower-case
  hexadecimal digits, no listed object is empty, and the bucket and object an experiment needs are there.\<close>

theorem rig_parse_args_typed:
  assumes "rig_parse_args argv = Some opts"
  shows "rig_options_ok opts \<and> ro_exp opts \<noteq> []
    \<and> (ro_exp opts \<notin> {''attr'', ''reg''} \<longrightarrow> ro_bucket opts \<noteq> [])
    \<and> (ro_exp opts \<in> {''diag'', ''rt-guard'', ''exit''} \<longrightarrow> ro_object opts \<noteq> [])
    \<and> (ro_exp opts = ''c'' \<longrightarrow> ro_object opts \<noteq> [] \<or> ro_objects opts \<noteq> [])"
proof -
  have "rig_option_loop default_rig_options argv = Some opts"
    using assms by (auto simp: rig_parse_args_def Let_def split: option.splits if_splits)
  with default_rig_options_ok have "rig_options_ok opts" by (rule rig_option_loop_ok)
  with assms show ?thesis by (auto simp: rig_parse_args_def Let_def split: option.splits if_splits)
qed


text \<open>C27. An accepted geometry fits: the cells lie one after the other inside an arena within the registration
  limit, each with its payload after its leading guard, no address computed for them wraps around, the
  request is not longer than the payload and the expected landing not longer than the request.\<close>

theorem geometry_sound:
  assumes "validate_geometry opts slots = Inr g" and "k < unat slots"
  shows "unat (ge_arena g) = unat slots * unat (ge_cell g)
    \<and> unat (ge_arena g) \<le> unat kMaxReg
    \<and> unat (ce_base (make_cell (word_of_nat k) (ro_guard opts) (ro_slot_bytes opts))) = k * unat (ge_cell g)
    \<and> unat (ce_payload (make_cell (word_of_nat k) (ro_guard opts) (ro_slot_bytes opts)))
        = k * unat (ge_cell g) + unat (ro_guard opts)
    \<and> unat (ce_size (make_cell (word_of_nat k) (ro_guard opts) (ro_slot_bytes opts))) = unat (ge_cell g)
    \<and> unat (ro_guard opts) + unat (ro_slot_bytes opts) + unat (ro_guard opts) = unat (ge_cell g)
    \<and> (k + 1) * unat (ge_cell g) \<le> unat (ge_arena g)
    \<and> unat (ge_expected g) \<le> unat (request_end opts) - unat (request_start opts) + 1
    \<and> unat (request_end opts) - unat (request_start opts) + 1 \<le> unat (ro_slot_bytes opts)"
proof -
  note v = validate_geometry_Inr [OF assms(1)]
  note a = geometry_arena_Some [OF v(1)]
  have "unat slots * unat (ge_cell g) < 2 ^ 64" using a(2) unat_u64_lt [of "ge_arena g"] by simp
  note cell = make_cell_exact [OF a(1) assms(2) this]
  have "(k + 1) * unat (ge_cell g) \<le> unat slots * unat (ge_cell g)"
    using assms(2) by (intro mult_le_mono1) simp
  then have "(k + 1) * unat (ge_cell g) \<le> unat (ge_arena g)" using a(2) by simp
  moreover have "unat (ge_expected g) \<le> unat (request_end opts) - unat (request_start opts) + 1"
    "unat (request_end opts) - unat (request_start opts) + 1 \<le> unat (ro_slot_bytes opts)"
    using v(8,9,10) by (simp_all add: word_le_nat_alt)
  ultimately show ?thesis using a cell by (simp add: kMaxReg_def)
qed

definition demo_rig_options :: rig_options where
  "demo_rig_options = default_rig_options\<lparr>ro_exp := ''diag'', ro_bucket := ''b'', ro_object := ''k'', ro_mode := ''host'',
     ro_host := ''h'', ro_port := 80, ro_proto := gateway_options, ro_expect_sha := ''64617461'',
     ro_slot_bytes := 4, ro_guard := 2, ro_slots := 2\<rparr>"

lemma demo_geometry: "validate_geometry demo_rig_options 2 = Inr \<lparr>ge_cell = 8, ge_arena = 16, ge_expected = 4\<rparr>"
  by (simp add: validate_geometry_def demo_rig_options_def default_rig_options_def kSsizeMax_def kMaxReg_def
      geometry_arena_def checked_mul_def checked_add_def request_start_def request_end_def)

theorem geometry_sound_witness:
  "unat (ce_payload (make_cell (word_of_nat 1) 2 4)) = 10 \<and> unat (ce_size (make_cell (word_of_nat 1) 2 4)) = 8"
  using geometry_sound [OF demo_geometry, of 1] by (simp add: demo_rig_options_def default_rig_options_def)

theorem rig_parse_args_typed_witness: "rig_options_ok (default_rig_options\<lparr>ro_exp := ''attr'', ro_deadline_s := 7\<rparr>)"
proof -
  have "rig_parse_size ''7'' = Some 7" by code_simp
  then have "rig_parse_args [''--exp'', ''attr'', ''--deadline-s'', ''7''] = Some (default_rig_options\<lparr>ro_exp := ''attr'', ro_deadline_s := 7\<rparr>)"
    by (simp add: rig_parse_args_def rig_option_def rig_value_def rig_bounded_def default_rig_options_def Let_def)
  from rig_parse_args_typed [OF this] show ?thesis by simp
qed

end
