(* ===== verification/Rig_Callback.thy ===== *)
theory Rig_Callback
  imports Rig_Options
begin

text \<open>
  The GET callback of \<^verbatim>\<open>probe/rig_probe_main.cpp\<close>: the per-attempt record, the shared context and what one
  invocation does to them, from the entry section to the return value. Invocations run one
  after the other here; \<^theory_text>\<open>Rig_Atomic\<close> takes the counters apart into their atomic accesses.
\<close>

section \<open>Attempts and contexts\<close>

record attempt =
  at_invocation :: int
  at_t_begin :: int
  at_t_end :: int
  at_guarded :: bool
  at_http_attempt :: bool
  at_response :: bool
  at_http_status :: int
  at_transport_error :: string
  at_request_error :: string
  at_reply_present :: bool
  at_reply_unambiguous :: bool
  at_reply_raw :: string
  at_reply_kind :: string
  at_head_complete :: bool
  at_head_malformed :: bool
  at_request_partial :: bool
  at_body_truncated :: bool
  at_message_complete :: bool
  at_entered_while_active :: bool
  at_thread :: nat
  at_thread_id :: u64
  at_body_octets :: int
  at_probe_failure :: bool
  at_framing :: framing
  at_reply_count :: int
  at_count_field_count :: int
  at_request_bytes :: int
  at_count_plain :: bool
  at_response_head :: string
  at_reply_code :: int
  at_content_range_present :: bool
  at_content_range :: string
  at_count_present :: bool
  at_declared :: int
  at_body_bytes :: int
  at_cb_size :: int
  at_cb_offset :: int
  at_natural_return :: int
  at_returned :: int
  at_injection_applied :: bool
  at_qualified_complete :: bool
  at_completion_candidate :: bool

definition new_attempt :: attempt where
  "new_attempt = \<lparr>at_invocation = 0, at_t_begin = 0, at_t_end = 0, at_guarded = False, at_http_attempt = False,
     at_response = False, at_http_status = 0, at_transport_error = [], at_request_error = [],
     at_reply_present = False, at_reply_unambiguous = False, at_reply_raw = [], at_reply_kind = [],
     at_head_complete = False, at_head_malformed = False, at_request_partial = False, at_body_truncated = False,
     at_message_complete = False, at_entered_while_active = False, at_thread = 0, at_thread_id = 0, at_body_octets = 0,
     at_probe_failure = False, at_framing = NoFraming, at_reply_count = 0, at_count_field_count = 0,
     at_request_bytes = 0, at_count_plain = False, at_response_head = [], at_reply_code = 0,
     at_content_range_present = False, at_content_range = [], at_count_present = False, at_declared = 0,
     at_body_bytes = 0, at_cb_size = 0, at_cb_offset = 0, at_natural_return = 0, at_returned = 0,
     at_injection_applied = False, at_qualified_complete = False, at_completion_candidate = False\<rparr>"

record rig_context =
  rx_proto :: "protocol_options option"
  rx_run_id :: string
  rx_who :: string
  rx_host :: string
  rx_path :: string
  rx_range :: string
  rx_port :: int
  rx_get_id :: int
  rx_iteration :: int
  rx_slot :: int
  rx_expected :: u64
  rx_guard :: bool
  rx_first_return :: int
  rx_invocations :: int
  rx_http_attempts :: int
  rx_partial_messages :: int
  rx_tokenless_messages :: int
  rx_active :: int
  rx_local_failure :: bool
  rx_submitted :: int
  rx_completed :: int
  rx_responses :: int
  rx_unknown :: bool
  rx_evidence_lost :: bool
  rx_attempts :: "attempt list"

text \<open>\<open>stored\<close> is false when storing the record threw.\<close>

definition push :: "bool \<Rightarrow> attempt \<Rightarrow> rig_context \<Rightarrow> rig_context" where
  "push stored a ctx =
     (if stored then ctx\<lparr>rx_attempts := rx_attempts ctx @ [a]\<rparr> else ctx\<lparr>rx_evidence_lost := True\<rparr>)"

definition completion_candidate :: "attempt \<Rightarrow> protocol_options \<Rightarrow> u64 \<Rightarrow> u64 \<Rightarrow> bool" where
  "completion_candidate a proto expected requested =
     (if \<not> at_response a \<or> (at_http_status a \<noteq> 200 \<and> at_http_status a \<noteq> 206) then False
      else if at_reply_kind a \<noteq> ''code'' \<or> \<not> at_count_present a \<or> at_declared a < 0
              \<or> word_of_int (at_declared a) \<noteq> expected then False
      else if po_token_encoding proto = Base64 then at_reply_code a = 200 \<and> expected = requested
      else at_reply_code a = at_http_status a)"

section \<open>One invocation\<close>

definition ENOTSUP :: int where "ENOTSUP = 95"
definition EPERM :: int where "EPERM = 1"
definition kMaxBody :: nat where "kMaxBody = 64 * 1024"
definition kMaxHead :: nat where "kMaxHead = 64 * 1024"

text \<open>What the outside world does during one invocation: the library's arguments (\<open>cb_desc\<close> is absent for a null
  descriptor), the calling thread and the hash of its identity, the two clock readings, the network, whether the
  exchange ran out of memory and whether the record was stored.\<close>

record cb_env =
  cb_desc :: "string option"
  cb_size :: u64
  cb_offset :: int
  cb_thread :: nat
  cb_thread_hash :: u64
  cb_t_begin :: int
  cb_t_end :: int
  cb_tm :: tm
  cb_net :: net
  cb_fault :: bool
  cb_stored :: bool

record crypto =
  cr_sha256 :: "string \<Rightarrow> string option"
  cr_hmac :: "string \<Rightarrow> string \<Rightarrow> string option"
  cr_strerror :: "nat \<Rightarrow> string"

definition rig_enter :: "cb_env \<Rightarrow> rig_context \<Rightarrow> attempt \<times> rig_context" where
  "rig_enter env ctx =
     (new_attempt\<lparr>at_invocation := rx_invocations ctx, at_entered_while_active := 0 < rx_active ctx,
        at_thread := cb_thread env, at_thread_id := cb_thread_hash env\<rparr>,
      ctx\<lparr>rx_invocations := rx_invocations ctx + 1, rx_active := rx_active ctx + 1\<rparr>)"

text \<open>An early return: the record closes with \<open>-ENOTSUP\<close>, and so does the callback.\<close>

definition rig_decline :: "cb_env \<Rightarrow> attempt \<Rightarrow> rig_context \<Rightarrow> int \<times> rig_context" where
  "rig_decline env a ctx = (- ENOTSUP, push (cb_stored env) (a\<lparr>at_returned := - ENOTSUP, at_t_end := cb_t_end env\<rparr>) ctx)"

definition rig_request :: "crypto \<Rightarrow> cb_env \<Rightarrow> protocol_options \<Rightarrow> rig_context \<Rightarrow> string \<Rightarrow> (string \<times> header_list) result" where
  "rig_request cr env proto ctx desc =
     (let token = encode_rdma_token desc (po_token_encoding proto);
          target = control_plane_target proto (rx_path ctx)
      in bind_res (control_plane_headers (cr_sha256 cr) (cr_hmac cr) proto ''GET''
                     (http_host_header (rx_host ctx) (rx_port ctx)) (rx_path ctx) (rx_range ctx) token (cb_tm env))
           (\<lambda>headers. Inr (target, headers)))"

text \<open>Taking a submission back: nothing of it reached the socket.\<close>

definition take_back :: "rig_context \<Rightarrow> rig_context" where
  "take_back ctx =
     (let ctx = ctx\<lparr>rx_submitted := rx_submitted ctx - 1\<rparr>
      in if rx_submitted ctx = rx_completed ctx then ctx\<lparr>rx_unknown := False\<rparr> else ctx)"

definition probe_fault :: "attempt \<Rightarrow> rig_context \<Rightarrow> attempt \<times> rig_context" where
  "probe_fault a ctx = (a\<lparr>at_probe_failure := True\<rparr>, ctx\<lparr>rx_local_failure := True\<rparr>)"

definition rig_account :: "raw_response \<Rightarrow> attempt \<Rightarrow> rig_context \<Rightarrow> attempt \<times> rig_context" where
  "rig_account res a ctx =
     (let a = a\<lparr>at_request_partial := request_partial res, at_request_bytes := int (request_bytes res)\<rparr>;
          (a, ctx) =
            (if \<not> request_sent res \<and> \<not> request_partial res then
               let ctx = take_back ctx in if transport_error res then probe_fault a ctx else (a, ctx)
             else if request_sent res \<and> token_bearing res
             then (a\<lparr>at_http_attempt := True\<rparr>, ctx\<lparr>rx_http_attempts := rx_http_attempts ctx + 1\<rparr>)
             else if request_sent res then (a, ctx\<lparr>rx_tokenless_messages := rx_tokenless_messages ctx + 1\<rparr>)
             else (a, ctx\<lparr>rx_partial_messages := rx_partial_messages ctx + 1\<rparr>))
      in (a\<lparr>at_body_bytes := int (body_content res), at_body_octets := int (body_octets res),
            at_body_truncated := body_truncated res, at_head_complete := head_complete res,
            at_head_malformed := head_malformed res, at_message_complete := message_complete res,
            at_framing := framing res, at_response_head := head_bytes res,
            at_transport_error := (if transport_error res then error res else at_transport_error a)\<rparr>, ctx))"

text \<open>The response, when its head could be read; the last component is the natural return value.\<close>

definition rig_reply :: "raw_response \<Rightarrow> receipt_view \<Rightarrow> protocol_options \<Rightarrow> u64 \<Rightarrow> attempt \<Rightarrow> rig_context \<Rightarrow>
   attempt \<times> rig_context \<times> int" where
  "rig_reply res view proto sz a ctx =
     (if \<not> rv_present view then (a, ctx, - ENOTSUP)
      else
        let reply = parse_rdma_reply (0 < rv_reply_count view) (rv_reply_raw view);
            cr = field_first res ''content-range'';
            rc = (if status res = 200 \<or> status res = 206 then
                    if po_token_encoding proto = Base64 then sint sz
                    else if rr_kind reply = Code \<and> rr_code reply = status res \<and> 0 \<le> rv_declared view
                    then rv_declared view else - ENOTSUP
                  else - ENOTSUP)
        in (a\<lparr>at_response := True, at_http_status := int (rv_status view), at_reply_count := int (rv_reply_count view),
              at_reply_present := 0 < rv_reply_count view, at_reply_raw := rv_reply_raw view,
              at_reply_kind := kind_name (rr_kind reply), at_reply_code := int (rr_code reply),
              at_reply_unambiguous := rv_reply_plain view, at_content_range_present := cr \<noteq> None,
              at_content_range := (case cr of None \<Rightarrow> [] | Some f \<Rightarrow> rf_value f),
              at_count_field_count := int (rv_count_count view), at_count_present := 0 < rv_count_count view,
              at_count_plain := rv_count_plain view, at_declared := rv_declared view\<rparr>,
            ctx\<lparr>rx_responses := rx_responses ctx + 1\<rparr>, rc))"

text \<open>The closing judgement on the attempt, with the injected return of a guarded first transfer.\<close>

definition close_attempt :: "cb_env \<Rightarrow> receipt_view \<Rightarrow> protocol_options \<Rightarrow> int \<Rightarrow> rig_context \<Rightarrow> attempt \<Rightarrow> attempt" where
  "close_attempt env view proto rc ctx a =
     (let a = a\<lparr>at_natural_return := rc\<rparr>;
          qualified = completion_authority view proto (rx_expected ctx) (cb_size env);
          inject = (rx_guard ctx \<and> at_invocation a = 0 \<and> qualified)
      in a\<lparr>at_completion_candidate := completion_candidate a proto (rx_expected ctx) (cb_size env),
           at_qualified_complete := qualified, at_injection_applied := inject,
           at_returned := (if inject then rx_first_return ctx else rc), at_t_end := cb_t_end env\<rparr>)"

definition rig_conclude :: "cb_env \<Rightarrow> receipt_view \<Rightarrow> protocol_options \<Rightarrow> int \<Rightarrow> attempt \<Rightarrow> rig_context \<Rightarrow> int \<times> rig_context" where
  "rig_conclude env view proto rc a ctx =
     (let a = close_attempt env view proto rc ctx a;
          ctx = (if at_qualified_complete a \<and> rx_submitted ctx = 1
                 then ctx\<lparr>rx_completed := rx_completed ctx + 1, rx_unknown := False\<rparr> else ctx);
          ctx = push (cb_stored env) a ctx
      in (if rx_evidence_lost ctx then - ENOTSUP else at_returned a, ctx))"

text \<open>After the request is built: submit, exchange, account, conclude.\<close>

definition rig_exchange ::
  "crypto \<Rightarrow> cb_env \<Rightarrow> protocol_options \<Rightarrow> string \<Rightarrow> header_list \<Rightarrow> attempt \<Rightarrow> rig_context \<Rightarrow> int result \<times> rig_context" where
  "rig_exchange cr env proto target headers a ctx =
     (let ctx = ctx\<lparr>rx_submitted := rx_submitted ctx + 1, rx_unknown := True\<rparr>
      in case (if cb_fault env then Inl (Runtime_error ''std::bad_alloc'')
               else raw_http_get (cr_strerror cr) (cb_net env) (http_host_header (rx_host ctx) (rx_port ctx)) target headers
                 kMaxHead kMaxBody) of
           Inl (Invalid_argument e) \<Rightarrow>
             (case probe_fault (a\<lparr>at_request_error := e\<rparr>) ctx of
                (a, ctx) \<Rightarrow> apfst Inr (rig_decline env a (take_back ctx)))
         | Inl e \<Rightarrow> (Inl e, ctx)
         | Inr res \<Rightarrow>
             (case rig_account res a ctx of
                (a, ctx) \<Rightarrow>
                  let view = view_receipt res (cb_size env)
                  in (case rig_reply res view proto (cb_size env) a ctx of
                        (a, ctx, rc) \<Rightarrow> apfst Inr (rig_conclude env view proto rc a ctx))))"

definition rig_callback_impl :: "crypto \<Rightarrow> cb_env \<Rightarrow> rig_context \<Rightarrow> int result \<times> rig_context" where
  "rig_callback_impl cr env ctx =
     (case rig_enter env ctx of
        (a, ctx) \<Rightarrow>
          (case (cb_desc env, rx_proto ctx) of
             (Some desc, Some proto) \<Rightarrow>
               let a = a\<lparr>at_t_begin := cb_t_begin env, at_cb_size := sint (cb_size env), at_cb_offset := cb_offset env\<rparr>
               in if 1 \<le> at_invocation a \<and> (rx_guard ctx \<or> rx_unknown ctx)
                  then apfst Inr (rig_decline env (a\<lparr>at_guarded := True\<rparr>) ctx)
                  else (case rig_request cr env proto ctx desc of
                      Inl e \<Rightarrow>
                        (case probe_fault (a\<lparr>at_request_error := exn_what e\<rparr>) ctx of
                           (a, ctx) \<Rightarrow> apfst Inr (rig_decline env a ctx))
                    | Inr (target, headers) \<Rightarrow> rig_exchange cr env proto target headers a ctx)
           | _ \<Rightarrow> (Inr (- ENOTSUP), ctx)))"

text \<open>The callback itself: no exception leaves it, and the active depth is released at the end.\<close>

definition rig_callback :: "crypto \<Rightarrow> cb_env \<Rightarrow> rig_context \<Rightarrow> int \<times> rig_context" where
  "rig_callback cr env ctx =
     (let (rc, ctx) = (case rig_callback_impl cr env ctx of
            (Inr rc, ctx) \<Rightarrow> (rc, ctx)
          | (Inl e, ctx) \<Rightarrow>
              (- ENOTSUP, ctx\<lparr>rx_unknown := rx_completed ctx < rx_submitted ctx \<or> rx_unknown ctx, rx_evidence_lost := True\<rparr>))
      in (rc, ctx\<lparr>rx_active := rx_active ctx - 1\<rparr>))"

text \<open>The library invokes the callback as often as it likes; \<open>envs\<close> lists the invocations of one GET in order.\<close>

fun rig_callbacks :: "crypto \<Rightarrow> cb_env list \<Rightarrow> rig_context \<Rightarrow> int list \<times> rig_context" where
  "rig_callbacks cr [] ctx = ([], ctx)"
| "rig_callbacks cr (env # envs) ctx =
     (let (rc, ctx) = rig_callback cr env ctx; (rcs, ctx) = rig_callbacks cr envs ctx in (rc # rcs, ctx))"

text \<open>The joint hold: while it is up, the landing must not be read and nothing may be released.\<close>

definition hold :: "bool \<Rightarrow> rig_context \<Rightarrow> bool" where
  "hold sdk_returned ctx \<longleftrightarrow>
     rx_unknown ctx \<or> rx_evidence_lost ctx \<or> \<not> sdk_returned \<or> rx_completed ctx \<noteq> rx_submitted ctx"

definition new_context :: rig_context where
  "new_context = \<lparr>rx_proto = None, rx_run_id = [], rx_who = [], rx_host = [], rx_path = [], rx_range = [], rx_port = 8080,
     rx_get_id = 0, rx_iteration = -1, rx_slot = -1, rx_expected = 0, rx_guard = False, rx_first_return = 0,
     rx_invocations = 0, rx_http_attempts = 0, rx_partial_messages = 0, rx_tokenless_messages = 0, rx_active = 0,
     rx_local_failure = False, rx_submitted = 0, rx_completed = 0, rx_responses = 0, rx_unknown = False,
     rx_evidence_lost = False, rx_attempts = []\<rparr>"

section \<open>Attempt records\<close>

definition framing_name :: "framing \<Rightarrow> string" where
  "framing_name f = (case f of
      NoFraming \<Rightarrow> [] | ContentLength \<Rightarrow> ''content-length'' | ChunkedUnqualified \<Rightarrow> ''chunked-unqualified''
    | CloseDelimited \<Rightarrow> ''close-delimited'' | InvalidFraming \<Rightarrow> ''invalid'')"

definition attempt_fields :: "rig_context \<Rightarrow> string \<Rightarrow> attempt \<Rightarrow> (string \<times> json_value) list" where
  "attempt_fields ctx label a =
     [(''run_id'', JStr (rx_run_id ctx)), (''get_id'', JNum (rx_get_id ctx)), (''case'', JStr label), (''who'', JStr (rx_who ctx)),
      (''iteration'', JNum (rx_iteration ctx)), (''slot'', JNum (rx_slot ctx)), (''invocation'', JNum (at_invocation a)),
      (''t_begin_ns'', JNum (at_t_begin a)), (''t_end_ns'', JNum (at_t_end a)),
      (''guarded'', JBool (at_guarded a)), (''count_basis'', JStr (if at_guarded a then ''none'' else ''request_message'')),
      (''http_attempt'', JBool (at_http_attempt a)), (''response'', JBool (at_response a)),
      (''http_status'', JNum (at_http_status a)), (''transport_error'', JStr (at_transport_error a)),
      (''request_error'', JStr (at_request_error a)), (''body_bytes'', JNum (at_body_bytes a)),
      (''reply_present'', JBool (at_reply_present a)), (''raw_reply_available'', JBool (at_response a)),
      (''head_complete'', JBool (at_head_complete a)), (''head_malformed'', JBool (at_head_malformed a)),
      (''message_complete'', JBool (at_message_complete a)), (''framing'', JStr (framing_name (at_framing a))),
      (''probe_failure'', JBool (at_probe_failure a)),
      (''request_bytes'', JNum (at_request_bytes a)), (''request_partial'', JBool (at_request_partial a)),
      (''response_head_hex'', JHex (at_response_head a)),
      (''reply_raw'', JStr (at_reply_raw a)), (''reply_raw_hex'', JHex (at_reply_raw a)), (''reply_count'', JNum (at_reply_count a)),
      (''count_field_count'', JNum (at_count_field_count a)), (''count_plain'', JBool (at_count_plain a)),
      (''body_truncated'', JBool (at_body_truncated a)),
      (''reply_kind'', JStr (at_reply_kind a)), (''reply_code'', JNum (at_reply_code a)),
      (''reply_unambiguous'', JBool (at_reply_unambiguous a)),
      (''content_range_present'', JBool (at_content_range_present a)), (''content_range'', JStr (at_content_range a)),
      (''count_present'', JBool (at_count_present a)), (''bytes_transferred_declared'', JNum (at_declared a)),
      (''cb_size'', JNum (at_cb_size a)), (''cb_offset'', JNum (at_cb_offset a)), (''body_content'', JNum (at_body_bytes a)),
      (''body_octets'', JNum (at_body_octets a)),
      (''entered_while_active'', JBool (at_entered_while_active a)), (''thread_id'', JNum (sint (at_thread_id a))),
      (''natural_return'', JNum (at_natural_return a)), (''injection_applied'', JBool (at_injection_applied a)),
      (''callback_return'', JNum (at_returned a)), (''qualified_complete'', JBool (at_qualified_complete a)),
      (''completion_candidate'', JBool (at_completion_candidate a)), (''evidence_complete'', JBool (\<not> rx_evidence_lost ctx))]"

definition emit_attempts :: "rig_context \<Rightarrow> string \<Rightarrow> json_rec list" where
  "emit_attempts ctx label = map (\<lambda>a. fold rec_put (attempt_fields ctx label a) (rec_new ''attempt'')) (rx_attempts ctx)"

section \<open>What an invocation may do\<close>

text \<open>
  The contract of one invocation on the counters, without how it builds and sends its request. It stays
  quiet, or sends (and commits when its receipt qualifies and it is the only submission), or is cut short by
  an exception after the submission; the last two only if neither the guard nor the latch forbids it. A record that
  could not be kept leaves the evidence marked as lost.
\<close>

definition emitted :: "attempt \<Rightarrow> bool" where
  "emitted a \<longleftrightarrow> 0 < at_request_bytes a"

definition may_send :: "rig_context \<Rightarrow> bool" where
  "may_send c \<longleftrightarrow> \<not> (1 \<le> rx_invocations c \<and> (rx_guard c \<or> rx_unknown c))"

text \<open>What the record of a qualified attempt says: a whole response to a request that went out, with one plain
  reply code and one plain byte count, which is the expected one.\<close>

definition record_ok :: "u64 \<Rightarrow> attempt \<Rightarrow> bool" where
  "record_ok expected a \<longleftrightarrow> (at_qualified_complete a \<longrightarrow>
     emitted a \<and> at_message_complete a \<and> (at_http_status a = 200 \<or> at_http_status a = 206)
     \<and> at_reply_unambiguous a \<and> at_count_plain a \<and> 0 \<le> at_declared a \<and> word_of_int (at_declared a) = expected)"

definition logged :: "rig_context \<Rightarrow> attempt list \<Rightarrow> rig_context \<Rightarrow> bool" where
  "logged c as c' \<longleftrightarrow> rx_evidence_lost c' \<or> (\<not> rx_evidence_lost c \<and> rx_attempts c' = rx_attempts c @ as)"

definition messages :: "rig_context \<Rightarrow> int" where
  "messages c = rx_http_attempts c + rx_partial_messages c + rx_tokenless_messages c"

definition same_frame :: "rig_context \<Rightarrow> rig_context \<Rightarrow> bool" where
  "same_frame c c' \<longleftrightarrow> rx_guard c' = rx_guard c \<and> rx_proto c' = rx_proto c \<and> rx_expected c' = rx_expected c
     \<and> rx_invocations c' = rx_invocations c + 1"

inductive cb_effect :: "rig_context \<Rightarrow> rig_context \<Rightarrow> bool" where
  quiet: "same_frame c c' \<Longrightarrow> list_all (\<lambda>a. \<not> emitted a \<and> \<not> at_qualified_complete a) as \<Longrightarrow> logged c as c' \<Longrightarrow>
    messages c' = messages c \<Longrightarrow> rx_submitted c' = rx_submitted c \<Longrightarrow> rx_completed c' = rx_completed c \<Longrightarrow>
    rx_unknown c' = rx_unknown c \<or> rx_unknown c' = (rx_submitted c \<noteq> rx_completed c) \<Longrightarrow> cb_effect c c'"
| sent: "same_frame c c' \<Longrightarrow> may_send c \<Longrightarrow> emitted a \<Longrightarrow> record_ok (rx_expected c) a \<Longrightarrow> logged c [a] c' \<Longrightarrow>
    messages c' = messages c + 1 \<Longrightarrow> rx_submitted c' = rx_submitted c + 1 \<Longrightarrow>
    rx_completed c' = rx_completed c + (if at_qualified_complete a \<and> rx_submitted c' = 1 then 1 else 0) \<Longrightarrow>
    rx_unknown c' = (\<not> (at_qualified_complete a \<and> rx_submitted c' = 1)) \<Longrightarrow> cb_effect c c'"
| threw: "same_frame c c' \<Longrightarrow> may_send c \<Longrightarrow> rx_evidence_lost c' \<Longrightarrow>
    messages c' = messages c \<Longrightarrow> rx_submitted c' = rx_submitted c + 1 \<Longrightarrow> rx_completed c' = rx_completed c \<Longrightarrow> rx_unknown c' \<Longrightarrow> cb_effect c c'"

definition fresh_context :: "rig_context \<Rightarrow> bool" where
  "fresh_context c \<longleftrightarrow> rx_invocations c = 0 \<and> rx_submitted c = 0 \<and> rx_completed c = 0 \<and> \<not> rx_unknown c
     \<and> \<not> rx_evidence_lost c \<and> rx_attempts c = [] \<and> messages c = 0"

definition count_inv :: "rig_context \<Rightarrow> bool" where
  "count_inv c \<longleftrightarrow> 0 \<le> rx_invocations c \<and> 0 \<le> rx_completed c \<and> rx_completed c \<le> 1 \<and> rx_completed c \<le> rx_submitted c
     \<and> (rx_unknown c \<longleftrightarrow> rx_submitted c \<noteq> rx_completed c)
     \<and> (rx_invocations c = 0 \<longrightarrow> rx_submitted c = 0)
     \<and> (rx_guard c \<longrightarrow> rx_submitted c \<le> 1) \<and> messages c \<le> rx_submitted c"

definition log_inv :: "rig_context \<Rightarrow> bool" where
  "log_inv c \<longleftrightarrow> rx_evidence_lost c \<or>
     rx_submitted c = int (length (filter emitted (rx_attempts c))) \<and> list_all (record_ok (rx_expected c)) (rx_attempts c)
     \<and> (rx_completed c = 1 \<longrightarrow> list_ex (\<lambda>a. emitted a \<and> at_qualified_complete a) (rx_attempts c))"

definition cb_inv :: "rig_context \<Rightarrow> bool" where
  "cb_inv c \<longleftrightarrow> count_inv c \<and> log_inv c"

lemma count_inv_step: "count_inv c \<Longrightarrow> cb_effect c c' \<Longrightarrow> count_inv c'"
proof -
  assume inv: "count_inv c" and "cb_effect c c'"
  from this(2) show ?thesis
  proof cases
    case (quiet as)
    with inv show ?thesis by (auto simp: count_inv_def same_frame_def)
  next
    case (sent a)
    then have g: "rx_guard c' = rx_guard c" "rx_invocations c' = rx_invocations c + 1" by (simp_all add: same_frame_def)
    have "rx_guard c' \<longrightarrow> rx_submitted c' \<le> 1"
    proof
      assume "rx_guard c'"
      then have "rx_invocations c < 1" using g(1) sent(2) by (auto simp: may_send_def)
      then show "rx_submitted c' \<le> 1" using inv sent(7) by (auto simp: count_inv_def)
    qed
    with inv sent(6-9) g(2) show ?thesis
      by (cases "at_qualified_complete a \<and> rx_submitted c' = 1") (auto simp: count_inv_def)
  next
    case threw
    then have "rx_guard c' = rx_guard c" "rx_invocations c' = rx_invocations c + 1" by (simp_all add: same_frame_def)
    with threw inv show ?thesis by (auto simp: count_inv_def may_send_def)
  qed
qed

lemma log_inv_step: "count_inv c \<Longrightarrow> log_inv c \<Longrightarrow> cb_effect c c' \<Longrightarrow> log_inv c'"
proof -
  assume inv: "log_inv c" and cnt: "count_inv c" and "cb_effect c c'"
  from this(3) show ?thesis
  proof cases
    case (quiet as)
    then have "filter emitted as = []" "list_all (record_ok (rx_expected c)) as"
      by (auto simp: filter_empty_conv list_all_iff record_ok_def)
    with quiet inv show ?thesis by (auto simp: log_inv_def logged_def same_frame_def)
  next
    case (sent a)
    show ?thesis
    proof (cases "rx_evidence_lost c'")
      case False
      then have c': "rx_attempts c' = rx_attempts c @ [a]" "\<not> rx_evidence_lost c" using sent(5) by (simp_all add: logged_def)
      have "rx_expected c' = rx_expected c" using sent(1) by (simp add: same_frame_def)
      with inv c' sent(3,4,7,8) cnt show ?thesis
        by (cases "at_qualified_complete a \<and> rx_submitted c' = 1") (auto simp: log_inv_def count_inv_def)
    qed (simp add: log_inv_def)
  next
    case threw
    then show ?thesis by (simp add: log_inv_def)
  qed
qed

lemma cb_inv_step: "cb_inv c \<Longrightarrow> cb_effect c c' \<Longrightarrow> cb_inv c'"
  using count_inv_step log_inv_step unfolding cb_inv_def by blast

interpretation cbs: safe_system fresh_context cb_effect cb_inv
  by unfold_locales (simp add: fresh_context_def cb_inv_def count_inv_def log_inv_def, rule cb_inv_step)

section \<open>The code implements the contract\<close>

lemmas cb_stage_defs = messages_def rig_decline_def push_def probe_fault_def take_back_def emitted_def logged_def same_frame_def

lemma emission_bytes:
  assumes "raw_http_get strerror net host target headers mh mb = Inr r"
  shows "request_sent r \<or> request_partial r \<longleftrightarrow> 0 < request_bytes r"
    and "message_complete r \<Longrightarrow> request_sent r"
proof -
  have len: "0 < length req" if "build_request host target headers = Inr (req, tb)" for req tb
    using that by (simp add: build_request_Inr print_lines_def)
  show "request_sent r \<or> request_partial r \<longleftrightarrow> 0 < request_bytes r"
    using assms
  proof (cases rule: raw_http_get_cases)
    case unsent
    then show ?thesis by auto
  next
    case sent
    with len show ?thesis by (auto simp: emission_def)
  qed
  show "message_complete r \<Longrightarrow> request_sent r"
    using assms by (cases rule: raw_http_get_cases) (auto simp: emission_def)
qed

lemma authority_complete:
  assumes "completion_authority (view_receipt r sz) proto e q"
  shows "message_complete r" "rv_present (view_receipt r sz)"
    "rv_status (view_receipt r sz) = 200 \<or> rv_status (view_receipt r sz) = 206"
    "rv_reply_plain (view_receipt r sz)" "rv_count_plain (view_receipt r sz)"
    "0 \<le> rv_declared (view_receipt r sz)" "word_of_int (rv_declared (view_receipt r sz)) = e"
  using assms
  by (auto simp: completion_authority_def Let_def split: if_splits) (auto simp: view_receipt_def Let_def)

lemma build_request_exn: "build_request host target headers = Inl e \<Longrightarrow> \<exists>w. e = Invalid_argument w"
proof -
  have "add_headers headers req tb = Inl e \<Longrightarrow> \<exists>w. e = Invalid_argument w" for req tb
    by (induction headers req tb rule: add_headers.induct) (auto simp: Let_def split: if_splits)
  then show "build_request host target headers = Inl e \<Longrightarrow> \<exists>w. e = Invalid_argument w"
    by (auto simp: build_request_def bind_res_def split: if_splits sum.splits)
qed

text \<open>Only the validation of the request throws.\<close>

lemma raw_http_get_exn: "raw_http_get strerror net host target headers mh mb = Inl e \<Longrightarrow> \<exists>w. e = Invalid_argument w"
  using build_request_exn
  by (auto simp: raw_http_get_def bind_res_def Let_def split: sum.splits resolution.splits prod.splits if_splits)

lemma rig_account_quiet:
  assumes "\<not> request_sent res" "\<not> request_partial res" "rig_account res a c = (a', c')"
  shows "rx_submitted c' = rx_submitted c - 1" "rx_completed c' = rx_completed c"
    "rx_unknown c' = (if rx_submitted c - 1 = rx_completed c then False else rx_unknown c)"
    "rx_guard c' = rx_guard c" "rx_proto c' = rx_proto c" "rx_expected c' = rx_expected c"
    "rx_invocations c' = rx_invocations c" "rx_evidence_lost c' = rx_evidence_lost c" "rx_attempts c' = rx_attempts c"
    "at_request_bytes a' = int (request_bytes res)" "at_invocation a' = at_invocation a"
    "messages c' = messages c"
  using assms by (auto simp: rig_account_def Let_def take_back_def probe_fault_def messages_def split: if_splits)

lemma rig_account_sent:
  assumes "request_sent res \<or> request_partial res" "rig_account res a c = (a', c')"
  shows "rx_submitted c' = rx_submitted c" "rx_completed c' = rx_completed c" "rx_unknown c' = rx_unknown c"
    "rx_guard c' = rx_guard c" "rx_proto c' = rx_proto c" "rx_expected c' = rx_expected c"
    "rx_invocations c' = rx_invocations c" "rx_evidence_lost c' = rx_evidence_lost c" "rx_attempts c' = rx_attempts c"
    "at_request_bytes a' = int (request_bytes res)" "at_invocation a' = at_invocation a"
    "messages c' = messages c + 1" "at_message_complete a' = message_complete res"
  using assms by (auto simp: rig_account_def Let_def messages_def split: if_splits)

lemma rig_reply_frame:
  assumes "rig_reply res view proto sz a c = (a', c', rc)"
  shows "rx_submitted c' = rx_submitted c" "rx_completed c' = rx_completed c" "rx_unknown c' = rx_unknown c"
    "rx_guard c' = rx_guard c" "rx_proto c' = rx_proto c" "rx_expected c' = rx_expected c"
    "rx_invocations c' = rx_invocations c" "rx_evidence_lost c' = rx_evidence_lost c" "rx_attempts c' = rx_attempts c"
    "at_request_bytes a' = at_request_bytes a" "at_invocation a' = at_invocation a"
    "messages c' = messages c" "at_message_complete a' = at_message_complete a"
    "rv_present view \<Longrightarrow> at_http_status a' = int (rv_status view)" "rv_present view \<Longrightarrow> at_declared a' = rv_declared view"
    "rv_present view \<Longrightarrow> at_reply_unambiguous a' = rv_reply_plain view" "rv_present view \<Longrightarrow> at_count_plain a' = rv_count_plain view"
  using assms by (auto simp: rig_reply_def Let_def messages_def split: if_splits)

lemma close_attempt_frame:
  "at_request_bytes (close_attempt env view proto rc c a) = at_request_bytes a"
  "at_qualified_complete (close_attempt env view proto rc c a) = completion_authority view proto (rx_expected c) (cb_size env)"
  "at_invocation (close_attempt env view proto rc c a) = at_invocation a"
  "at_message_complete (close_attempt env view proto rc c a) = at_message_complete a"
  "at_http_status (close_attempt env view proto rc c a) = at_http_status a"
  "at_declared (close_attempt env view proto rc c a) = at_declared a"
  "at_reply_unambiguous (close_attempt env view proto rc c a) = at_reply_unambiguous a"
  "at_count_plain (close_attempt env view proto rc c a) = at_count_plain a"
  by (simp_all add: close_attempt_def Let_def)

lemma rig_conclude_frame:
  fixes c a env view proto rc
  defines "b \<equiv> close_attempt env view proto rc c a"
  assumes "rig_conclude env view proto rc a c = (rc', c')"
  shows "logged c [b] c'" "rx_submitted c' = rx_submitted c"
    "rx_completed c' = rx_completed c + (if at_qualified_complete b \<and> rx_submitted c = 1 then 1 else 0)"
    "rx_unknown c' = (if at_qualified_complete b \<and> rx_submitted c = 1 then False else rx_unknown c)"
    "rx_guard c' = rx_guard c" "rx_proto c' = rx_proto c" "rx_expected c' = rx_expected c"
    "rx_invocations c' = rx_invocations c" "messages c' = messages c"
  using assms by (auto simp: rig_conclude_def Let_def push_def logged_def messages_def split: if_splits)

lemma apfst_Inr [simp]: "apfst Inr p = (r, c') \<longleftrightarrow> (\<exists>rc. r = Inr rc \<and> p = (rc, c'))"
  by (cases p) auto

text \<open>From the submission on.\<close>

lemma rig_exchange_answered:
  assumes r: "rig_exchange cr env proto target headers a c1 = (Inr rc, c')"
    and c1: "c1 = c\<lparr>rx_invocations := rx_invocations c + 1, rx_active := n\<rparr>"
    and a: "may_send c" "at_request_bytes a = 0" "\<not> at_qualified_complete a"
    and get: "raw_http_get (cr_strerror cr) (cb_net env) (http_host_header (rx_host c) (rx_port c)) target headers
                kMaxHead kMaxBody = Inr res" "\<not> cb_fault env"
  shows "cb_effect c c'"
proof -
  let ?c = "c1\<lparr>rx_submitted := rx_submitted c1 + 1, rx_unknown := True\<rparr>"
  obtain a2 c2 where acc: "rig_account res a ?c = (a2, c2)" by force
  obtain a3 c3 rc3 where rep: "rig_reply res (view_receipt res (cb_size env)) proto (cb_size env) a2 c2 = (a3, c3, rc3)"
    using prod_cases3 by blast
  have con: "rig_conclude env (view_receipt res (cb_size env)) proto rc3 a3 c3 = (rc, c')"
    using r c1 get acc rep by (simp add: rig_exchange_def Let_def)
  note frame = rig_conclude_frame [OF con] close_attempt_frame rig_reply_frame [OF rep]
  let ?b = "close_attempt env (view_receipt res (cb_size env)) proto rc3 c3 a3"
  show ?thesis
  proof (cases "request_sent res \<or> request_partial res")
    case True
    note f = frame rig_account_sent [OF True acc]
    from True have "emitted ?b" using emission_bytes(1) [OF get(1)] f by (simp add: emitted_def)
    moreover have "record_ok (rx_expected c) ?b"
    proof -
      have "record_ok (rx_expected c3) ?b"
        unfolding record_ok_def
      proof
        assume "at_qualified_complete ?b"
        then have q: "completion_authority (view_receipt res (cb_size env)) proto (rx_expected c3) (cb_size env)"
          by (simp add: close_attempt_frame)
        show "emitted ?b \<and> at_message_complete ?b \<and> (at_http_status ?b = 200 \<or> at_http_status ?b = 206)
          \<and> at_reply_unambiguous ?b \<and> at_count_plain ?b \<and> 0 \<le> at_declared ?b \<and> word_of_int (at_declared ?b) = rx_expected c3"
          using authority_complete [OF q] f \<open>emitted ?b\<close> by auto
      qed
      then show ?thesis using f c1 by simp
    qed
    moreover have "messages ?c = messages c" by (simp add: c1 messages_def)
    ultimately show ?thesis
      using f c1 a(1) by (intro cb_effect.sent [where a = ?b]) (auto simp: same_frame_def logged_def)
  next
    case False
    then have ns: "\<not> request_sent res" "\<not> request_partial res" by simp_all
    note f = frame rig_account_quiet [OF ns acc]
    have "\<not> at_qualified_complete ?b"
      using authority_complete emission_bytes(2) [OF get(1)] ns by (auto simp: close_attempt_frame)
    moreover have "\<not> emitted ?b" using emission_bytes(1) [OF get(1)] ns f by (simp add: emitted_def)
    moreover have "messages ?c = messages c" by (simp add: c1 messages_def)
    ultimately show ?thesis
      using f c1 by (intro cb_effect.quiet [where as = "[?b]"]) (auto simp: same_frame_def logged_def)
  qed
qed

lemma rig_exchange_effect:
  assumes r: "rig_exchange cr env proto target headers a c1 = (Inr rc, c')"
    and c1: "c1 = c\<lparr>rx_invocations := rx_invocations c + 1, rx_active := n\<rparr>"
    and a: "may_send c" "at_request_bytes a = 0" "\<not> at_qualified_complete a"
  shows "cb_effect c c'"
proof -
  let ?get = "raw_http_get (cr_strerror cr) (cb_net env) (http_host_header (rx_host c) (rx_port c)) target headers kMaxHead kMaxBody"
  have nf: "\<not> cb_fault env" using r by (auto simp: rig_exchange_def Let_def)
  show ?thesis
  proof (cases ?get)
    case (Inl e)
    then obtain w where "e = Invalid_argument w" using raw_http_get_exn by blast
    with Inl r c1 a nf show ?thesis
      by (intro cb_effect.quiet [where as = "[a\<lparr>at_request_error := w, at_probe_failure := True, at_returned := - ENOTSUP, at_t_end := cb_t_end env\<rparr>]"])
        (auto simp: rig_exchange_def Let_def cb_stage_defs split: if_splits)
  next
    case (Inr res)
    with rig_exchange_answered [OF r c1 a] nf show ?thesis by simp
  qed
qed

lemma rig_exchange_threw:
  assumes "rig_exchange cr env proto target headers a c = (Inl e, c')"
  shows "c' = c\<lparr>rx_submitted := rx_submitted c + 1, rx_unknown := True\<rparr>"
proof (cases "cb_fault env")
  case False
  then show ?thesis
    using assms raw_http_get_exn [of "cr_strerror cr" "cb_net env" "http_host_header (rx_host c) (rx_port c)" target headers]
    by (auto simp: rig_exchange_def Let_def split: sum.splits prod.splits cxx_exn.splits)
qed (use assms in \<open>auto simp: rig_exchange_def Let_def\<close>)

lemma cb_effect_leave:
  assumes "cb_effect c c'"
  shows "cb_effect c (c'\<lparr>rx_active := n\<rparr>)"
  using assms
proof cases
  case (quiet as)
  then show ?thesis by (intro cb_effect.quiet [where as = as]) (auto simp: same_frame_def logged_def messages_def)
next
  case (sent a)
  then show ?thesis by (intro cb_effect.sent [where a = a]) (auto simp: same_frame_def logged_def messages_def)
next
  case threw
  then show ?thesis by (intro cb_effect.threw) (auto simp: same_frame_def messages_def)
qed

text \<open>Before the submission an invocation stays quiet.\<close>

lemma rig_decline_quiet:
  assumes "rig_decline env a c1 = (rc, c')" "at_request_bytes a = 0 \<and> \<not> at_qualified_complete a"
    "same_frame c c1" "messages c1 = messages c" "rx_evidence_lost c1 = rx_evidence_lost c" "rx_attempts c1 = rx_attempts c"
    "rx_submitted c1 = rx_submitted c" "rx_completed c1 = rx_completed c" "rx_unknown c1 = rx_unknown c"
  shows "cb_effect c c'"
proof -
  let ?a = "a\<lparr>at_returned := - ENOTSUP, at_t_end := cb_t_end env\<rparr>"
  have c': "c' = push (cb_stored env) ?a c1" using assms(1) by (auto simp: rig_decline_def)
  show ?thesis
  proof (rule cb_effect.quiet [where as = "[?a]"])
    show "same_frame c c'" "logged c [?a] c'"
      using assms(3-6) by (simp_all add: c' push_def same_frame_def logged_def)
    show "rx_submitted c' = rx_submitted c" "rx_completed c' = rx_completed c"
      "rx_unknown c' = rx_unknown c \<or> rx_unknown c' = (rx_submitted c \<noteq> rx_completed c)"
      using assms(7-9) by (simp_all add: c' push_def)
    show "messages c' = messages c" using assms(4) by (simp add: c' push_def messages_def)
  qed (use assms(2) in \<open>simp add: emitted_def\<close>)
qed

text \<open>The attempt as it stands, and the context, when the guard is consulted.\<close>

definition opened :: "cb_env \<Rightarrow> rig_context \<Rightarrow> attempt" where
  "opened env c = (fst (rig_enter env c))\<lparr>at_t_begin := cb_t_begin env, at_cb_size := sint (cb_size env),
     at_cb_offset := cb_offset env\<rparr>"

definition entered :: "rig_context \<Rightarrow> rig_context" where
  "entered c = c\<lparr>rx_invocations := rx_invocations c + 1, rx_active := rx_active c + 1\<rparr>"

lemma opened_fields [simp]: "at_request_bytes (opened env c) = 0" "\<not> at_qualified_complete (opened env c)" "at_invocation (opened env c) = rx_invocations c"
  by (simp_all add: opened_def rig_enter_def new_attempt_def)

lemma entered_frame: "same_frame c (entered c)"
  by (simp add: entered_def same_frame_def)

lemma rig_callback_impl_unfold:
  assumes "cb_desc env = Some desc" "rx_proto c = Some proto"
  shows "rig_callback_impl cr env c =
    (if \<not> may_send c then apfst Inr (rig_decline env ((opened env c)\<lparr>at_guarded := True\<rparr>) (entered c))
     else case rig_request cr env proto (entered c) desc of
         Inl e \<Rightarrow> apfst Inr (rig_decline env ((opened env c)\<lparr>at_request_error := exn_what e, at_probe_failure := True\<rparr>)
             ((entered c)\<lparr>rx_local_failure := True\<rparr>))
       | Inr (target, headers) \<Rightarrow> rig_exchange cr env proto target headers (opened env c) (entered c))"
proof -
  have e: "rig_enter env c = (fst (rig_enter env c), entered c)" by (simp add: rig_enter_def entered_def)
  have i: "at_invocation (fst (rig_enter env c)) = rx_invocations c" by (simp add: rig_enter_def)
  show ?thesis
    using assms i unfolding rig_callback_impl_def
    by (subst e) (auto simp: opened_def may_send_def probe_fault_def entered_def Let_def split: sum.split prod.split)
qed

lemma impl_answered:
  assumes "rig_callback_impl cr env c = (Inr rc, c')"
  shows "cb_effect c c'"
proof (cases "cb_desc env = None \<or> rx_proto c = None")
  case True
  with assms have "c' = entered c"
    by (auto simp: rig_callback_impl_def rig_enter_def entered_def split: option.splits)
  then show ?thesis
    using entered_frame by (intro cb_effect.quiet [where as = "[]"]) (auto simp: entered_def logged_def messages_def)
next
  case False
  then obtain desc proto where d: "cb_desc env = Some desc" "rx_proto c = Some proto" by auto
  note impl = assms [unfolded rig_callback_impl_unfold [OF d]]
  note e = entered_frame [of c]
  show ?thesis
  proof (cases "may_send c")
    case False
    with impl have "rig_decline env ((opened env c)\<lparr>at_guarded := True\<rparr>) (entered c) = (rc, c')" by simp
    then show ?thesis by (rule rig_decline_quiet) (use e in \<open>simp_all add: entered_def messages_def\<close>)
  next
    case True
    show ?thesis
    proof (cases "rig_request cr env proto (entered c) desc")
      case (Inl x)
      with True impl have "rig_decline env ((opened env c)\<lparr>at_request_error := exn_what x, at_probe_failure := True\<rparr>)
          ((entered c)\<lparr>rx_local_failure := True\<rparr>) = (rc, c')" by simp
      then show ?thesis by (rule rig_decline_quiet) (use e in \<open>simp_all add: entered_def same_frame_def messages_def\<close>)
    next
      case (Inr th)
      with True impl have "rig_exchange cr env proto (fst th) (snd th) (opened env c) (entered c) = (Inr rc, c')"
        by (simp add: case_prod_beta)
      then show ?thesis by (rule rig_exchange_effect) (use True in \<open>simp_all add: entered_def\<close>)
    qed
  qed
qed

lemma impl_threw:
  assumes "rig_callback_impl cr env c = (Inl e, c')"
  shows "may_send c" "c' = (entered c)\<lparr>rx_submitted := rx_submitted c + 1, rx_unknown := True\<rparr>"
proof -
  obtain desc proto where d: "cb_desc env = Some desc" "rx_proto c = Some proto"
    using assms by (auto simp: rig_callback_impl_def rig_enter_def split: option.splits)
  note impl = assms [unfolded rig_callback_impl_unfold [OF d]]
  show m: "may_send c" using impl by (auto split: if_splits)
  with impl obtain target headers where "rig_exchange cr env proto target headers (opened env c) (entered c) = (Inl e, c')"
    by (auto split: sum.splits prod.splits)
  from rig_exchange_threw [OF this] show "c' = (entered c)\<lparr>rx_submitted := rx_submitted c + 1, rx_unknown := True\<rparr>"
    by (simp add: entered_def)
qed

lemma rig_callback_effect:
  assumes "cb_inv c" "rig_callback cr env c = (rc, c')"
  shows "cb_effect c c'"
proof -
  obtain r c1 where impl: "rig_callback_impl cr env c = (r, c1)" by force
  show ?thesis
  proof (cases r)
    case (Inr x)
    with impl assms(2) have "c' = c1\<lparr>rx_active := rx_active c1 - 1\<rparr>" by (simp add: rig_callback_def Let_def)
    with impl Inr impl_answered cb_effect_leave show ?thesis by simp
  next
    case (Inl e)
    note t = impl_threw [OF impl [unfolded Inl]]
    have "rx_completed c \<le> rx_submitted c" using assms(1) by (simp add: cb_inv_def count_inv_def)
    with t impl Inl assms(2) show ?thesis
      by (intro cb_effect.threw) (auto simp: rig_callback_def Let_def same_frame_def entered_def messages_def)
  qed
qed

lemma rig_callbacks_inv: "cb_inv c \<Longrightarrow> rig_callbacks cr envs c = (rcs, c') \<Longrightarrow> cb_inv c'"
proof (induction cr envs c arbitrary: rcs rule: rig_callbacks.induct)
  case (2 cr env envs c)
  obtain rc c1 where s: "rig_callback cr env c = (rc, c1)" by force
  with 2 show ?case
    using cbs.inv_step [OF 2(2) rig_callback_effect [OF 2(2) s]]
    by (auto simp: Let_def split: prod.splits)
qed simp

lemma filter_single:
  assumes "length (filter P xs) = 1" "list_ex Q xs" "\<And>x. Q x \<Longrightarrow> P x"
  shows "\<exists>x. filter P xs = [x] \<and> Q x"
proof -
  obtain x where x: "filter P xs = [x]" using assms(1) by (auto simp: length_Suc_conv)
  obtain y where "y \<in> set xs" "Q y" using assms(2) by (auto simp: list_ex_iff)
  then have "y \<in> set (filter P xs)" using assms(3) by simp
  with x \<open>Q y\<close> show ?thesis by auto
qed

lemma gate_open:
  assumes "cb_inv c" "\<not> hold returned c"
  shows "rx_submitted c = 0 \<and> filter emitted (rx_attempts c) = []
    \<or> rx_submitted c = 1 \<and> (\<exists>a. filter emitted (rx_attempts c) = [a] \<and> at_qualified_complete a
         \<and> record_ok (rx_expected c) a)"
proof -
  let ?n = "length (filter emitted (rx_attempts c))"
  have c: "rx_completed c = rx_submitted c" "rx_submitted c = int ?n" "0 \<le> rx_completed c" "rx_completed c \<le> 1"
    "rx_completed c = 1 \<longrightarrow> list_ex (\<lambda>a. emitted a \<and> at_qualified_complete a) (rx_attempts c)"
    "list_all (record_ok (rx_expected c)) (rx_attempts c)"
    using assms by (auto simp: cb_inv_def count_inv_def log_inv_def hold_def)
  show ?thesis
  proof (cases "?n = 0")
    case True
    with c(2) show ?thesis by simp
  next
    case False
    then have n: "?n = 1" using c by linarith
    with c have "list_ex (\<lambda>a. emitted a \<and> at_qualified_complete a) (rx_attempts c)" by simp
    from filter_single [OF n this] obtain a where a: "filter emitted (rx_attempts c) = [a]" "at_qualified_complete a" by auto
    then have "a \<in> set (filter emitted (rx_attempts c))" by simp
    then have "a \<in> set (rx_attempts c)" by simp
    with a c n show ?thesis by (auto simp: list_all_iff)
  qed
qed

lemma fresh_inv: "fresh_context c \<Longrightarrow> cb_inv c"
  by (rule cbs.inv_init)

section \<open>Properties\<close>

text \<open>C18. When the joint hold is down after a GET, nothing of it is outstanding: either no callback put a byte of
  a request on the wire, or exactly one did, and its record shows a complete response with one plain reply
  code and a byte count equal to the expected one. However often the library re-enters the callback, with the guard on
  at most one request message is ever written.\<close>

theorem hold_down_settled:
  assumes "fresh_context c" and "rig_callbacks cr envs c = (rcs, c')"
  shows "(rx_guard c' \<longrightarrow> messages c' \<le> 1) \<and>
    (\<not> hold returned c' \<longrightarrow>
       rx_submitted c' = 0 \<and> filter emitted (rx_attempts c') = []
     \<or> rx_submitted c' = 1 \<and> (\<exists>a. filter emitted (rx_attempts c') = [a] \<and> at_qualified_complete a
          \<and> record_ok (rx_expected c') a))"
proof -
  have inv: "cb_inv c'" using rig_callbacks_inv [OF fresh_inv [OF assms(1)] assms(2)] .
  then have "rx_guard c' \<longrightarrow> messages c' \<le> 1" by (auto simp: cb_inv_def count_inv_def)
  with gate_open [OF inv] show ?thesis by blast
qed

section \<open>A good answer\<close>

text \<open>The network connects at some address, takes \<open>len\<close> bytes and delivers \<open>reply\<close>, both in pieces of any size.\<close>

definition delivers :: "net \<Rightarrow> nat \<Rightarrow> string \<Rightarrow> bool" where
  "delivers net len reply \<longleftrightarrow> (\<exists>fails others ns ds.
     net_resolution net = Resolved (fails @ Connected # others)
     \<and> list_all (\<lambda>e. e = No_socket \<or> (\<exists>n. e = Conn_error n)) fails
     \<and> net_sends net = map Sent ns \<and> len \<le> sum_list (map Suc ns)
     \<and> net_recvs net = map Recv ds \<and> list_all (\<lambda>d. d \<noteq> []) ds \<and> concat ds = reply)"

text \<open>A verbatim-protocol reply without a body: status and reply code \<open>abc\<close> and the byte count \<open>count\<close>.\<close>

definition good_reply :: "nat \<Rightarrow> nat \<Rightarrow> nat \<Rightarrow> nat \<Rightarrow> header_list \<Rightarrow> bool" where
  "good_reply a b c count hs \<longleftrightarrow> a < 10 \<and> b < 10 \<and> c < 10 \<and> (a * 100 + b * 10 + c = 200 \<or> a * 100 + b * 10 + c = 206)
     \<and> list_all response_field_ok hs
     \<and> filter (\<lambda>h. lower_ascii (fst h) = ''transfer-encoding'') hs = []
     \<and> (\<exists>n. filter (\<lambda>h. lower_ascii (fst h) = ''content-length'') hs = [(n, ''0'')])
     \<and> (\<exists>n. filter (\<lambda>h. lower_ascii (fst h) = kHdrRdmaReply) hs = [(n, [digit_char a, digit_char b, digit_char c])])
     \<and> (\<exists>n. filter (\<lambda>h. lower_ascii (fst h) = kHdrRdmaBytesTransferred) hs = [(n, to_string count)])
     \<and> count \<le> LONG_MAX"

lemma to_string_0: "to_string 0 = ''0''"
  by code_simp

lemma good_exchange:
  assumes b: "build_request host target headers = Inr (req, tb)" and d: "delivers net (length req) (print_head 1 a b c reas hs)"
    and g: "good_reply a b c count hs" and reas: "valid_field_value reas" and cap: "length (print_head 1 a b c reas hs) \<le> mh"
  obtains r where "raw_http_get strerror net host target headers mh mb = Inr r" "message_complete r"
    "status r = a * 100 + b * 10 + c" "hdr_fields r = map field_of hs" "body_content r = 0"
    "request_sent r" "head_complete r" "\<not> head_malformed r" "\<not> transport_error r" "\<not> body_truncated r"
proof -
  obtain fails others ns ds n where n: "net_resolution net = Resolved (fails @ Connected # others)"
      "list_all (\<lambda>e. e = No_socket \<or> (\<exists>n. e = Conn_error n)) fails"
      "net_sends net = map Sent ns" "length req \<le> sum_list (map Suc ns)"
      "net_recvs net = map Recv ds" "list_all (\<lambda>d. d \<noteq> []) ds" "concat ds = print_head 1 a b c reas hs @ []"
      "filter (\<lambda>h. lower_ascii (fst h) = ''content-length'') hs = [(n, to_string (length ([] :: string)))]"
    using d g by (auto simp: delivers_def good_reply_def to_string_0)
  have g': "(1::nat) < 10" "a < 10" "b < 10" "c < 10" "list_all response_field_ok hs"
    "filter (\<lambda>h. lower_ascii (fst h) = ''transfer-encoding'') hs = []"
    "length (to_string (length ([] :: string))) \<le> 18" "length ([] :: string) \<le> mb"
    using g by (simp_all add: good_reply_def to_string_0)
  obtain r where r: "raw_http_get strerror net host target headers mh mb = Inr r" "message_complete r"
      "status r = a * 100 + b * 10 + c" "hdr_fields r = map field_of hs" "body_octets r = 0"
    using exchange_whole [OF b n(1-7) g'(1-4) reas g'(5,6) n(8) g'(7) cap g'(8)] by auto
  from complete_receipt [OF r(1,2)] r show ?thesis by (intro that) auto
qed

lemma good_authority:
  assumes g: "good_reply a b c (unat expected) hs" and f: "hdr_fields r = map field_of hs" "status r = a * 100 + b * 10 + c"
    and r: "body_content r = 0" "message_complete r" "head_complete r" "\<not> head_malformed r" "\<not> transport_error r" "\<not> body_truncated r"
    and proto: "po_token_encoding proto = Verbatim" and sz: "unat expected \<le> unat sz"
  shows "completion_authority (view_receipt r sz) proto expected sz"
    and "rv_present (view_receipt r sz)" "rv_declared (view_receipt r sz) = int (unat expected)"
    and "parse_rdma_reply (0 < rv_reply_count (view_receipt r sz)) (rv_reply_raw (view_receipt r sz)) = \<lparr>rr_kind = Code, rr_code = status r\<rparr>"
proof -
  let ?code = "[digit_char a, digit_char b, digit_char c]"
  obtain n1 n2 where n: "filter (\<lambda>h. lower_ascii (fst h) = kHdrRdmaReply) hs = [(n1, ?code)]"
      "filter (\<lambda>h. lower_ascii (fst h) = kHdrRdmaBytesTransferred) hs = [(n2, to_string (unat expected))]"
    and abc: "a < 10" "b < 10" "c < 10" "status r = 200 \<or> status r = 206" "unat expected \<le> LONG_MAX"
    using g f(2) by (auto simp: good_reply_def)
  have counts: "field_count r kHdrRdmaReply = 1" "field_count r kHdrRdmaBytesTransferred = 1"
    using field_count_printed [OF f(1)] n by simp_all
  have vals: "first_value r kHdrRdmaReply = ?code" "first_value r kHdrRdmaBytesTransferred = to_string (unat expected)"
    using field_first_printed [OF f(1) n(1)] field_first_printed [OF f(1) n(2)] by (simp_all add: first_value_def field_of_def)
  have dec: "dec_value ?code = status r" using abc f(2) by (simp add: dec_value_from_def)
  have "length (to_string (unat expected)) \<le> 20"
    using abc(5) by (intro to_string_length) (simp_all add: LONG_MAX_def)
  then have plain: "plain_digits (to_string (unat expected)) 1 20" "plain_digits ?code 3 3"
    using abc to_string_digits by (simp_all add: plain_digits_def Suc_le_eq)
  have decl: "parse_rdma_bytes_transferred True (to_string (unat expected)) sz = int (unat expected)"
    using sz abc(5) by (simp add: parse_rdma_bytes_transferred_spec to_string_digits)
  have view: "rv_complete (view_receipt r sz)" "rv_present (view_receipt r sz)" "rv_status (view_receipt r sz) = status r"
      "rv_reply_plain (view_receipt r sz)" "rv_count_plain (view_receipt r sz)"
      "rv_reply_raw (view_receipt r sz) = ?code" "rv_declared (view_receipt r sz) = int (unat expected)"
      "rv_body_content (view_receipt r sz) = 0" "rv_reply_count (view_receipt r sz) = 1"
    using r counts vals plain decl by (simp_all add: view_receipt_def Let_def)
  then show "rv_present (view_receipt r sz)" "rv_declared (view_receipt r sz) = int (unat expected)" by simp_all
  show "parse_rdma_reply (0 < rv_reply_count (view_receipt r sz)) (rv_reply_raw (view_receipt r sz)) = \<lparr>rr_kind = Code, rr_code = status r\<rparr>"
    using view dec abc by (auto simp: parse_rdma_reply_spec)
  show "completion_authority (view_receipt r sz) proto expected sz"
    using view proto abc f(2) by (auto simp: completion_authority_def Let_def)
qed

text \<open>A well-behaved gateway settles a GET: if the request can be built, the socket takes it and a complete verbatim
  reply of status 200 or 206 with the matching reply code and the expected byte count comes back, in pieces of
  any size, then the first callback returns that count, its attempt qualifies, and the hold is down.\<close>

lemma good_callback:
  assumes c: "fresh_context c" "rx_proto c = Some proto" "po_token_encoding proto = Verbatim" "\<not> rx_guard c"
    and e: "cb_desc env = Some desc" "\<not> cb_fault env" "cb_stored env" "unat (rx_expected c) \<le> unat (cb_size env)"
    and req: "rig_request cr env proto c desc = Inr (target, headers)"
      "build_request (http_host_header (rx_host c) (rx_port c)) target headers = Inr (msg, True)"
    and net: "delivers (cb_net env) (length msg) (print_head 1 x y z reas hs)" "valid_field_value reas"
      "good_reply x y z (unat (rx_expected c)) hs" "length (print_head 1 x y z reas hs) \<le> kMaxHead"
  shows "fst (rig_callback cr env c) = int (unat (rx_expected c))
    \<and> map (\<lambda>a. (at_qualified_complete a, at_t_begin a, at_t_end a)) (rx_attempts (snd (rig_callback cr env c)))
          = [(True, cb_t_begin env, cb_t_end env)]
    \<and> rx_invocations (snd (rig_callback cr env c)) = 1
    \<and> rx_local_failure (snd (rig_callback cr env c)) = rx_local_failure c
    \<and> rx_submitted (snd (rig_callback cr env c)) = 1
    \<and> rx_http_attempts (snd (rig_callback cr env c)) = rx_http_attempts c + 1
    \<and> \<not> hold True (snd (rig_callback cr env c))"
proof -
  obtain r where r: "raw_http_get (cr_strerror cr) (cb_net env) (http_host_header (rx_host c) (rx_port c)) target headers kMaxHead kMaxBody = Inr r"
      "message_complete r" "status r = x * 100 + y * 10 + z" "hdr_fields r = map field_of hs" "body_content r = 0"
      "request_sent r" "head_complete r" "\<not> head_malformed r" "\<not> transport_error r" "\<not> body_truncated r"
    by (rule good_exchange [OF req(2) net(1,3,2,4)])
  have tb: "token_bearing r"
    using r(1) req(2) by (cases rule: raw_http_get_cases) (auto simp: emission_def)
  note auth = good_authority [OF net(3) r(4,3,5,2,7-10) c(3) e(4)]
  have st: "status r = 200 \<or> status r = 206" using net(3) r(3) by (auto simp: good_reply_def)
  have fr: "rx_invocations c = 0" "rx_submitted c = 0" "rx_completed c = 0" "\<not> rx_unknown c" "\<not> rx_evidence_lost c"
      "rx_attempts c = []" using c(1) by (simp_all add: fresh_context_def)
  have rr: "rig_request cr env proto (entered c) desc = Inr (target, headers)"
    using req(1) by (simp add: rig_request_def entered_def)
  have "may_send c" using fr by (simp add: may_send_def)
  then have impl: "rig_callback_impl cr env c = rig_exchange cr env proto target headers (opened env c) (entered c)"
    using rig_callback_impl_unfold [OF e(1) c(2)] rr by simp
  have get: "raw_http_get (cr_strerror cr) (cb_net env)
      (http_host_header (rx_host (entered c)) (rx_port (entered c))) target headers kMaxHead kMaxBody = Inr r"
    using r(1) by (simp add: entered_def)
  show ?thesis
    using impl get tb r(6) auth st fr c(4) c(3) e(2,3)
    by (simp add: rig_callback_def rig_exchange_def rig_account_def rig_reply_def rig_conclude_def close_attempt_def
        entered_def opened_def rig_enter_def push_def hold_def Let_def)
qed

section \<open>A concrete GET\<close>

definition rig_demo_crypto :: crypto where
  "rig_demo_crypto = \<lparr>cr_sha256 = (\<lambda>s. Some s), cr_hmac = (\<lambda>k s. Some s), cr_strerror = (\<lambda>_. [])\<rparr>"

definition rig_demo_context :: rig_context where
  "rig_demo_context = new_context\<lparr>rx_proto := Some gateway_options, rx_run_id := ''r'', rx_who := ''diag'', rx_get_id := 1,
     rx_first_return := - EPERM, rx_host := ''h'', rx_port := 80, rx_path := ''/b/k'',
     rx_range := ''bytes=0-3'', rx_expected := 4\<rparr>"

definition rig_demo_reply :: header_list where
  "rig_demo_reply = [(kHdrRdmaReply, ''206''), (kHdrRdmaBytesTransferred, ''4''), (''Content-Length'', ''0'')]"

definition rig_demo_env :: cb_env where
  "rig_demo_env = \<lparr>cb_desc = Some ''10:1'', cb_size = 4, cb_offset = 0, cb_thread = 1, cb_thread_hash = 1, cb_t_begin = 1, cb_t_end = 2,
     cb_tm = demo_tm,
     cb_net = \<lparr>net_resolution = Resolved [Connected], net_sends = [Sent 400], net_recvs = [Recv (print_head 1 2 0 6 ''OK'' rig_demo_reply)]\<rparr>,
     cb_fault = False, cb_stored = True\<rparr>"

lemma rig_demo_context_fresh: "fresh_context rig_demo_context"
  by (simp add: fresh_context_def rig_demo_context_def new_context_def messages_def)

lemma rig_demo_request:
  obtains target headers msg where "rig_request rig_demo_crypto rig_demo_env gateway_options rig_demo_context ''10:1'' = Inr (target, headers)"
    "build_request (http_host_header (rx_host rig_demo_context) (rx_port rig_demo_context)) target headers = Inr (msg, True)"
    "length msg \<le> 400"
proof -
  have "case rig_request rig_demo_crypto rig_demo_env gateway_options rig_demo_context ''10:1'' of
      Inl _ \<Rightarrow> False
    | Inr (target, headers) \<Rightarrow>
        (case build_request (http_host_header (rx_host rig_demo_context) (rx_port rig_demo_context)) target headers of
           Inl _ \<Rightarrow> False | Inr (msg, tb) \<Rightarrow> tb \<and> length msg \<le> 400)"
    by code_simp
  then obtain target headers where t: "rig_request rig_demo_crypto rig_demo_env gateway_options rig_demo_context ''10:1'' = Inr (target, headers)"
    and "case build_request (http_host_header (rx_host rig_demo_context) (rx_port rig_demo_context)) target headers of
           Inl _ \<Rightarrow> False | Inr (msg, tb) \<Rightarrow> tb \<and> length msg \<le> 400"
    by (cases "rig_request rig_demo_crypto rig_demo_env gateway_options rig_demo_context ''10:1''") auto
  then obtain msg where "build_request (http_host_header (rx_host rig_demo_context) (rx_port rig_demo_context)) target headers = Inr (msg, True)"
      "length msg \<le> 400"
    by (cases "build_request (http_host_header (rx_host rig_demo_context) (rx_port rig_demo_context)) target headers") auto
  with t that show ?thesis by blast
qed

lemma rig_demo_good_reply: "good_reply 2 0 6 4 rig_demo_reply"
proof -
  have "list_all response_field_ok rig_demo_reply" "filter (\<lambda>h. lower_ascii (fst h) = ''transfer-encoding'') rig_demo_reply = []"
    "filter (\<lambda>h. lower_ascii (fst h) = ''content-length'') rig_demo_reply = [(''Content-Length'', ''0'')]"
    "filter (\<lambda>h. lower_ascii (fst h) = kHdrRdmaReply) rig_demo_reply = [(kHdrRdmaReply, [digit_char 2, digit_char 0, digit_char 6])]"
    "filter (\<lambda>h. lower_ascii (fst h) = kHdrRdmaBytesTransferred) rig_demo_reply = [(kHdrRdmaBytesTransferred, to_string 4)]"
    by code_simp+
  then show ?thesis by (simp add: good_reply_def LONG_MAX_def)
qed

lemma rig_demo_delivers: "len \<le> 400 \<Longrightarrow> delivers (cb_net rig_demo_env) len (print_head 1 2 0 6 ''OK'' rig_demo_reply)"
  unfolding delivers_def rig_demo_env_def
  by (intro exI [of _ "[]"] exI [of _ "[400]"] exI [of _ "[print_head 1 2 0 6 ''OK'' rig_demo_reply]"])
    (simp add: print_head_def print_lines_def)

lemma rig_demo_head: "valid_field_value ''OK''" "length (print_head 1 2 0 6 ''OK'' rig_demo_reply) \<le> kMaxHead"
proof -
  have "length (print_head 1 2 0 6 ''OK'' rig_demo_reply) \<le> 200" by code_simp
  then show "length (print_head 1 2 0 6 ''OK'' rig_demo_reply) \<le> kMaxHead" by (simp add: kMaxHead_def)
qed code_simp

lemma rig_demo_fields: "rx_proto rig_demo_context = Some gateway_options" "po_token_encoding gateway_options = Verbatim"
    "\<not> rx_guard rig_demo_context" "cb_desc rig_demo_env = Some ''10:1''" "\<not> cb_fault rig_demo_env" "cb_stored rig_demo_env"
    "unat (rx_expected rig_demo_context) \<le> unat (cb_size rig_demo_env)" "unat (rx_expected rig_demo_context) = 4"
  by (simp_all add: rig_demo_context_def new_context_def gateway_options_def rig_demo_env_def)

lemma rig_demo_settled:
  "fst (rig_callback rig_demo_crypto rig_demo_env rig_demo_context) = 4" "\<not> hold True (snd (rig_callback rig_demo_crypto rig_demo_env rig_demo_context))"
  "rx_submitted (snd (rig_callback rig_demo_crypto rig_demo_env rig_demo_context)) = 1"
  "rx_invocations (snd (rig_callback rig_demo_crypto rig_demo_env rig_demo_context)) = 1"
proof -
  obtain target headers msg where r: "rig_request rig_demo_crypto rig_demo_env gateway_options rig_demo_context ''10:1'' = Inr (target, headers)"
    "build_request (http_host_header (rx_host rig_demo_context) (rx_port rig_demo_context)) target headers = Inr (msg, True)"
    "length msg \<le> 400"
    by (rule rig_demo_request)
  have g: "good_reply 2 0 6 (unat (rx_expected rig_demo_context)) rig_demo_reply" using rig_demo_good_reply rig_demo_fields(8) by simp
  from good_callback [OF rig_demo_context_fresh rig_demo_fields(1-7) r(1,2) rig_demo_delivers [OF r(3)] rig_demo_head(1) g rig_demo_head(2)]
  show "fst (rig_callback rig_demo_crypto rig_demo_env rig_demo_context) = 4" "\<not> hold True (snd (rig_callback rig_demo_crypto rig_demo_env rig_demo_context))"
    "rx_submitted (snd (rig_callback rig_demo_crypto rig_demo_env rig_demo_context)) = 1"
    "rx_invocations (snd (rig_callback rig_demo_crypto rig_demo_env rig_demo_context)) = 1"
    using rig_demo_fields(8) by simp_all
qed

theorem hold_down_settled_witness:
  "\<exists>a. filter emitted (rx_attempts (snd (rig_callbacks rig_demo_crypto [rig_demo_env] rig_demo_context))) = [a] \<and> at_qualified_complete a"
proof -
  let ?run = "rig_callbacks rig_demo_crypto [rig_demo_env] rig_demo_context"
  have s: "snd ?run = snd (rig_callback rig_demo_crypto rig_demo_env rig_demo_context)" by (simp add: case_prod_beta Let_def)
  show ?thesis
    using hold_down_settled [OF rig_demo_context_fresh, of rig_demo_crypto "[rig_demo_env]" "fst ?run" "snd ?run" True] rig_demo_settled(2,3) s
    by auto
qed

end
