(* ===== verification/Rig_Atomic.thy ===== *)
theory Rig_Atomic
  imports Rig_Callback
begin

text \<open>
  The callback of \<^verbatim>\<open>probe/rig_probe_main.cpp\<close> again, now with every access to the shared counters a step
  of its own, so that any number of invocations of one context can interleave as the library's threads let
  them. What an exchange delivers is left open: it wrote nothing, or something and with a receipt that
  qualifies or not, or it threw.
\<close>

section \<open>Threads\<close>

datatype cb_phase =
    Outside
  | Inside int
  | Ready
  | Announced
  | Latched
  | Unsent
  | Taken_back
  | Compared int
  | Clearing
  | On_wire bool
  | Claimed
  | Committed
  | Thrown
  | Finished bool bool

record shared =
  sh_guard :: bool
  sh_invocations :: int
  sh_submitted :: int
  sh_completed :: int
  sh_unknown :: bool
  sh_evidence_lost :: bool

text \<open>
  \<open>Finished e c\<close>: the invocation returned; \<open>e\<close> tells whether it may have put a request on the wire, \<open>c\<close>
  whether it counted a completion. The rule \<open>lose\<close> is a record that could not be kept, \<open>no_token\<close> a call without a descriptor.
\<close>

inductive phase_step :: "shared \<Rightarrow> cb_phase \<Rightarrow> shared \<Rightarrow> cb_phase \<Rightarrow> bool" where
  enter: "phase_step s Outside (s\<lparr>sh_invocations := sh_invocations s + 1\<rparr>) (Inside (sh_invocations s))"
| lose: "phase_step s p (s\<lparr>sh_evidence_lost := True\<rparr>) p"
| no_token: "phase_step s (Inside n) s (Finished False False)"
| refuse: "1 \<le> n \<Longrightarrow> sh_guard s \<or> sh_unknown s \<Longrightarrow> phase_step s (Inside n) s (Finished False False)"
| admit: "\<not> (1 \<le> n \<and> (sh_guard s \<or> sh_unknown s)) \<Longrightarrow> phase_step s (Inside n) s Ready"
| unbuilt: "phase_step s Ready s (Finished False False)"
| announce: "phase_step s Ready (s\<lparr>sh_submitted := sh_submitted s + 1\<rparr>) Announced"
| latch: "phase_step s Announced (s\<lparr>sh_unknown := True\<rparr>) Latched"
| unsent: "phase_step s Latched s Unsent"
| take_back: "phase_step s Unsent (s\<lparr>sh_submitted := sh_submitted s - 1\<rparr>) Taken_back"
| load: "phase_step s Taken_back s (Compared (sh_submitted s))"
| keep: "n \<noteq> sh_completed s \<Longrightarrow> phase_step s (Compared n) s (Finished False False)"
| settle: "n = sh_completed s \<Longrightarrow> phase_step s (Compared n) s Clearing"
| clear: "phase_step s Clearing (s\<lparr>sh_unknown := False\<rparr>) (Finished False False)"
| on_wire: "phase_step s Latched s (On_wire q)"
| claim: "sh_submitted s = 1 \<Longrightarrow> phase_step s (On_wire True) s Claimed"
| leave: "\<not> (q \<and> sh_submitted s = 1) \<Longrightarrow> phase_step s (On_wire q) s (Finished True False)"
| commit: "phase_step s Claimed (s\<lparr>sh_completed := sh_completed s + 1\<rparr>) Committed"
| release: "phase_step s Committed (s\<lparr>sh_unknown := False\<rparr>) (Finished True True)"
| throw: "phase_step s Latched s Thrown"
| caught: "phase_step s Thrown
    (s\<lparr>sh_unknown := sh_completed s < sh_submitted s \<or> sh_unknown s, sh_evidence_lost := True\<rparr>) (Finished True False)"

record cb_system =
  sy_shared :: shared
  sy_phases :: "cb_phase list"

definition cb_init :: "cb_system \<Rightarrow> bool" where
  "cb_init y \<longleftrightarrow> sh_invocations (sy_shared y) = 0 \<and> sh_submitted (sy_shared y) = 0 \<and> sh_completed (sy_shared y) = 0
     \<and> \<not> sh_unknown (sy_shared y) \<and> \<not> sh_evidence_lost (sy_shared y) \<and> list_all (\<lambda>p. p = Outside) (sy_phases y)"

inductive cb_step :: "cb_system \<Rightarrow> cb_system \<Rightarrow> bool" where
  thread: "i < length ps \<Longrightarrow> phase_step s (ps ! i) s' p \<Longrightarrow>
    cb_step \<lparr>sy_shared = s, sy_phases = ps\<rparr> \<lparr>sy_shared = s', sy_phases = ps[i := p]\<rparr>"

section \<open>Invariant\<close>

text \<open>The phases an announced submission passes through, those that have counted their completion, those that
  have decided to, and those that hold the ticket to send when the guard is on.\<close>

fun announced :: "cb_phase \<Rightarrow> bool" where
  "announced p \<longleftrightarrow> p = Announced \<or> p = Latched \<or> p = Unsent \<or> p = On_wire True \<or> p = On_wire False \<or> p = Claimed
     \<or> p = Committed \<or> p = Thrown \<or> p = Finished True True \<or> p = Finished True False"

fun counted :: "cb_phase \<Rightarrow> bool" where
  "counted p \<longleftrightarrow> p = Committed \<or> p = Finished True True"

fun claiming :: "cb_phase \<Rightarrow> bool" where
  "claiming p \<longleftrightarrow> p = Claimed \<or> counted p"

fun admitted :: "cb_phase \<Rightarrow> bool" where
  "admitted (Inside n) \<longleftrightarrow> n = 0"
| "admitted p \<longleftrightarrow> p \<noteq> Outside \<and> p \<noteq> Finished False False"

definition count_phases :: "(cb_phase \<Rightarrow> bool) \<Rightarrow> cb_phase list \<Rightarrow> int" where
  "count_phases P ps = int (length (filter P ps))"

definition sys_inv :: "cb_system \<Rightarrow> bool" where
  "sys_inv y \<longleftrightarrow> (let s = sy_shared y; ps = sy_phases y in
     0 \<le> sh_invocations s
     \<and> sh_submitted s = count_phases announced ps
     \<and> sh_completed s = count_phases counted ps
     \<and> count_phases claiming ps \<le> 1
     \<and> (sh_guard s \<longrightarrow> count_phases admitted ps \<le> (if sh_invocations s = 0 then 0 else 1))
     \<and> list_all (\<lambda>p. \<forall>n. p = Inside n \<longrightarrow> 0 \<le> n) ps)"

lemma count_update:
  "i < length ps \<Longrightarrow> count_phases P (ps[i := p]) = count_phases P ps + of_bool (P p) - of_bool (P (ps ! i))"
  using filter_update_count [of i ps P p] by (auto simp: count_phases_def split: if_splits)

lemma count_two:
  assumes "i < length ps" "j < length ps" "i \<noteq> j" "P (ps ! i)" "P (ps ! j)"
  shows "2 \<le> count_phases P ps"
proof -
  have "card {i, j} \<le> card {k. k < length ps \<and> P (ps ! k)}" using assms by (intro card_mono) auto
  then show ?thesis using assms(3) by (simp add: count_phases_def length_filter_conv_card)
qed

lemma count_pos: "i < length ps \<Longrightarrow> P (ps ! i) \<Longrightarrow> 1 \<le> count_phases P ps"
  by (auto simp: count_phases_def Suc_le_eq filter_empty_conv intro: nth_mem)

lemma count_mono: "(\<And>p. P p \<Longrightarrow> Q p) \<Longrightarrow> count_phases P ps \<le> count_phases Q ps"
  unfolding count_phases_def by (induction ps) auto

lemma count_le_index: "count_phases P ps \<noteq> 0 \<Longrightarrow> \<exists>j < length ps. P (ps ! j)"
  by (auto simp: count_phases_def filter_empty_conv in_set_conv_nth)

text \<open>Whoever claims the completion is the only announced invocation.\<close>

lemma claim_alone:
  assumes "sys_inv \<lparr>sy_shared = s, sy_phases = ps\<rparr>" "i < length ps" "ps ! i = On_wire True" "sh_submitted s = 1"
  shows "count_phases claiming ps = 0"
proof (rule ccontr)
  assume "count_phases claiming ps \<noteq> 0"
  then obtain j where j: "j < length ps" "claiming (ps ! j)" using count_le_index by blast
  then have "announced (ps ! j)" "j \<noteq> i" using assms(3) by auto
  with assms j have "2 \<le> count_phases announced ps" by (intro count_two [of i ps j]) auto
  with assms(1,4) show False by (simp add: sys_inv_def)
qed

lemma list_all_update: "list_all P xs \<Longrightarrow> P v \<Longrightarrow> list_all P (xs[i := v])"
  using set_update_subset_insert [of xs i v] by (auto simp: list_all_iff)

lemma sys_inv_step:
  assumes inv: "sys_inv y" and "cb_step y z"
  shows "sys_inv z"
  using assms(2)
proof cases
  case (thread i ps s s' p)
  have inside: "list_all (\<lambda>p. \<forall>n. p = Inside n \<longrightarrow> 0 \<le> n) ps" and inv': "sys_inv \<lparr>sy_shared = s, sy_phases = ps\<rparr>"
    using inv thread by (simp_all add: sys_inv_def)
  then have nonneg: "0 \<le> n" if "ps ! i = Inside n" for n
    using that thread(3) by (auto simp: list_all_length)
  note counts = count_update [OF thread(3), of _ p]
  from thread(4) show ?thesis
  proof cases
    case claim
    then have "count_phases claiming ps = 0" using claim_alone [OF inv' thread(3)] by simp
    with claim inv thread counts inside show ?thesis by (auto simp: sys_inv_def list_all_update)
  next
    case enter
    with inv thread counts inside show ?thesis
      by (auto simp: sys_inv_def list_all_update of_bool_def split: if_splits)
  next
    case (refuse n)
    with inv thread counts inside show ?thesis by (auto simp: sys_inv_def list_all_update of_bool_def split: if_splits)
  next
    case (admit n)
    with inv thread counts inside nonneg show ?thesis by (auto simp: sys_inv_def list_all_update of_bool_def split: if_splits)
  next
    case (on_wire q)
    with inv thread counts inside show ?thesis by (cases q) (auto simp: sys_inv_def list_all_update)
  next
    case (leave q)
    with inv thread counts inside show ?thesis by (cases q) (auto simp: sys_inv_def list_all_update)
  qed (use inv thread counts inside in \<open>auto simp: sys_inv_def list_all_update\<close>)
qed

lemma sys_inv_init: "cb_init y \<Longrightarrow> sys_inv y"
proof -
  assume y: "cb_init y"
  then have "\<forall>p \<in> set (sy_phases y). p = Outside" by (simp add: cb_init_def list_all_iff)
  then have "filter announced (sy_phases y) = []" "filter counted (sy_phases y) = []" "filter claiming (sy_phases y) = []"
      "filter admitted (sy_phases y) = []"
    by (auto simp: filter_empty_conv)
  with y show ?thesis by (auto simp: cb_init_def sys_inv_def count_phases_def list_all_iff)
qed

interpretation rig: safe_system cb_init cb_step sys_inv
  by unfold_locales (rule sys_inv_init, assumption, rule sys_inv_step)

section \<open>The callback takes these steps\<close>

definition shared_of :: "rig_context \<Rightarrow> shared" where
  "shared_of c = \<lparr>sh_guard = rx_guard c, sh_invocations = rx_invocations c, sh_submitted = rx_submitted c,
     sh_completed = rx_completed c, sh_unknown = rx_unknown c, sh_evidence_lost = rx_evidence_lost c\<rparr>"

inductive phase_run :: "shared \<Rightarrow> cb_phase \<Rightarrow> shared \<Rightarrow> cb_phase \<Rightarrow> bool" where
  stop: "phase_run s p s p"
| move: "phase_step s p s1 p1 \<Longrightarrow> phase_run s1 p1 s' p' \<Longrightarrow> phase_run s p s' p'"

lemma run_end: "phase_run s p s1 p1 \<Longrightarrow> phase_step s1 p1 s' p' \<Longrightarrow> phase_run s p s' p'"
  by (induction rule: phase_run.induct) (auto intro: phase_run.intros)

text \<open>From the entry to the latched submission, when the guard lets the invocation through.\<close>

lemma run_latched:
  assumes "may_send c"
  shows "phase_run (shared_of c) Outside
    ((shared_of c)\<lparr>sh_invocations := rx_invocations c + 1, sh_submitted := rx_submitted c + 1, sh_unknown := True\<rparr>) Latched"
proof -
  let ?s = "(shared_of c)\<lparr>sh_invocations := rx_invocations c + 1\<rparr>"
  have "phase_step (shared_of c) Outside ?s (Inside (rx_invocations c))"
    using phase_step.enter [of "shared_of c"] by (simp add: shared_of_def)
  moreover have "phase_step ?s (Inside (rx_invocations c)) ?s Ready"
    using assms by (intro phase_step.admit) (simp add: shared_of_def may_send_def)
  moreover have "phase_step ?s Ready (?s\<lparr>sh_submitted := rx_submitted c + 1\<rparr>) Announced"
    using phase_step.announce [of ?s] by (simp add: shared_of_def)
  moreover have "phase_step (?s\<lparr>sh_submitted := rx_submitted c + 1\<rparr>) Announced (?s\<lparr>sh_submitted := rx_submitted c + 1, sh_unknown := True\<rparr>) Latched"
    using phase_step.latch by blast
  ultimately show ?thesis by (blast intro: phase_run.intros)
qed

lemma run_lost: "phase_run s p s1 p1 \<Longrightarrow> phase_run s p (if b then s1\<lparr>sh_evidence_lost := True\<rparr> else s1) p1"
  using run_end phase_step.lose by simp

lemma run_quiet:
  "phase_run (shared_of c) Outside ((shared_of c)\<lparr>sh_invocations := rx_invocations c + 1\<rparr>) (Finished False False)"
proof -
  have "phase_step (shared_of c) Outside ((shared_of c)\<lparr>sh_invocations := rx_invocations c + 1\<rparr>) (Inside (rx_invocations c))"
    using phase_step.enter [of "shared_of c"] by (simp add: shared_of_def)
  then show ?thesis by (blast intro: phase_run.intros phase_step.no_token)
qed

lemma run_sent:
  fixes s q
  defines "claimed \<equiv> q \<and> sh_submitted s = 1"
  shows "phase_run s Latched (s\<lparr>sh_completed := sh_completed s + of_bool claimed, sh_unknown := sh_unknown s \<and> \<not> claimed\<rparr>)
    (Finished True claimed)"
proof -
  have wire: "phase_step s Latched s (On_wire q)" by (rule phase_step.on_wire)
  show ?thesis
  proof (cases claimed)
    case True
    then have "phase_step s (On_wire q) s Claimed" by (auto simp: claimed_def intro: phase_step.claim)
    moreover have "phase_step s Claimed (s\<lparr>sh_completed := sh_completed s + 1\<rparr>) Committed" by (rule phase_step.commit)
    moreover have "phase_step (s\<lparr>sh_completed := sh_completed s + 1\<rparr>) Committed
        (s\<lparr>sh_completed := sh_completed s + 1, sh_unknown := False\<rparr>) (Finished True True)"
      using phase_step.release by blast
    ultimately have "phase_run s Latched (s\<lparr>sh_completed := sh_completed s + 1, sh_unknown := False\<rparr>) (Finished True True)"
      using wire by (blast intro: phase_run.intros)
    with True show ?thesis by simp
  next
    case False
    then have "phase_step s (On_wire q) s (Finished True False)" by (auto simp: claimed_def intro: phase_step.leave)
    with wire have "phase_run s Latched s (Finished True False)" by (blast intro: phase_run.intros)
    with False show ?thesis by simp
  qed
qed

lemma run_append: "phase_run s p s1 p1 \<Longrightarrow> phase_run s1 p1 s' p' \<Longrightarrow> phase_run s p s' p'"
  by (induction rule: phase_run.induct) (auto intro: phase_run.intros)

lemma effect_run:
  assumes inv: "cb_inv c" and "cb_effect c c'"
  shows "\<exists>p. phase_run (shared_of c) Outside (shared_of c') p"
  using assms(2)
proof cases
  case (quiet as)
  then have "shared_of c' = (if rx_evidence_lost c' then ((shared_of c)\<lparr>sh_invocations := rx_invocations c + 1\<rparr>)\<lparr>sh_evidence_lost := True\<rparr>
      else (shared_of c)\<lparr>sh_invocations := rx_invocations c + 1\<rparr>)"
    using inv by (auto simp: shared_of_def same_frame_def logged_def cb_inv_def count_inv_def)
  then have "phase_run (shared_of c) Outside (shared_of c') (Finished False False)"
    using run_lost [OF run_quiet] by (simp only:)
  then show ?thesis by blast
next
  case (sent a)
  let ?s = "(shared_of c)\<lparr>sh_invocations := rx_invocations c + 1, sh_submitted := rx_submitted c + 1, sh_unknown := True\<rparr>"
  let ?claimed = "at_qualified_complete a \<and> sh_submitted ?s = 1"
  let ?t = "?s\<lparr>sh_completed := sh_completed ?s + of_bool ?claimed, sh_unknown := sh_unknown ?s \<and> \<not> ?claimed\<rparr>"
  have "shared_of c' = (if rx_evidence_lost c' then ?t\<lparr>sh_evidence_lost := True\<rparr> else ?t)"
    using sent by (auto simp: shared_of_def same_frame_def logged_def)
  then have "phase_run (shared_of c) Outside (shared_of c') (Finished True ?claimed)"
    using run_lost [OF run_append [OF run_latched [OF sent(2)] run_sent]] by (simp only:)
  then show ?thesis by blast
next
  case threw
  let ?s = "(shared_of c)\<lparr>sh_invocations := rx_invocations c + 1, sh_submitted := rx_submitted c + 1, sh_unknown := True\<rparr>"
  have "shared_of c' = ?s\<lparr>sh_unknown := sh_completed ?s < sh_submitted ?s \<or> sh_unknown ?s, sh_evidence_lost := True\<rparr>"
    using threw by (simp add: shared_of_def same_frame_def)
  then have "phase_step ?s Thrown (shared_of c') (Finished True False)" using phase_step.caught [of ?s] by simp
  moreover have "phase_step ?s Latched ?s Thrown" by (rule phase_step.throw)
  ultimately show ?thesis using run_end run_end [OF run_latched [OF threw(2)]] by blast
qed



section \<open>Properties\<close>

text \<open>C19. The release gate is safe under every interleaving of callback invocations: whenever the counters of
  submissions and completions agree, no invocation is between announcing a request and counting its
  qualified receipt, at most one invocation has put anything on the wire, and that one was counted. This holds although
  the unknown-completion flag alone may be cleared by a race.\<close>

theorem gate_safe:
  assumes "reach cb_init cb_step y" and "sh_completed (sy_shared y) = sh_submitted (sy_shared y)"
    and "i < length (sy_phases y)" and "announced (sy_phases y ! i)"
  shows "counted (sy_phases y ! i) \<and> sh_submitted (sy_shared y) = 1
     \<and> (\<forall>j < length (sy_phases y). announced (sy_phases y ! j) \<longrightarrow> j = i)"
proof -
  note inv = rig.reach_inv [OF assms(1), unfolded sys_inv_def Let_def]
  let ?ps = "sy_phases y"
  have "counted (?ps ! i)"
    using filter_counts_agree [of counted announced ?ps "?ps ! i"] inv assms(2-4) by (auto simp: count_phases_def)
  moreover have le: "count_phases counted ?ps \<le> count_phases claiming ?ps" by (rule count_mono) simp
  moreover have "1 \<le> count_phases counted ?ps"
    using calculation(1) assms(3) by (rule count_pos [rotated])
  ultimately have one: "sh_submitted (sy_shared y) = 1" using inv assms(2) by linarith
  then have "j = i" if "j < length ?ps" "announced (?ps ! j)" for j
    using count_two [of i ?ps j announced] that assms(3,4) inv by fastforce
  with \<open>counted (?ps ! i)\<close> one show ?thesis by blast
qed

section \<open>Runs\<close>

abbreviation sys :: "int \<Rightarrow> int \<Rightarrow> int \<Rightarrow> bool \<Rightarrow> cb_phase list \<Rightarrow> cb_system" where
  "sys n sub cmp unk ps \<equiv> \<lparr>sy_shared = \<lparr>sh_guard = False, sh_invocations = n, sh_submitted = sub, sh_completed = cmp,
     sh_unknown = unk, sh_evidence_lost = False\<rparr>, sy_phases = ps\<rparr>"

lemma reach_thread:
  assumes "reach cb_init cb_step \<lparr>sy_shared = s, sy_phases = ps\<rparr>" "i < length ps" "phase_step s (ps ! i) s' p"
  shows "reach cb_init cb_step \<lparr>sy_shared = s', sy_phases = ps[i := p]\<rparr>"
  using reach.reach_step [OF assms(1) cb_step.thread [OF assms(2,3)]] .

lemma reach_start: "reach cb_init cb_step (sys 0 0 0 False (replicate n Outside))"
  by (rule reach.reach_init) (simp add: cb_init_def list_all_iff)

lemma reach_ready: "reach cb_init cb_step (sys 2 0 0 False [Ready, Ready])"
proof -
  have "reach cb_init cb_step (sys 0 0 0 False [Outside, Outside])" using reach_start [of 2] by (simp add: eval_nat_numeral)
  from reach_thread [OF this, of 0] phase_step.enter
  have "reach cb_init cb_step (sys 1 0 0 False [Inside 0, Outside])" by fastforce
  from reach_thread [OF this, of 0] phase_step.admit [of 0]
  have "reach cb_init cb_step (sys 1 0 0 False [Ready, Outside])" by fastforce
  from reach_thread [OF this, of 1] phase_step.enter
  have "reach cb_init cb_step (sys 2 0 0 False [Ready, Inside 1])" by fastforce
  from reach_thread [OF this, of 1] phase_step.admit [of 1]
  show ?thesis by fastforce
qed

lemma reach_claimed: "reach cb_init cb_step (sys 2 1 0 True [Claimed, Ready])"
proof -
  from reach_thread [OF reach_ready, of 0] phase_step.announce
  have "reach cb_init cb_step (sys 2 1 0 False [Announced, Ready])" by fastforce
  from reach_thread [OF this, of 0] phase_step.latch
  have "reach cb_init cb_step (sys 2 1 0 True [Latched, Ready])" by fastforce
  from reach_thread [OF this, of 0] phase_step.on_wire [of _ True]
  have "reach cb_init cb_step (sys 2 1 0 True [On_wire True, Ready])" by fastforce
  from reach_thread [OF this, of 0] phase_step.claim
  show ?thesis by fastforce
qed

lemma reach_committed: "reach cb_init cb_step (sys 2 1 1 False [Finished True True, Ready])"
proof -
  from reach_thread [OF reach_claimed, of 0] phase_step.commit
  have "reach cb_init cb_step (sys 2 1 1 True [Committed, Ready])" by fastforce
  from reach_thread [OF this, of 0] phase_step.release
  show ?thesis by fastforce
qed

text \<open>The race the counters make harmless: the first invocation clears the flag that the second has just set.\<close>

lemma latch_race: "reach cb_init cb_step (sys 2 2 1 False [Finished True True, Latched])"
proof -
  from reach_thread [OF reach_claimed, of 1] phase_step.announce
  have "reach cb_init cb_step (sys 2 2 0 True [Claimed, Announced])" by fastforce
  from reach_thread [OF this, of 1] phase_step.latch
  have "reach cb_init cb_step (sys 2 2 0 True [Claimed, Latched])" by fastforce
  from reach_thread [OF this, of 0] phase_step.commit
  have "reach cb_init cb_step (sys 2 2 1 True [Committed, Latched])" by fastforce
  from reach_thread [OF this, of 0] phase_step.release
  show ?thesis by fastforce
qed

lemma guard_sends_once:
  assumes "reach cb_init cb_step y" "sh_guard (sy_shared y)"
    "i < length (sy_phases y)" "announced (sy_phases y ! i)" "j < length (sy_phases y)" "announced (sy_phases y ! j)"
  shows "i = j"
proof (rule ccontr)
  assume "i \<noteq> j"
  moreover have "admitted p" if "announced p" for p using that by auto
  ultimately have "2 \<le> count_phases admitted (sy_phases y)" using assms by (intro count_two [of i _ j]) auto
  with rig.reach_inv [OF assms(1)] assms(2) show False by (auto simp: sys_inv_def split: if_splits)
qed

theorem gate_safe_witness:
  "reach cb_init cb_step (sys 2 1 1 False [Finished True True, Ready])
   \<and> counted (sy_phases (sys 2 1 1 False [Finished True True, Ready]) ! 0)"
proof
  show "counted (sy_phases (sys 2 1 1 False [Finished True True, Ready]) ! 0)"
    by (rule gate_safe [OF reach_committed, THEN conjunct1]) simp_all
qed (rule reach_committed)

end
