(* ===== verification/Rig_Fixture.thy ===== *)
theory Rig_Fixture
  imports Rig_Callback "HOL-Library.Product_Lexorder" "HOL-Library.Multiset"
begin

text \<open>
  Two self-contained parts of \<^verbatim>\<open>probe/rig_probe_main.cpp\<close>: the owner of the registered arena (class
  \<^verbatim>\<open>Fixture\<close>), which must never free memory the library may still write to, and the sweep that counts
  how many GETs of a round were inside their callbacks at the same time.
\<close>

section \<open>Fixture\<close>

text \<open>
  The flags of the class, what the smart pointers still own, and two facts about the outside: the library
  holds a registration of the arena (\<open>fx_live\<close>), the arena and the clients were destroyed (\<open>fx_freed\<close>). A
  registration is taken to exist exactly when the call that makes it returned 0 and none that removes it has. The
  marker \<^verbatim>\<open>read_\<close>, which only selects a word of a diagnostic record, is left out.
\<close>

record fixture =
  fx_registered :: bool
  fx_released :: bool
  fx_retained :: bool
  fx_owned :: bool
  fx_live :: bool
  fx_freed :: bool

definition fx_new :: fixture where
  "fx_new = \<lparr>fx_registered = False, fx_released = False, fx_retained = False, fx_owned = True, fx_live = False, fx_freed = False\<rparr>"

definition fx_register :: "int \<Rightarrow> fixture \<Rightarrow> fixture" where
  "fx_register rc fx = fx\<lparr>fx_registered := rc = 0, fx_live := fx_live fx \<or> rc = 0\<rparr>"

definition retain_now :: "fixture \<Rightarrow> fixture" where
  "retain_now fx = (if fx_retained fx then fx else fx\<lparr>fx_retained := True, fx_owned := False\<rparr>)"

text \<open>\<open>rc\<close> is what the library answers to the deregistration, if it is asked.\<close>

definition fx_release :: "int \<Rightarrow> fixture \<Rightarrow> bool \<times> fixture" where
  "fx_release rc fx =
     (if fx_released fx \<or> fx_retained fx then (False, fx)
      else
        let drc = (if fx_registered fx then rc else 0);
            fx = fx\<lparr>fx_live := fx_live fx \<and> \<not> (fx_registered fx \<and> rc = 0)\<rparr>
        in if drc \<noteq> 0 then (False, retain_now fx)
           else (True, fx\<lparr>fx_registered := False, fx_released := True, fx_owned := False, fx_freed := True\<rparr>))"

definition fx_destroy :: "fixture \<Rightarrow> fixture" where
  "fx_destroy fx =
     (let fx = (if \<not> fx_released fx then retain_now fx else fx)
      in if fx_owned fx then fx\<lparr>fx_owned := False, fx_freed := True\<rparr> else fx)"

text \<open>What the experiments may do with a fixture, in any order: register once while they own it, release, retain,
  and leave the scope.\<close>

inductive fx_step :: "fixture \<Rightarrow> fixture \<Rightarrow> bool" where
  register: "fx_owned fx \<Longrightarrow> \<not> fx_registered fx \<Longrightarrow> fx_step fx (fx_register rc fx)"
| release: "fx_step fx (snd (fx_release rc fx))"
| retain: "\<not> fx_released fx \<Longrightarrow> fx_step fx (retain_now fx)"
| destroy: "fx_step fx (fx_destroy fx)"

definition fx_inv :: "fixture \<Rightarrow> bool" where
  "fx_inv fx \<longleftrightarrow> (fx_live fx \<longrightarrow> fx_registered fx) \<and> (fx_freed fx \<longleftrightarrow> fx_released fx) \<and> (fx_released fx \<longrightarrow> \<not> fx_registered fx)
     \<and> \<not> (fx_released fx \<and> fx_retained fx) \<and> (fx_owned fx \<longleftrightarrow> \<not> fx_released fx \<and> \<not> fx_retained fx)"

lemma fx_inv_step: "fx_inv fx \<Longrightarrow> fx_step fx fx' \<Longrightarrow> fx_inv fx'"
  by (erule fx_step.cases)
    (auto simp: fx_inv_def fx_register_def fx_release_def retain_now_def fx_destroy_def Let_def split: if_splits)

interpretation fixtures: safe_system "\<lambda>fx. fx = fx_new" fx_step fx_inv
  by unfold_locales (simp add: fx_inv_def fx_new_def, rule fx_inv_step)

section \<open>Overlap\<close>

text \<open>The interval of one GET: from its first entry to its last return.\<close>

definition get_interval :: "rig_context \<Rightarrow> (int \<times> int) list" where
  "get_interval c = (case rx_attempts c of
      [] \<Rightarrow> []
    | a # as \<Rightarrow> [(foldl (\<lambda>b x. min b (at_t_begin x)) (at_t_begin a) (a # as),
                 foldl (\<lambda>e x. max e (at_t_end x)) (at_t_end a) (a # as))])"

definition interval_events :: "int \<times> int \<Rightarrow> (int \<times> int) list" where
  "interval_events i = [(fst i, 1), (snd i, -1)]"

fun sweep :: "int \<Rightarrow> int \<Rightarrow> (int \<times> int) list \<Rightarrow> int" where
  "sweep cur mx [] = mx"
| "sweep cur mx (e # es) = (let cur = cur + snd e in sweep cur (max mx cur) es)"

definition max_overlap :: "(int \<times> int) list \<Rightarrow> int" where
  "max_overlap ivs = sweep 0 0 (sort (concat (map interval_events ivs)))"

definition round_overlap :: "rig_context list \<Rightarrow> int" where
  "round_overlap ctxs = max_overlap (concat (map get_interval ctxs))"

text \<open>The reference: how many intervals contain the instant \<open>t\<close>.\<close>

definition overlap_at :: "int \<Rightarrow> (int \<times> int) list \<Rightarrow> int" where
  "overlap_at t ivs = int (length (filter (\<lambda>i. fst i \<le> t \<and> t < snd i) ivs))"

abbreviation level :: "(int \<times> int) list \<Rightarrow> int" where
  "level es \<equiv> sum_list (map snd es)"

lemma sweep_ge: "mx \<le> sweep cur mx es" "0 < k \<Longrightarrow> k \<le> length es \<Longrightarrow> cur + level (take k es) \<le> sweep cur mx es"
proof -
  show ge: "mx \<le> sweep cur mx es" for cur mx es
    by (induction cur mx es rule: sweep.induct) (auto simp: Let_def)
  show "0 < k \<Longrightarrow> k \<le> length es \<Longrightarrow> cur + level (take k es) \<le> sweep cur mx es"
  proof (induction cur mx es arbitrary: k rule: sweep.induct)
    case (2 cur mx e es)
    show ?case
    proof (cases "k = 1")
      case True
      then show ?thesis using ge [of "max mx (cur + snd e)" "cur + snd e" es] by (simp add: Let_def)
    next
      case False
      then obtain j where "k = Suc j" "0 < j" using 2(2) by (cases k) auto
      with 2(1) [OF refl, of j] 2(3) show ?thesis by (simp add: Let_def add.assoc)
    qed
  qed simp
qed

lemma sweep_attained: "sweep cur mx es = mx \<or> (\<exists>k \<le> length es. sweep cur mx es = cur + level (take k es))"
proof (induction cur mx es rule: sweep.induct)
  case (2 cur mx e es)
  from 2 [OF refl] consider "sweep cur mx (e # es) = mx" | "sweep cur mx (e # es) = cur + snd e"
    | k where "k \<le> length es" "sweep cur mx (e # es) = cur + snd e + level (take k es)"
    by (auto simp: Let_def max_def split: if_splits)
  then show ?case
  proof cases
    case 2
    then show ?thesis by (intro disjI2 exI [of _ 1]) simp
  next
    case (3 k)
    then show ?thesis by (intro disjI2 exI [of _ "Suc k"]) simp
  qed simp
qed simp

lemma filter_sorted_prefix:
  fixes x :: "'a :: linorder"
  shows "sorted es \<Longrightarrow> filter (\<lambda>e. e \<le> x) es = take (length (filter (\<lambda>e. e \<le> x) es)) es"
proof (induction es)
  case (Cons e es)
  show ?case
  proof (cases "e \<le> x")
    case False
    then have "\<forall>y \<in> set (e # es). \<not> y \<le> x" using Cons.prems by auto
    then have "filter (\<lambda>e. e \<le> x) (e # es) = []" by (simp only: filter_empty_conv)
    then show ?thesis by simp
  qed (use Cons in simp)
qed simp

lemma level_sort: "level (filter P (sort es)) = level (filter P es)"
proof -
  have "mset (map snd (filter P (sort es))) = mset (map snd (filter P es))" by simp
  then show ?thesis by (metis sum_mset_sum_list)
qed

lemma level_events:
  "list_all (\<lambda>i. fst i \<le> snd i) ivs \<Longrightarrow>
   level (filter (\<lambda>e. e \<le> (t, 1)) (concat (map interval_events ivs))) = overlap_at t ivs"
  by (induction ivs) (auto simp: interval_events_def overlap_at_def)

text \<open>How many intervals contain \<open>t\<close> is the level after the events up to \<open>t\<close>.\<close>

lemma overlap_prefix:
  fixes ivs t
  defines "es \<equiv> sort (concat (map interval_events ivs))"
  assumes "list_all (\<lambda>i. fst i \<le> snd i) ivs"
  shows "overlap_at t ivs = level (take (length (filter (\<lambda>e. e \<le> (t, 1)) es)) es)"
  using level_events [OF assms(2), of t] level_sort [of "\<lambda>e. e \<le> (t, 1)"] filter_sorted_prefix [of es "(t, 1)"]
  by (simp add: es_def)

lemma take_level_mono:
  assumes "k \<le> n" "n \<le> length es" "\<And>i. k \<le> i \<Longrightarrow> i < n \<Longrightarrow> 0 \<le> snd (es ! i)"
  shows "level (take k es) \<le> level (take n es)"
  using assms
proof (induction n)
  case (Suc n)
  show ?case
  proof (cases "k = Suc n")
    case False
    with Suc have "level (take k es) \<le> level (take n es)" "0 \<le> snd (es ! n)" by auto
    then show ?thesis using Suc.prems by (simp add: take_Suc_conv_app_nth)
  qed simp
qed simp

lemma level_bounded:
  fixes ivs
  defines "es \<equiv> sort (concat (map interval_events ivs))"
  assumes wf: "list_all (\<lambda>i. fst i \<le> snd i) ivs" and "k \<le> length es"
  shows "level (take k es) \<le> 0 \<or> (\<exists>t. level (take k es) \<le> overlap_at t ivs)"
  using assms(3)
proof (induction k)
  case (Suc k)
  then have k: "k < length es" by simp
  have "set es = set (concat (map interval_events ivs))" by (simp add: es_def)
  then have "es ! k \<in> set (concat (map interval_events ivs))" using k nth_mem by blast
  then obtain t where "es ! k = (t, 1) \<or> es ! k = (t, -1)" by (auto simp: interval_events_def)
  then show ?case
  proof
    assume "es ! k = (t, -1)"
    then have "level (take (Suc k) es) < level (take k es)" using k by (simp add: take_Suc_conv_app_nth)
    with Suc.IH [OF less_imp_le [OF k]] show ?thesis by (meson less_imp_le order_trans)
  next
    assume up: "es ! k = (t, 1)"
    let ?f = "filter (\<lambda>e. e \<le> (t, 1)) es"
    have srt: "sorted es" by (simp add: es_def)
    have pre: "?f = take (length ?f) es" by (rule filter_sorted_prefix [OF srt])
    have "e \<le> (t, 1)" if "e \<in> set (take (Suc k) es)" for e
    proof -
      obtain j where "j < length (take (Suc k) es)" "take (Suc k) es ! j = e"
        using \<open>e \<in> set (take (Suc k) es)\<close> [unfolded in_set_conv_nth] by blast
      then have "j \<le> k" "e = es ! j" using k by simp_all
      then show ?thesis using sorted_nth_mono [OF srt \<open>j \<le> k\<close> k] up by (simp only:)
    qed
    then have "take (Suc k) es = filter (\<lambda>e. e \<le> (t, 1)) (take (Suc k) es)"
      by (intro filter_True [symmetric] ballI)
    then have "length (take (Suc k) es) \<le> length ?f"
      by (metis append_take_drop_id filter_append length_append le_add1)
    then have len: "Suc k \<le> length ?f" using k by simp
    have "0 \<le> snd (es ! i)" if "Suc k \<le> i" "i < length ?f" for i
    proof -
      have "es ! i = ?f ! i" using pre that(2) by (metis nth_take)
      then have "es ! i \<in> set ?f" using nth_mem [OF that(2)] by (simp only:)
      then have "es ! i \<le> (t, 1)" by simp
      moreover have "(t, 1) \<le> es ! i"
        using sorted_nth_mono [OF srt, of k i] that up length_filter_le [of "\<lambda>e. e \<le> (t, 1)" es] by simp
      ultimately show ?thesis by (simp add: antisym)
    qed
    then have "level (take (Suc k) es) \<le> level (take (length ?f) es)"
      by (intro take_level_mono [OF len]) simp_all
    then have "level (take (Suc k) es) \<le> overlap_at t ivs"
      using overlap_prefix [OF wf, of t, folded es_def] by (simp only:)
    then show ?thesis by blast
  qed
qed simp

section \<open>Properties\<close>



text \<open>C30. The sweep computes the maximal overlap: for intervals that do not end before they begin, its result is the largest
  number of half-open intervals that share an instant, 0 if there is none.\<close>

theorem max_overlap_exact:
  assumes "list_all (\<lambda>i. fst i \<le> snd i) ivs"
  shows "(\<forall>t. overlap_at t ivs \<le> max_overlap ivs) \<and> (max_overlap ivs = 0 \<or> (\<exists>t. overlap_at t ivs = max_overlap ivs))"
proof -
  let ?es = "sort (concat (map interval_events ivs))"
  have le: "overlap_at t ivs \<le> max_overlap ivs" for t
  proof -
    let ?k = "length (filter (\<lambda>e. e \<le> (t, 1)) ?es)"
    have "?k \<le> length ?es" by (rule length_filter_le)
    moreover have "0 \<le> max_overlap ivs" using sweep_ge(1) [of 0 0 ?es] by (simp add: max_overlap_def)
    ultimately show ?thesis
      using overlap_prefix [OF assms, of t] sweep_ge(2) [of ?k ?es 0 0] by (cases "?k = 0") (auto simp: max_overlap_def)
  qed
  moreover have "max_overlap ivs = 0 \<or> (\<exists>t. overlap_at t ivs = max_overlap ivs)"
  proof (cases "max_overlap ivs = 0")
    case False
    then obtain k where k: "k \<le> length ?es" "max_overlap ivs = level (take k ?es)"
      using sweep_attained [of 0 0 ?es] by (auto simp: max_overlap_def)
    moreover have "0 \<le> max_overlap ivs" using sweep_ge(1) [of 0 0 ?es] by (simp add: max_overlap_def)
    ultimately obtain t where "max_overlap ivs \<le> overlap_at t ivs" using level_bounded [OF assms, of k] False by auto
    with le [of t] show ?thesis by (metis order_antisym)
  qed simp
  ultimately show ?thesis by blast
qed

theorem max_overlap_exact_witness:
  "overlap_at 5 [(0, 10), (5, 20), (10, 15)] = 2 \<and> 2 \<le> max_overlap [(0, 10), (5, 20), (10, 15)]"
proof -
  have "list_all (\<lambda>i. fst i \<le> snd i) [(0, 10), (5, 20), (10, 15) :: int \<times> int]" by simp
  from max_overlap_exact [OF this] have "overlap_at 5 [(0, 10), (5, 20), (10, 15)] \<le> max_overlap [(0, 10), (5, 20), (10, 15)]"
    by blast
  then show ?thesis by (simp add: overlap_at_def)
qed

end
