(* ===== verification/Rig_Single.thy ===== *)
theory Rig_Single
  imports Rig_Fixture
begin

text \<open>
  The experiments of \<^verbatim>\<open>probe/rig_probe_main.cpp\<close> that use at most one slot: \<^verbatim>\<open>attr\<close>, \<^verbatim>\<open>reg\<close>, and the
  single GET behind \<^verbatim>\<open>diag\<close> and \<^verbatim>\<open>rt-guard\<close>. The device, the library and the network are a record of answers;
  an experiment returns its reading, or the exception that leaves it, together with what happened to its fixture.
  Diagnostic records other than the result are not part of the reading.
\<close>

section \<open>The outside world\<close>

text \<open>
  Answers are indexed by the iteration (-1 for the serial reference pass and single GETs) and the slot. A GET is
  described by the callback invocations the library makes (\<open>rw_envs\<close>), its return value (absent when it threw)
  and what the arena holds afterwards (\<open>rw_landing\<close>, given the pointer offset, size and buffer offset of the call);
  \<open>rw_round\<close> is the arena after the concurrent GETs of one round. The two error fields are what a failing device
  copy says.
\<close>

type_synonym sdk_call = "u64 \<times> u64 \<times> u64"

record rig_world =
  rw_ordering :: "int option"
  rw_flush :: "int option"
  rw_malloc_ok :: bool
  rw_register :: "u64 \<Rightarrow> int"
  rw_deregister :: int
  rw_callback_max :: "nat \<Rightarrow> u64 \<Rightarrow> int"
  rw_now :: u32
  rw_fresh :: "u64 \<Rightarrow> string"
  rw_poison_error :: "int \<Rightarrow> nat \<Rightarrow> string option"
  rw_read_error :: "int \<Rightarrow> nat \<Rightarrow> string option"
  rw_envs :: "int \<Rightarrow> nat \<Rightarrow> cb_env list"
  rw_return :: "int \<Rightarrow> nat \<Rightarrow> int option"
  rw_landing :: "int \<Rightarrow> nat \<Rightarrow> sdk_call \<Rightarrow> string \<Rightarrow> string"
  rw_round :: "int \<Rightarrow> string \<Rightarrow> string"
  rw_threads_ok :: "int \<Rightarrow> bool"

record rig_outcome =
  og_fixture :: "fixture option"
  og_result :: "(verdict \<times> string) result"

text \<open>Before any fixture exists; with one, whose scope is left when the experiment returns or throws.\<close>

definition no_fixture :: "verdict \<Rightarrow> string \<Rightarrow> rig_outcome" where
  "no_fixture v d = \<lparr>og_fixture = None, og_result = Inr (v, d)\<rparr>"

definition leave_with :: "fixture \<Rightarrow> (verdict \<times> string) result \<Rightarrow> rig_outcome" where
  "leave_with fx r = \<lparr>og_fixture = Some (fx_destroy fx), og_result = r\<rparr>"

definition retain_with :: "fixture \<Rightarrow> verdict \<Rightarrow> string \<Rightarrow> rig_outcome" where
  "retain_with fx v d = leave_with (retain_now fx) (Inr (v, d))"

text \<open>Release; when that fails, retain and say so.\<close>

definition release_or_retain :: "rig_world \<Rightarrow> fixture \<Rightarrow> verdict \<Rightarrow> string \<Rightarrow> verdict \<Rightarrow> string \<Rightarrow> rig_outcome" where
  "release_or_retain w fx v d v' d' =
     (case fx_release (rw_deregister w) fx of
        (ok, fx) \<Rightarrow> if ok then leave_with fx (Inr (v, d)) else retain_with fx v' d')"

section \<open>The library wrapper\<close>

text \<open>Offsets count from the registered base.\<close>

definition get_call :: "bool \<Rightarrow> u64 \<Rightarrow> u64 \<Rightarrow> sdk_call" where
  "get_call base_offset_api offset sz = (if base_offset_api then (0, sz, offset) else (offset, sz, 0))"

definition callback_max :: "rig_world \<Rightarrow> bool \<Rightarrow> nat \<Rightarrow> u64 \<Rightarrow> int" where
  "callback_max w base_offset_api session offset = rw_callback_max w session (if base_offset_api then 0 else offset)"

definition session_get ::
  "crypto \<Rightarrow> rig_world \<Rightarrow> bool \<Rightarrow> int \<Rightarrow> nat \<Rightarrow> rig_context \<Rightarrow> u64 \<Rightarrow> u64 \<Rightarrow> string \<Rightarrow> int option \<times> rig_context \<times> string" where
  "session_get cr w base_offset_api it k ctx offset sz arena =
     (rw_return w it k, snd (rig_callbacks cr (rw_envs w it k) ctx), rw_landing w it k (get_call base_offset_api offset sz) arena)"

section \<open>Device attributes and registration\<close>

definition exp_attr :: "rig_world \<Rightarrow> rig_outcome" where
  "exp_attr w =
     (let ok = (rw_ordering w \<noteq> None \<and> rw_flush w \<noteq> None)
      in no_fixture (if ok then Pass else EnvError) (if ok then ''attributes recorded'' else ''attribute query incomplete''))"

definition reg_bytes :: "rig_options \<Rightarrow> u64 option" where
  "reg_bytes opts =
     (if ro_slot_bytes opts = 0 \<or> kSsizeMax < ro_slot_bytes opts \<or> ro_slots opts = 0 \<or> 256 < ro_slots opts then None
      else case checked_mul (ro_slots opts) (ro_slot_bytes opts) of
          None \<Rightarrow> None
        | Some bytes \<Rightarrow> if kMaxReg < bytes then None else Some bytes)"

text \<open>The block is freed at once when registering fails, and otherwise only after a successful deregistration; a fixture
  value records that.\<close>

definition exp_reg :: "rig_world \<Rightarrow> rig_options \<Rightarrow> rig_outcome" where
  "exp_reg w opts = (case reg_bytes opts of
      None \<Rightarrow> no_fixture EnvError ''W*S invalid or exceeds CUOBJ_MAX_MEMORY_REG_SIZE''
    | Some bytes \<Rightarrow>
        if \<not> rw_malloc_ok w then no_fixture EnvError ''cudaMalloc failed''
        else
          let rc = rw_register w bytes; fx = fx_register rc fx_new
          in if rc \<noteq> 0
             then leave_with (snd (fx_release 0 fx)) (Inr (Fail, ''registration of a dedicated cudaMalloc block refused''))
             else
               let at_base = callback_max w (ro_base_offset_api opts) 0 0;
                   at_last = callback_max w (ro_base_offset_api opts) 0 ((ro_slots opts - 1) * ro_slot_bytes opts);
                   drc = rw_deregister w;
                   fx = snd (fx_release drc fx);
                   need = sint (ro_slot_bytes opts);
                   fits = (need \<le> at_base \<and> need \<le> at_last)
               in leave_with fx (Inr
                    (if drc \<noteq> 0 then (Fail, ''deregistration failed; block and client retained'')
                     else if fits
                     then (Pass, ''capacity supports S without splitting; retry behaviour is measured separately'')
                     else (Fail, ''callback size below S: construction refused for this S''))))"

section \<open>A single GET\<close>

definition single_context :: "rig_options \<Rightarrow> geometry \<Rightarrow> bool \<Rightarrow> string \<Rightarrow> rig_context" where
  "single_context opts g guard run_id = new_context\<lparr>rx_proto := Some (ro_proto opts), rx_run_id := run_id, rx_get_id := 1,
     rx_who := (if guard then ''rt-guard'' else ''diag''), rx_host := ro_host opts, rx_port := ro_port opts,
     rx_path := ''/'' @ ro_bucket opts @ ''/'' @ ro_object opts,
     rx_range := ''bytes='' @ to_string (unat (request_start opts)) @ ''-'' @ to_string (unat (request_end opts)),
     rx_expected := ge_expected g, rx_guard := guard,
     rx_first_return := (if ro_guard_mode opts = ''enotsup'' then - ENOTSUP else - EPERM)\<rparr>"

definition observed_class :: "rig_context \<Rightarrow> string" where
  "observed_class ctx =
     (if rx_unknown ctx then ''unknown'' else if rx_http_attempts ctx = 0 then ''no-emission'' else ''known-complete'')"

definition guard_attempt_of :: "attempt \<Rightarrow> guard_attempt" where
  "guard_attempt_of a = \<lparr>ga_invocation = at_invocation a, ga_t_begin = at_t_begin a, ga_t_end = at_t_end a,
     ga_cb_size = at_cb_size a, ga_cb_offset = at_cb_offset a, ga_injected = at_injection_applied a,
     ga_guarded = at_guarded a, ga_http_attempt = at_http_attempt a, ga_partial = at_request_partial a,
     ga_entered_while_active = at_entered_while_active a, ga_thread = at_thread a\<rparr>"

text \<open>What was seen of the landing.\<close>

record landing =
  la_digest_checked :: bool
  la_digest_ok :: bool
  la_is_poison :: bool
  la_outside_ok :: bool

definition guard_reading :: "rig_context \<Rightarrow> int option \<Rightarrow> landing \<Rightarrow> verdict \<times> string" where
  "guard_reading ctx ret la =
     (if \<not> (rx_attempts ctx \<noteq> [] \<and> at_injection_applied (hd (rx_attempts ctx)))
      then (Inconclusive, ''first transfer not qualified complete; guard not exercised'')
      else if rx_invocations ctx < 2
      then (Inconclusive, if la_is_poison la then ''no re-entry; landing_unchanged_poison_after_injected_return''
                          else ''guard not exercised: the library did not re-invoke the callback'')
      else
        (case guard_witness (map guard_attempt_of (rx_attempts ctx)) of
           (ok, why) \<Rightarrow>
             if 1 < rx_http_attempts ctx then (Fail, ''more than one request message for one GET'')
             else if (case ret of None \<Rightarrow> False | Some v \<Rightarrow> 0 \<le> v)
             then (Fail, ''cuObjGet returned success after injected failure'')
             else if \<not> la_outside_ok la then (Fail, ''guard corruption after the completed transfer'')
             else if \<not> ok then (Inconclusive, ''re-entry witness not established: '' @ why)
             else if la_is_poison la
             then (Inconclusive, ''re-entry witnessed; landing_unchanged_poison_after_injected_return'')
             else if \<not> la_digest_checked la then (Inconclusive, ''re-entry witnessed; no integrity witness supplied'')
             else if \<not> la_digest_ok la
             then (Inconclusive, ''re-entry witnessed; landing did not match the independent object digest'')
             else (Pass, ''ordered re-entry of the same request; one complete token-bearing message; negative SDK return; landing verified (capture is the independent cross-check)'')))"

definition diag_reading :: "rig_context \<Rightarrow> int option \<Rightarrow> u64 \<Rightarrow> landing \<Rightarrow> verdict \<times> string" where
  "diag_reading ctx ret expected la =
     (let one_cb = (rx_invocations ctx = 1);
          rc_ok = (ret = Some (sint expected))
      in if \<not> la_digest_checked la then (Inconclusive, ''observed; no integrity witness supplied (--expect-sha)'')
         else if one_cb \<and> rc_ok \<and> la_digest_ok la \<and> la_outside_ok la then (Pass, ''delivered'')
         else (Fail, (if one_cb then [] else ''callbacks!=1 '') @ (if rc_ok then [] else ''rc!=expected '')
                     @ (if la_digest_ok la then [] else ''digest '') @ (if la_outside_ok la then [] else ''poison-outside '')))"

definition single_hold :: "int option \<Rightarrow> rig_context \<Rightarrow> bool" where
  "single_hold ret ctx \<longleftrightarrow> 0 < rx_submitted ctx \<and> hold (ret \<noteq> None) ctx"

text \<open>After the GET: the gate, the landing and the reading.\<close>

definition single_judge ::
  "crypto \<Rightarrow> rig_world \<Rightarrow> rig_options \<Rightarrow> geometry \<Rightarrow> bool \<Rightarrow> cell \<Rightarrow> fixture \<Rightarrow> int option \<Rightarrow> rig_context \<Rightarrow> string \<Rightarrow> rig_outcome" where
  "single_judge cr w opts g guard c fx ret ctx arena =
     (let SHA256 = cr_sha256 cr; nonce = rw_now w in
      if ro_neg_class opts = ''unknown'' \<or> single_hold ret ctx
      then retain_with fx Inconclusive
             (''completion unknown ('' @ observed_class ctx @ ''): landing not read, resources retained'')
      else (case (case rw_read_error w (-1) 0 of
                    Some e \<Rightarrow> Inl (Runtime_error e)
                  | None \<Rightarrow> sha256_hex SHA256 (rig_read arena (ce_payload c) (ge_expected g))) of
          Inl e \<Rightarrow> retain_with fx EnvError (''landing read failed: '' @ exn_what e)
        | Inr digest \<Rightarrow>
            (case (if ge_expected g \<noteq> 0 then payload_poison_digest SHA256 c (ge_expected g) nonce else Inr []) of
               Inl e \<Rightarrow> leave_with fx (Inl e)
             | Inr poison_span \<Rightarrow>
                 let la = \<lparr>la_digest_checked = ro_expect_sha opts \<noteq> [],
                           la_digest_ok = ro_expect_sha opts \<noteq> [] \<and> digest = ro_expect_sha opts,
                           la_is_poison = 0 < ge_expected g \<and> digest = poison_span,
                           la_outside_ok = poison_intact_outside arena c (ge_expected g) nonce\<rparr>
                 in (case fx_release (rw_deregister w) fx of
                       (ok, fx) \<Rightarrow>
                         if \<not> ok then retain_with fx Fail ''deregistration failed; arena retained''
                         else leave_with fx (Inr
                           (if rx_evidence_lost ctx then (Inconclusive, ''evidence incomplete (a callback record was lost)'')
                            else if guard then guard_reading ctx ret la
                            else diag_reading ctx ret (ge_expected g) la))))))"

definition single_run ::
  "crypto \<Rightarrow> rig_world \<Rightarrow> rig_options \<Rightarrow> geometry \<Rightarrow> bool \<Rightarrow> string \<Rightarrow> cell \<Rightarrow> fixture \<Rightarrow> string \<Rightarrow> rig_outcome" where
  "single_run cr w opts g guard run_id c fx arena =
     (let requested = request_end opts - request_start opts + 1;
          cap = callback_max w (ro_base_offset_api opts) 0 (ce_payload c)
      in if cap < sint requested
         then release_or_retain w fx
                EnvError ''callback capacity below the request: one-callback profile not available''
                EnvError ''callback capacity below the request; release failed''
         else (case rw_poison_error w (-1) 0 of
             Some e \<Rightarrow> release_or_retain w fx EnvError (''poison production failed: '' @ e)
                         EnvError ''poison production failed; release failed''
           | None \<Rightarrow>
               let arena = poison_cell arena c (rw_now w) in
               (case (if 0 < ge_expected g \<and> ro_expect_sha opts \<noteq> []
                      then payload_poison_digest (cr_sha256 cr) c (ge_expected g) (rw_now w) else Inr []) of
                  Inl e \<Rightarrow> leave_with fx (Inl e)
                | Inr pd \<Rightarrow>
                    if 0 < ge_expected g \<and> ro_expect_sha opts \<noteq> [] \<and> pd = ro_expect_sha opts
                    then leave_with fx (Inr (EnvError, ''poison collides with --expect-sha''))
                    else
                      (case session_get cr w (ro_base_offset_api opts) (-1) 0 (single_context opts g guard run_id)
                              (ce_payload c) requested arena of
                         (ret, ctx, arena) \<Rightarrow> single_judge cr w opts g guard c fx ret ctx arena))))"

definition exp_single_get :: "crypto \<Rightarrow> rig_world \<Rightarrow> rig_options \<Rightarrow> bool \<Rightarrow> string \<Rightarrow> rig_outcome" where
  "exp_single_get cr w opts guard run_id =
     (case validate_geometry opts 1 of
        Inl why \<Rightarrow> no_fixture EnvError why
      | Inr g \<Rightarrow>
          let vis = rig_visibility (parse_mode (ro_mode opts)) (rw_ordering w);
              c = make_cell 0 (ro_guard opts) (ro_slot_bytes opts);
              reg = rw_register w (ce_size c);
              fx = fx_register reg fx_new
          in if \<not> vi_trustworthy vis then no_fixture EnvError (''GPU visibility not qualified: '' @ vi_name vis)
             else if reg \<noteq> 0
             then leave_with (snd (fx_release (rw_deregister w) fx)) (Inr (EnvError, ''registration failed''))
             else single_run cr w opts g guard run_id c fx (rw_fresh w (ce_size c)))"

section \<open>Fixtures of an outcome\<close>

text \<open>Whatever the reading, the fixture was released (and then is not registered) or retained, and nobody owns it.\<close>

definition outcome_safe :: "rig_outcome \<Rightarrow> bool" where
  "outcome_safe oc \<longleftrightarrow> (case og_fixture oc of
      None \<Rightarrow> True
    | Some fx \<Rightarrow> fx_inv fx \<and> \<not> fx_owned fx)"

definition outcome_freed :: "rig_outcome \<Rightarrow> bool" where
  "outcome_freed oc \<longleftrightarrow> (case og_fixture oc of None \<Rightarrow> False | Some fx \<Rightarrow> fx_freed fx)"

text \<open>A fixture that is registered and undecided.\<close>

definition fx_held :: "fixture \<Rightarrow> bool" where
  "fx_held fx \<longleftrightarrow> fx_inv fx \<and> \<not> fx_released fx"

lemma no_fixture_safe [simp]: "outcome_safe (no_fixture v d)" "\<not> outcome_freed (no_fixture v d)" "og_result (no_fixture v d) = Inr (v, d)"
  by (simp_all add: outcome_safe_def outcome_freed_def no_fixture_def)

lemma fx_destroy_inv: "fx_inv fx \<Longrightarrow> fx_inv (fx_destroy fx) \<and> \<not> fx_owned (fx_destroy fx) \<and> fx_freed (fx_destroy fx) = fx_released fx"
  by (auto simp: fx_inv_def fx_destroy_def retain_now_def Let_def)

lemma leave_with_safe: "fx_inv fx \<Longrightarrow> outcome_safe (leave_with fx r)"
  using fx_destroy_inv by (simp add: outcome_safe_def leave_with_def)

lemma leave_with_fields [simp]: "og_result (leave_with fx r) = r"
  by (simp add: leave_with_def)

lemma leave_with_freed: "fx_inv fx \<Longrightarrow> outcome_freed (leave_with fx r) = fx_released fx"
  using fx_destroy_inv by (simp add: outcome_freed_def leave_with_def)

lemma retain_now_held: "fx_held fx \<Longrightarrow> fx_held (retain_now fx)"
  by (auto simp: fx_held_def fx_inv_def retain_now_def)

lemma retain_with_safe [simp]:
  "fx_held fx \<Longrightarrow> outcome_safe (retain_with fx v d)" "fx_held fx \<Longrightarrow> \<not> outcome_freed (retain_with fx v d)"
  "og_result (retain_with fx v d) = Inr (v, d)"
  using retain_now_held [of fx] leave_with_safe [of "retain_now fx"] leave_with_freed [of "retain_now fx"]
  by (auto simp: retain_with_def fx_held_def)

lemma fx_release_held:
  assumes "fx_held fx" "fx_release rc fx = (ok, fx')"
  shows "if ok then fx_inv fx' \<and> fx_released fx' else fx_held fx'"
  using assms by (auto simp: fx_held_def fx_inv_def fx_release_def retain_now_def Let_def split: if_splits)

lemma release_or_retain_safe: "fx_held fx \<Longrightarrow> outcome_safe (release_or_retain w fx v d v' d')"
proof -
  assume fx: "fx_held fx"
  obtain ok fx' where r: "fx_release (rw_deregister w) fx = (ok, fx')" by force
  from fx_release_held [OF fx r] show ?thesis
    by (cases ok) (simp_all add: release_or_retain_def r leave_with_safe)
qed

lemma release_or_retain_result:
  "og_result (release_or_retain w fx v d v' d') = Inr (v, d) \<or> og_result (release_or_retain w fx v d v' d') = Inr (v', d')"
  by (simp add: release_or_retain_def split: prod.split)

lemma release_or_retain_verdict:
  "v \<noteq> u \<Longrightarrow> v' \<noteq> u \<Longrightarrow> og_result (release_or_retain w fx v d v' d') \<noteq> Inr (u, e)"
  using release_or_retain_result [of w fx v d v' d'] by auto

lemma fx_register_held: "fx_held (fx_register rc fx_new)"
  by (simp add: fx_held_def fx_inv_def fx_register_def fx_new_def)

lemma single_judge_safe:
  assumes fx: "fx_held fx"
  shows "outcome_safe (single_judge cr w opts g guard c fx ret ctx arena)"
proof -
  obtain ok fx' where r: "fx_release (rw_deregister w) fx = (ok, fx')" by force
  have inv: "fx_inv fx" using fx by (simp add: fx_held_def)
  from fx_release_held [OF fx r] inv fx show ?thesis
    by (cases ok) (simp_all add: single_judge_def Let_def r leave_with_safe split: sum.split option.split)
qed

lemma single_run_safe: "fx_held fx \<Longrightarrow> outcome_safe (single_run cr w opts g guard run_id c fx arena)"
  by (simp add: single_run_def session_get_def Let_def leave_with_safe single_judge_safe release_or_retain_safe fx_held_def split: option.split sum.split)

lemma exp_single_get_safe: "outcome_safe (exp_single_get cr w opts guard run_id)"
proof -
  have "fx_inv (snd (fx_release rc (fx_register reg fx_new)))" for rc reg
    using fx_release_held [OF fx_register_held, of rc reg] by (cases "fx_release rc (fx_register reg fx_new)") (auto simp: fx_held_def split: if_splits)
  then show ?thesis
    by (auto simp: exp_single_get_def Let_def leave_with_safe single_run_safe fx_register_held split: sum.splits)
qed

lemma exp_reg_safe: "outcome_safe (exp_reg w opts)"
proof -
  have "fx_inv (snd (fx_release rc (fx_register reg fx_new)))" for rc reg
    using fx_release_held [OF fx_register_held, of rc reg] by (cases "fx_release rc (fx_register reg fx_new)") (auto simp: fx_held_def split: if_splits)
  then show ?thesis
    by (auto simp: exp_reg_def Let_def leave_with_safe split: option.splits)
qed

section \<open>What a reading rests on\<close>

definition settled :: "rig_context \<Rightarrow> bool" where
  "settled ctx \<longleftrightarrow> rx_submitted ctx = 0 \<and> filter emitted (rx_attempts ctx) = []
     \<or> rx_submitted ctx = 1 \<and> (\<exists>a. filter emitted (rx_attempts ctx) = [a] \<and> at_qualified_complete a \<and> record_ok (rx_expected ctx) a)"

lemma settledI:
  assumes "cb_inv ctx" "\<not> rx_evidence_lost ctx" "rx_submitted ctx = 0 \<or> \<not> hold returned ctx"
  shows "settled ctx"
proof (cases "rx_submitted ctx = 0")
  case True
  then have "length (filter emitted (rx_attempts ctx)) = 0" using assms(1,2) by (auto simp: cb_inv_def log_inv_def)
  with True show ?thesis by (simp add: settled_def)
next
  case False
  with assms gate_open [OF assms(1)] show ?thesis by (auto simp: settled_def)
qed

lemma single_context_fresh: "fresh_context (single_context opts g guard run_id)"
  by (simp add: fresh_context_def single_context_def new_context_def messages_def)

lemma run_inv: "fresh_context c \<Longrightarrow> cb_inv (snd (rig_callbacks cr envs c))"
  using rig_callbacks_inv [OF fresh_inv, of c cr envs "fst (rig_callbacks cr envs c)"] by simp

lemma guard_reading_pass:
  assumes "guard_reading ctx ret la = (Pass, d)"
  shows "rx_attempts ctx \<noteq> []" "at_injection_applied (hd (rx_attempts ctx))" "2 \<le> rx_invocations ctx" "rx_http_attempts ctx \<le> 1"
    "fst (guard_witness (map guard_attempt_of (rx_attempts ctx)))" "\<not> (\<exists>v. ret = Some v \<and> 0 \<le> v)"
    "la_outside_ok la" "la_digest_ok la" "\<not> la_is_poison la"
  using assms by (auto simp: guard_reading_def split: if_splits prod.splits option.splits)

lemma diag_reading_pass:
  assumes "diag_reading ctx ret e la = (Pass, d)"
  shows "rx_invocations ctx = 1" "ret = Some (sint e)" "la_digest_ok la" "la_outside_ok la"
  using assms by (auto simp: diag_reading_def Let_def split: if_splits)

lemma single_judge_pass:
  assumes fx: "fx_held fx" and pass: "og_result (single_judge cr w opts g guard c fx ret ctx arena) = Inr (Pass, d)"
  shows "outcome_freed (single_judge cr w opts g guard c fx ret ctx arena)" "\<not> single_hold ret ctx" "\<not> rx_evidence_lost ctx"
    "sha256_hex (cr_sha256 cr) (rig_read arena (ce_payload c) (ge_expected g)) = Inr (ro_expect_sha opts)"
    "poison_intact_outside arena c (ge_expected g) (rw_now w)"
    "guard \<Longrightarrow> at_injection_applied (hd (rx_attempts ctx)) \<and> 2 \<le> rx_invocations ctx \<and> rx_http_attempts ctx \<le> 1
       \<and> fst (guard_witness (map guard_attempt_of (rx_attempts ctx))) \<and> \<not> (\<exists>v. ret = Some v \<and> 0 \<le> v)"
    "\<not> guard \<Longrightarrow> rx_invocations ctx = 1 \<and> ret = Some (sint (ge_expected g))"
proof -
  obtain ok fx' where r: "fx_release (rw_deregister w) fx = (ok, fx')" by force
  have go: "ro_neg_class opts \<noteq> ''unknown''" and nh: "\<not> single_hold ret ctx" using pass by (auto simp: single_judge_def Let_def split: if_splits)
  obtain digest where dg: "rw_read_error w (-1) 0 = None" "sha256_hex (cr_sha256 cr) (rig_read arena (ce_payload c) (ge_expected g)) = Inr digest"
    using pass go nh by (auto simp: single_judge_def Let_def split: option.splits sum.splits)
  obtain ps where ps: "(if ge_expected g \<noteq> 0 then payload_poison_digest (cr_sha256 cr) c (ge_expected g) (rw_now w) else Inr []) = Inr ps"
    using pass go nh dg by (auto simp: single_judge_def Let_def split: sum.splits)
  define la where "la = \<lparr>la_digest_checked = ro_expect_sha opts \<noteq> [],
      la_digest_ok = ro_expect_sha opts \<noteq> [] \<and> digest = ro_expect_sha opts,
      la_is_poison = 0 < ge_expected g \<and> digest = ps, la_outside_ok = poison_intact_outside arena c (ge_expected g) (rw_now w)\<rparr>"
  have j: "single_judge cr w opts g guard c fx ret ctx arena = (if \<not> ok then retain_with fx' Fail ''deregistration failed; arena retained''
      else leave_with fx' (Inr (if rx_evidence_lost ctx then (Inconclusive, ''evidence incomplete (a callback record was lost)'')
        else if guard then guard_reading ctx ret la else diag_reading ctx ret (ge_expected g) la)))"
    using go nh dg ps r unfolding single_judge_def la_def by (simp add: Let_def)
  have ok: ok using pass unfolding j by (auto split: if_splits)
  have rd: "\<not> rx_evidence_lost ctx" "(if guard then guard_reading ctx ret la else diag_reading ctx ret (ge_expected g) la) = (Pass, d)"
    using pass ok unfolding j by (auto split: if_splits)
  have la: "la_digest_ok la \<and> la_outside_ok la"
    using rd(2) guard_reading_pass(7,8) [of ctx ret la d] diag_reading_pass(3,4) [of ctx ret "ge_expected g" la d] by (auto split: if_splits)
  show "outcome_freed (single_judge cr w opts g guard c fx ret ctx arena)"
    using fx_release_held [OF fx r] ok leave_with_freed [of fx'] unfolding j by simp
  show "\<not> single_hold ret ctx" "\<not> rx_evidence_lost ctx" by fact+
  show "sha256_hex (cr_sha256 cr) (rig_read arena (ce_payload c) (ge_expected g)) = Inr (ro_expect_sha opts)"
    "poison_intact_outside arena c (ge_expected g) (rw_now w)" using la dg(2) by (simp_all add: la_def)
  show "at_injection_applied (hd (rx_attempts ctx)) \<and> 2 \<le> rx_invocations ctx \<and> rx_http_attempts ctx \<le> 1
       \<and> fst (guard_witness (map guard_attempt_of (rx_attempts ctx))) \<and> \<not> (\<exists>v. ret = Some v \<and> 0 \<le> v)" if guard
    using guard_reading_pass [of ctx ret la d] rd(2) that by simp
  show "rx_invocations ctx = 1 \<and> ret = Some (sint (ge_expected g))" if "\<not> guard"
    using diag_reading_pass [of ctx ret "ge_expected g" la d] rd(2) that by simp
qed

text \<open>The run of a single GET up to the judgement, as the experiment performs it.\<close>

definition single_landing :: "crypto \<Rightarrow> rig_world \<Rightarrow> rig_options \<Rightarrow> geometry \<Rightarrow> bool \<Rightarrow> string \<Rightarrow> int option \<times> rig_context \<times> string" where
  "single_landing cr w opts g guard run_id =
     (let c = make_cell 0 (ro_guard opts) (ro_slot_bytes opts) in
      session_get cr w (ro_base_offset_api opts) (-1) 0 (single_context opts g guard run_id) (ce_payload c)
        (request_end opts - request_start opts + 1) (poison_cell (rw_fresh w (ce_size c)) c (rw_now w)))"

lemma single_pass_judged:
  assumes "og_result (exp_single_get cr w opts guard run_id) = Inr (Pass, d)"
  obtains g fx ret ctx arena where "validate_geometry opts 1 = Inr g" "fx_held fx"
    "vi_trustworthy (rig_visibility (parse_mode (ro_mode opts)) (rw_ordering w))"
    "single_landing cr w opts g guard run_id = (ret, ctx, arena)"
    "exp_single_get cr w opts guard run_id = single_judge cr w opts g guard (make_cell 0 (ro_guard opts) (ro_slot_bytes opts)) fx ret ctx arena"
proof -
  let ?c = "make_cell 0 (ro_guard opts) (ro_slot_bytes opts)" and ?fx = "fx_register (rw_register w (ce_size (make_cell 0 (ro_guard opts) (ro_slot_bytes opts)))) fx_new"
  obtain g where g: "validate_geometry opts 1 = Inr g" "vi_trustworthy (rig_visibility (parse_mode (ro_mode opts)) (rw_ordering w))"
      "exp_single_get cr w opts guard run_id = single_run cr w opts g guard run_id ?c ?fx (rw_fresh w (ce_size ?c))"
    using assms by (auto simp: exp_single_get_def Let_def split: sum.splits if_splits)
  obtain ret ctx arena where l: "single_landing cr w opts g guard run_id = (ret, ctx, arena)" using prod_cases3 by blast
  have "og_result (single_run cr w opts g guard run_id ?c ?fx (rw_fresh w (ce_size ?c))) = Inr (Pass, d)" using assms g(3) by simp
  then have "single_run cr w opts g guard run_id ?c ?fx (rw_fresh w (ce_size ?c)) = single_judge cr w opts g guard ?c ?fx ret ctx arena"
    using l by (auto simp: single_run_def single_landing_def Let_def release_or_retain_verdict split: if_splits option.splits sum.splits)
  with g l that fx_register_held show ?thesis by metis
qed

section \<open>Properties\<close>

text \<open>C20. A PASS of a single GET is earned: the geometry was accepted and GPU visibility qualified, every byte outside the
  expected landing still holds the fresh poison and the landing has the expected digest, nothing of the GET is
  outstanding and the fixture was deregistered before it was freed. Without the guard the library called back once and returned
  the expected length; with it, the injected failure was followed by a witnessed re-entry, at most one message
  was written and the library did not report success.\<close>

theorem single_pass_sound:
  assumes "og_result (exp_single_get cr w opts guard run_id) = Inr (Pass, d)"
  shows "\<exists>g ret ctx arena. validate_geometry opts 1 = Inr g \<and> single_landing cr w opts g guard run_id = (ret, ctx, arena)
    \<and> vi_trustworthy (rig_visibility (parse_mode (ro_mode opts)) (rw_ordering w))
    \<and> sha256_hex (cr_sha256 cr) (rig_read arena (ce_payload (make_cell 0 (ro_guard opts) (ro_slot_bytes opts))) (ge_expected g))
        = Inr (ro_expect_sha opts)
    \<and> poison_intact_outside arena (make_cell 0 (ro_guard opts) (ro_slot_bytes opts)) (ge_expected g) (rw_now w)
    \<and> settled ctx
    \<and> outcome_safe (exp_single_get cr w opts guard run_id) \<and> outcome_freed (exp_single_get cr w opts guard run_id)
    \<and> (if guard then at_injection_applied (hd (rx_attempts ctx)) \<and> 2 \<le> rx_invocations ctx \<and> rx_http_attempts ctx \<le> 1
          \<and> fst (guard_witness (map guard_attempt_of (rx_attempts ctx))) \<and> \<not> (\<exists>v. ret = Some v \<and> 0 \<le> v)
        else rx_invocations ctx = 1 \<and> ret = Some (sint (ge_expected g)))"
proof -
  obtain g fx ret ctx arena where j: "validate_geometry opts 1 = Inr g" "fx_held fx"
    "vi_trustworthy (rig_visibility (parse_mode (ro_mode opts)) (rw_ordering w))"
    "single_landing cr w opts g guard run_id = (ret, ctx, arena)"
    "exp_single_get cr w opts guard run_id = single_judge cr w opts g guard (make_cell 0 (ro_guard opts) (ro_slot_bytes opts)) fx ret ctx arena"
    by (rule single_pass_judged [OF assms])
  note p = single_judge_pass [OF j(2) assms [unfolded j(5)]]
  have "ctx = snd (rig_callbacks cr (rw_envs w (-1) 0) (single_context opts g guard run_id))"
    using j(4) by (simp add: single_landing_def session_get_def Let_def)
  then have inv: "cb_inv ctx" using run_inv [OF single_context_fresh] by simp
  then have "0 \<le> rx_submitted ctx" by (simp add: cb_inv_def count_inv_def)
  then have "settled ctx" using settledI [OF inv p(3)] p(2) by (auto simp: single_hold_def)
  with j p single_judge_safe [OF j(2)] show ?thesis
    by (intro exI [of _ g] exI [of _ ret] exI [of _ ctx] exI [of _ arena]) auto
qed

lemma single_judge_freed:
  assumes fx: "fx_held fx" and "outcome_freed (single_judge cr w opts g guard c fx ret ctx arena)"
  shows "\<not> single_hold ret ctx"
proof
  assume "single_hold ret ctx"
  with assms show False by (simp add: single_judge_def Let_def)
qed

definition env_error :: "rig_outcome \<Rightarrow> bool" where
  "env_error oc \<longleftrightarrow> (case og_result oc of Inl _ \<Rightarrow> False | Inr (v, _) \<Rightarrow> v = EnvError)"

lemma env_error_simps [simp]:
  "env_error (no_fixture v d) = (v = EnvError)" "env_error (leave_with fx (Inr (v, d))) = (v = EnvError)"
  "env_error (release_or_retain w fx EnvError d EnvError d')"
  using release_or_retain_result [of w fx EnvError d EnvError d'] by (auto simp: env_error_def no_fixture_def)

text \<open>The fixture is freed only if nothing of the GET is outstanding, or the experiment gave up before it.\<close>

lemma single_release_gated:
  assumes g: "validate_geometry opts 1 = Inr g" and l: "single_landing cr w opts g guard run_id = (ret, ctx, arena)"
    and freed: "outcome_freed (exp_single_get cr w opts guard run_id)"
    and no_env: "\<not> env_error (exp_single_get cr w opts guard run_id)"
  shows "\<not> single_hold ret ctx"
proof -
  let ?c = "make_cell 0 (ro_guard opts) (ro_slot_bytes opts)" and ?fx = "fx_register 0 fx_new"
  have run: "exp_single_get cr w opts guard run_id = single_run cr w opts g guard run_id ?c ?fx (rw_fresh w (ce_size ?c))"
    using freed no_env g by (auto simp: exp_single_get_def Let_def split: if_splits)
  have leave: "\<not> outcome_freed (leave_with ?fx r)" for r
    using fx_register_held [of 0] leave_with_freed [of ?fx r] by (simp add: fx_held_def)
  have "outcome_freed (single_judge cr w opts g guard ?c ?fx ret ctx arena)"
    using freed no_env leave l unfolding run
    by (auto simp: single_run_def single_landing_def Let_def split: if_splits option.splits sum.splits)
  from single_judge_freed [OF fx_register_held this] show ?thesis .
qed

text \<open>A gateway that delivers the four bytes \<open>data\<close>.\<close>

definition rig_demo_world :: rig_world where
  "rig_demo_world = \<lparr>rw_ordering = None, rw_flush = None, rw_malloc_ok = True, rw_register = (\<lambda>_. 0), rw_deregister = 0,
     rw_callback_max = (\<lambda>_ _. 4096), rw_now = 7, rw_fresh = (\<lambda>n. replicate (unat n) CHR ''x''),
     rw_poison_error = (\<lambda>_ _. None), rw_read_error = (\<lambda>_ _. None), rw_envs = (\<lambda>_ _. [rig_demo_env]),
     rw_return = (\<lambda>_ _. Some 4), rw_landing = (\<lambda>_ _ _ arena. poke arena 2 ''data''), rw_round = (\<lambda>_ arena. arena),
     rw_threads_ok = (\<lambda>_. True)\<rparr>"

lemma demo_rig_fields: "ro_guard demo_rig_options = 2" "ro_slot_bytes demo_rig_options = 4" "ro_mode demo_rig_options = ''host''"
    "ro_base_offset_api demo_rig_options = False" "ro_neg_class demo_rig_options = ''known-complete''"
    "ro_expect_sha demo_rig_options = ''64617461''" "request_start demo_rig_options = 0" "request_end demo_rig_options = 3"
  by (simp_all add: demo_rig_options_def default_rig_options_def request_start_def request_end_def)

lemma rig_demo_single_context:
  "single_context demo_rig_options \<lparr>ge_cell = 8, ge_arena = 8, ge_expected = 4\<rparr> False ''r'' = rig_demo_context"
proof -
  have "to_string 3 = ''3''" by code_simp
  then show ?thesis
    by (simp add: single_context_def demo_rig_fields to_string_0)
      (simp add: rig_demo_context_def demo_rig_options_def default_rig_options_def new_context_def)
qed

lemma rig_demo_single_geometry: "validate_geometry demo_rig_options 1 = Inr \<lparr>ge_cell = 8, ge_arena = 8, ge_expected = 4\<rparr>"
  by (simp add: validate_geometry_def demo_rig_options_def default_rig_options_def kSsizeMax_def kMaxReg_def
      geometry_arena_def checked_mul_def checked_add_def request_start_def request_end_def)

lemma rig_demo_landing:
  "single_landing rig_demo_crypto rig_demo_world demo_rig_options \<lparr>ge_cell = 8, ge_arena = 8, ge_expected = 4\<rparr> False ''r''
   = (Some 4, snd (rig_callback rig_demo_crypto rig_demo_env rig_demo_context),
      poke (poison_cell (replicate 8 CHR ''x'') (make_cell 0 2 4) 7) 2 ''data'')"
  unfolding single_landing_def session_get_def rig_demo_single_context demo_rig_fields
  by (simp add: rig_demo_world_def Let_def case_prod_beta make_cell_def)

lemma rig_demo_arena:
  "sha256_hex (cr_sha256 rig_demo_crypto) (rig_read (poke (poison_cell (replicate 8 CHR ''x'') (make_cell 0 2 4) 7) 2 ''data'') 2 4) = Inr ''64617461''"
  "poison_intact_outside (poke (poison_cell (replicate 8 CHR ''x'') (make_cell 0 2 4) 7) 2 ''data'') (make_cell 0 2 4) 4 7"
  "payload_poison_digest (cr_sha256 rig_demo_crypto) (make_cell 0 2 4) 4 7 \<noteq> Inr ''64617461''"
  "\<exists>pd. payload_poison_digest (cr_sha256 rig_demo_crypto) (make_cell 0 2 4) 4 7 = Inr pd"
proof -
  show "sha256_hex (cr_sha256 rig_demo_crypto) (rig_read (poke (poison_cell (replicate 8 CHR ''x'') (make_cell 0 2 4) 7) 2 ''data'') 2 4) = Inr ''64617461''"
    by code_simp
  show "poison_intact_outside (poke (poison_cell (replicate 8 CHR ''x'') (make_cell 0 2 4) 7) 2 ''data'') (make_cell 0 2 4) 4 7"
    by code_simp
  show "payload_poison_digest (cr_sha256 rig_demo_crypto) (make_cell 0 2 4) 4 7 \<noteq> Inr ''64617461''"
    by code_simp
  show "\<exists>pd. payload_poison_digest (cr_sha256 rig_demo_crypto) (make_cell 0 2 4) 4 7 = Inr pd"
    by (simp add: payload_poison_digest_def sha256_hex_def rig_demo_crypto_def)
qed

lemma rig_demo_pass: "og_result (exp_single_get rig_demo_crypto rig_demo_world demo_rig_options False ''r'') = Inr (Pass, ''delivered'')"
proof -
  let ?g = "\<lparr>ge_cell = 8, ge_arena = 8, ge_expected = 4\<rparr>" and ?c = "make_cell 0 2 4 :: cell"
  let ?ctx = "snd (rig_callback rig_demo_crypto rig_demo_env rig_demo_context)"
  obtain pd where pd: "payload_poison_digest (cr_sha256 rig_demo_crypto) ?c 4 7 = Inr pd" "pd \<noteq> ''64617461''"
    using rig_demo_arena(3,4) by auto
  have cell: "ce_payload ?c = 2" "ce_size ?c = 8" by (simp_all add: make_cell_def)
  have w: "rw_poison_error rig_demo_world (-1) 0 = None" "rw_read_error rig_demo_world (-1) 0 = None" "rw_now rig_demo_world = 7"
    "rw_deregister rig_demo_world = 0" "rw_register rig_demo_world 8 = 0" "callback_max rig_demo_world False 0 2 = 4096"
    by (simp_all add: rig_demo_world_def callback_max_def)
  have land: "session_get rig_demo_crypto rig_demo_world False (-1) 0 rig_demo_context 2 4 (poison_cell (rw_fresh rig_demo_world 8) ?c 7)
      = (Some 4, ?ctx, poke (poison_cell (replicate 8 CHR ''x'') ?c 7) 2 ''data'')"
    using rig_demo_landing by (simp add: single_landing_def rig_demo_single_context demo_rig_fields cell w Let_def)
  have rel: "fst (fx_release 0 (fx_register 0 fx_new))" by (simp add: fx_release_def fx_register_def fx_new_def)
  have "\<not> single_hold (Some 4) ?ctx" "\<not> rx_evidence_lost ?ctx"
    using rig_demo_settled(2) by (simp_all add: single_hold_def hold_def)
  then have "og_result (single_judge rig_demo_crypto rig_demo_world demo_rig_options ?g False ?c (fx_register 0 fx_new) (Some 4) ?ctx
      (poke (poison_cell (replicate 8 CHR ''x'') ?c 7) 2 ''data'')) = Inr (Pass, ''delivered'')"
    using rig_demo_arena(1,2) pd rel rig_demo_settled(4)
    by (simp add: single_judge_def demo_rig_fields w cell diag_reading_def case_prod_beta Let_def)
  then show ?thesis
    using pd land by (simp add: exp_single_get_def rig_demo_single_geometry single_run_def demo_rig_fields w cell
        rig_demo_single_context rig_visibility_def parse_mode_def Let_def)
qed

theorem single_pass_sound_witness:
  "outcome_freed (exp_single_get rig_demo_crypto rig_demo_world demo_rig_options False ''r'')"
  using single_pass_sound [OF rig_demo_pass] by blast

end
