(* ===== verification/Rig_Concurrent.thy ===== *)
theory Rig_Concurrent
  imports Rig_Single
begin

text \<open>
  The concurrent experiment \<^verbatim>\<open>c\<close> of \<^verbatim>\<open>probe/rig_probe_main.cpp\<close>: a serial reference pass over the slots, then
  rounds in which one thread per slot issues its GET at the same time, and the reading that blames a failure on
  concurrency only when overlap was witnessed. The contexts of a round belong to one slot each, so every context is
  the run of its own callbacks; the arena after a round is whatever the library left in it.
\<close>

section \<open>Slots\<close>

definition path_for :: "rig_options \<Rightarrow> nat \<Rightarrow> string" where
  "path_for opts k = ''/'' @ ro_bucket opts @ ''/'' @ (if ro_objects opts = [] then ro_object opts else ro_objects opts ! k)"

definition range_for :: "rig_options \<Rightarrow> nat \<Rightarrow> string" where
  "range_for opts k =
     (let a = (if ro_objects opts = [] then word_of_nat k * ro_slot_bytes opts else 0)
      in ''bytes='' @ to_string (unat a) @ ''-'' @ to_string (unat (a + ro_slot_bytes opts - 1)))"

definition slot_context :: "rig_options \<Rightarrow> string \<Rightarrow> nat \<Rightarrow> int \<Rightarrow> int \<Rightarrow> rig_context" where
  "slot_context opts run_id k it get_id = new_context\<lparr>rx_proto := Some (ro_proto opts), rx_run_id := run_id, rx_get_id := get_id,
     rx_who := ''w'' @ to_string k, rx_host := ro_host opts, rx_port := ro_port opts, rx_path := path_for opts k,
     rx_range := range_for opts k, rx_expected := ro_slot_bytes opts, rx_iteration := it, rx_slot := int k\<rparr>"

definition slot_cell :: "rig_options \<Rightarrow> nat \<Rightarrow> cell" where
  "slot_cell opts k = make_cell (word_of_nat k) (ro_guard opts) (ro_slot_bytes opts)"

text \<open>The part of \<^verbatim>\<open>slot_ok\<close> that needs no read, and the part that does.\<close>

definition native_ok :: "rig_options \<Rightarrow> int option \<Rightarrow> rig_context \<Rightarrow> bool" where
  "native_ok opts ret ctx \<longleftrightarrow> ret = Some (sint (ro_slot_bytes opts)) \<and> rx_invocations ctx = 1
     \<and> rx_attempts ctx \<noteq> [] \<and> at_qualified_complete (hd (rx_attempts ctx))"

definition read_slot :: "crypto \<Rightarrow> rig_world \<Rightarrow> rig_options \<Rightarrow> int \<Rightarrow> nat \<Rightarrow> u32 \<Rightarrow> string \<Rightarrow> (string \<times> bool) result" where
  "read_slot cr w opts it k nonce arena = (case rw_read_error w it k of
      Some e \<Rightarrow> Inl (Runtime_error e)
    | None \<Rightarrow>
        bind_res (sha256_hex (cr_sha256 cr) (rig_read arena (ce_payload (slot_cell opts k)) (ro_slot_bytes opts))) (\<lambda>d.
          Inr (d, poison_intact_outside arena (slot_cell opts k) (ro_slot_bytes opts) nonce)))"

text \<open>How an experiment ends early: keep everything, or release and fall back to keeping.\<close>

datatype ending = Retain verdict string | Release verdict string

definition finish_ending :: "rig_world \<Rightarrow> fixture \<Rightarrow> ending \<Rightarrow> rig_outcome" where
  "finish_ending w fx e = (case e of
      Retain v d \<Rightarrow> retain_with fx v d
    | Release v d \<Rightarrow> release_or_retain w fx v d v (d @ ''; release failed; graph retained''))"

section \<open>Reference pass\<close>

definition ref_slot :: "crypto \<Rightarrow> rig_world \<Rightarrow> rig_options \<Rightarrow> string \<Rightarrow> nat \<Rightarrow> string \<Rightarrow> (ending + string \<times> string) result" where
  "ref_slot cr w opts run_id k arena =
     (let c = slot_cell opts k; S = ro_slot_bytes opts in
      case rw_poison_error w (-1) k of
        Some e \<Rightarrow> Inl (Runtime_error e)
      | None \<Rightarrow>
          bind_res (payload_poison_digest (cr_sha256 cr) c S 1) (\<lambda>pd.
            case session_get cr w (ro_base_offset_api opts) (-1) k (slot_context opts run_id k (-1) (int k + 1)) (ce_payload c) S
                   (poison_cell arena c 1) of
              (ret, ctx, arena) \<Rightarrow>
                if hold (ret \<noteq> None) ctx
                then Inr (Inl (Retain Inconclusive ''reference GET left completion unknown; graph retained''))
                else if rx_local_failure ctx
                then Inr (Inl (Release EnvError ''probe-origin failure during the reference pass (not a backend finding)''))
                else bind_res (read_slot cr w opts (-1) k 1 arena) (\<lambda>(d, outside).
                  if \<not> (native_ok opts ret ctx \<and> outside) \<or> d = pd
                  then Inr (Inl (Release EnvError (''reference GET for slot '' @ to_string k @ '' not verified'')))
                  else Inr (Inr (d, arena)))))"

fun reference_pass :: "crypto \<Rightarrow> rig_world \<Rightarrow> rig_options \<Rightarrow> string \<Rightarrow> nat list \<Rightarrow> string list \<Rightarrow> string \<Rightarrow> ending + string list \<times> string" where
  "reference_pass cr w opts run_id [] ref arena = Inr (ref, arena)"
| "reference_pass cr w opts run_id (k # ks) ref arena = (case ref_slot cr w opts run_id k arena of
      Inl e \<Rightarrow> Inl (Retain EnvError (''reference pass failed: '' @ exn_what e))
    | Inr (Inl e) \<Rightarrow> Inl e
    | Inr (Inr (d, arena)) \<Rightarrow> reference_pass cr w opts run_id ks (ref @ [d]) arena)"

definition equal_refs :: "string list \<Rightarrow> bool" where
  "equal_refs ref = list_ex (\<lambda>a. list_ex (\<lambda>b. ref ! a = ref ! b) [a + 1..<length ref]) [0..<length ref]"

section \<open>Rounds\<close>

fun poison_round :: "crypto \<Rightarrow> rig_world \<Rightarrow> rig_options \<Rightarrow> string list \<Rightarrow> int \<Rightarrow> u32 \<Rightarrow> nat list \<Rightarrow> string \<Rightarrow> ending + string" where
  "poison_round cr w opts ref it nonce [] arena = Inr arena"
| "poison_round cr w opts ref it nonce (k # ks) arena =
     (case payload_poison_digest (cr_sha256 cr) (slot_cell opts k) (ro_slot_bytes opts) nonce of
        Inl e \<Rightarrow> Inl (Retain EnvError (''poison production failed: '' @ exn_what e))
      | Inr pd \<Rightarrow>
          if pd = ref ! k then Inl (Retain Inconclusive ''round poison collides with a reference payload'')
          else (case rw_poison_error w it k of
              Some e \<Rightarrow> Inl (Retain EnvError (''poison production failed: '' @ e))
            | None \<Rightarrow> poison_round cr w opts ref it nonce ks (poison_cell arena (slot_cell opts k) nonce)))"

definition round_context :: "crypto \<Rightarrow> rig_world \<Rightarrow> rig_options \<Rightarrow> string \<Rightarrow> int \<Rightarrow> nat \<Rightarrow> rig_context" where
  "round_context cr w opts run_id it k =
     snd (rig_callbacks cr (rw_envs w it k)
       (slot_context opts run_id k it (int (unat (ro_slots opts)) * (it + 1) + int k + 1)))"

definition round_contexts :: "crypto \<Rightarrow> rig_world \<Rightarrow> rig_options \<Rightarrow> string \<Rightarrow> int \<Rightarrow> rig_context list" where
  "round_contexts cr w opts run_id it = map (round_context cr w opts run_id it) [0..<unat (ro_slots opts)]"

text \<open>The reading of a round that left completion unknown.\<close>

definition unknown_reading :: "rig_world \<Rightarrow> rig_options \<Rightarrow> int \<Rightarrow> rig_context list \<Rightarrow> ending" where
  "unknown_reading w opts it ctxs =
     (let excluded = (\<lambda>c. rx_evidence_lost c \<or> rx_local_failure c);
          evidence_failure = list_ex excluded ctxs;
          observed_failure = list_ex (\<lambda>k. \<not> excluded (ctxs ! k) \<and>
            (case rw_return w it k of None \<Rightarrow> False | Some v \<Rightarrow> v \<noteq> sint (ro_slot_bytes opts))) [0..<length ctxs];
          concurrent_failure = (observed_failure \<and> 2 \<le> round_overlap ctxs)
      in Retain (if concurrent_failure then Fail else Inconclusive)
           (if concurrent_failure then ''a GET returned short/negative under witnessed overlap; graph retained''
            else if observed_failure
            then ''observed short/negative return without witnessed overlap (G8 INCONCLUSIVE); graph retained''
            else if evidence_failure then ''probe evidence failure (record lost); not a backend finding; graph retained''
            else ''a GET left completion unknown; no reuse; graph retained''))"

definition native_fail :: "rig_world \<Rightarrow> rig_options \<Rightarrow> int \<Rightarrow> rig_context list \<Rightarrow> nat \<Rightarrow> bool" where
  "native_fail w opts it ctxs k \<longleftrightarrow> \<not> rx_local_failure (ctxs ! k) \<and> \<not> native_ok opts (rw_return w it k) (ctxs ! k)"

text \<open>The reading pass: failures found in payloads or guards, whether a slot was excluded, and whether reading failed.\<close>

fun observe_slots ::
  "crypto \<Rightarrow> rig_world \<Rightarrow> rig_options \<Rightarrow> string list \<Rightarrow> int \<Rightarrow> u32 \<Rightarrow> rig_context list \<Rightarrow> string \<Rightarrow> nat list \<Rightarrow> nat \<Rightarrow> bool \<Rightarrow> nat \<times> bool \<times> bool" where
  "observe_slots cr w opts ref it nonce ctxs arena [] failures local_in_round = (failures, local_in_round, False)"
| "observe_slots cr w opts ref it nonce ctxs arena (k # ks) failures local_in_round =
     (if rx_local_failure (ctxs ! k) then observe_slots cr w opts ref it nonce ctxs arena ks failures True
      else (case read_slot cr w opts it k nonce arena of
          Inl e \<Rightarrow> (failures, local_in_round, True)
        | Inr (d, outside) \<Rightarrow>
            let ok = (native_ok opts (rw_return w it k) (ctxs ! k) \<and> outside \<and> d = ref ! k)
            in observe_slots cr w opts ref it nonce ctxs arena ks
                 (if \<not> ok \<and> \<not> native_fail w opts it ctxs k then failures + 1 else failures) local_in_round))"

text \<open>One round: an early ending, or the number of failures, the overlap and the arena.\<close>

definition run_round :: "crypto \<Rightarrow> rig_world \<Rightarrow> rig_options \<Rightarrow> string \<Rightarrow> string list \<Rightarrow> nat \<Rightarrow> string \<Rightarrow> ending + nat \<times> int \<times> string" where
  "run_round cr w opts run_id ref n arena =
     (let it = int n; nonce = 2 + word_of_nat n; slots = [0..<unat (ro_slots opts)] in
      case poison_round cr w opts ref it nonce slots arena of
        Inl e \<Rightarrow> Inl e
      | Inr arena \<Rightarrow>
          if \<not> rw_threads_ok w it then Inl (Retain EnvError ''worker thread creation failed; graph retained'')
          else
            let arena = rw_round w it arena;
                ctxs = round_contexts cr w opts run_id it;
                overlap = round_overlap ctxs
            in if list_ex (\<lambda>k. hold (rw_return w it k \<noteq> None) (ctxs ! k)) slots then Inl (unknown_reading w opts it ctxs)
               else
                 (case observe_slots cr w opts ref it nonce ctxs arena slots
                         (length (filter (native_fail w opts it ctxs) slots)) False of
                    (failures, local_in_round, observer_failed) \<Rightarrow>
                      if 0 < failures then Inr (failures, overlap, arena)
                      else if observer_failed
                      then Inl (Retain EnvError ''landing observation failed; no independent failure established; graph retained'')
                      else if local_in_round
                      then Inl (Release EnvError ''probe-origin failure in a concurrent round (not a backend finding)'')
                      else Inr (0, overlap, arena)))"

text \<open>The rounds: an early ending, or the failures, the overlap of the failing round and the maximal overlap.\<close>

fun run_rounds :: "crypto \<Rightarrow> rig_world \<Rightarrow> rig_options \<Rightarrow> string \<Rightarrow> string list \<Rightarrow> nat list \<Rightarrow> int \<Rightarrow> string \<Rightarrow> ending + nat \<times> int \<times> int" where
  "run_rounds cr w opts run_id ref [] most arena = Inr (0, 0, most)"
| "run_rounds cr w opts run_id ref (n # ns) most arena = (case run_round cr w opts run_id ref n arena of
      Inl e \<Rightarrow> Inl e
    | Inr (failures, overlap, arena) \<Rightarrow>
        if 0 < failures then Inr (failures, overlap, max most overlap)
        else run_rounds cr w opts run_id ref ns (max most overlap) arena)"

section \<open>The experiment\<close>

definition final_reading :: "nat \<Rightarrow> int \<Rightarrow> int \<Rightarrow> bool \<times> verdict \<times> string" where
  "final_reading failures failing_overlap most =
     (if 0 < failures then
        (True, if 2 \<le> failing_overlap then (Fail, ''per-slot correctness failure under witnessed overlap; graph retained'')
               else (Inconclusive, ''per-slot correctness failure without witnessed overlap (G8 INCONCLUSIVE); graph retained''))
      else if most < 2 then (False, Inconclusive, ''no overlap witnessed (max_overlap < 2)'')
      else (False, Pass, ''overlap witnessed; all slots correct against the serial references''))"

definition conc_finish :: "rig_world \<Rightarrow> fixture \<Rightarrow> nat \<Rightarrow> int \<Rightarrow> int \<Rightarrow> rig_outcome" where
  "conc_finish w fx failures failing_overlap most =
     (case final_reading failures failing_overlap most of
        (keep_graph, v, d) \<Rightarrow>
          if keep_graph then retain_with fx v d
          else release_or_retain w fx v d Fail ''deregistration failed; graph retained'')"

definition capacity_short :: "rig_world \<Rightarrow> rig_options \<Rightarrow> bool" where
  "capacity_short w opts = list_ex (\<lambda>k. callback_max w (ro_base_offset_api opts) k (ce_payload (slot_cell opts k))
     < sint (ro_slot_bytes opts)) [0..<unat (ro_slots opts)]"

definition conc_run :: "crypto \<Rightarrow> rig_world \<Rightarrow> rig_options \<Rightarrow> string \<Rightarrow> fixture \<Rightarrow> string \<Rightarrow> rig_outcome" where
  "conc_run cr w opts run_id fx arena =
     (if capacity_short w opts then finish_ending w fx (Release EnvError ''callback capacity below S at a slot pointer'')
      else (case reference_pass cr w opts run_id [0..<unat (ro_slots opts)] [] arena of
          Inl e \<Rightarrow> finish_ending w fx e
        | Inr (ref, arena) \<Rightarrow>
            if equal_refs ref
            then finish_ending w fx (Release Inconclusive ''slot payloads are not distinguishable (equal reference digests)'')
            else (case run_rounds cr w opts run_id ref [0..<ro_iterations opts] 0 arena of
                Inl e \<Rightarrow> finish_ending w fx e
              | Inr (failures, failing_overlap, most) \<Rightarrow> conc_finish w fx failures failing_overlap most)))"

definition exp_concurrent :: "crypto \<Rightarrow> rig_world \<Rightarrow> rig_options \<Rightarrow> string \<Rightarrow> rig_outcome" where
  "exp_concurrent cr w opts run_id =
     (case validate_geometry opts (ro_slots opts) of
        Inl why \<Rightarrow> no_fixture EnvError why
      | Inr g \<Rightarrow>
          let vis = rig_visibility (parse_mode (ro_mode opts)) (rw_ordering w);
              reg = rw_register w (ge_arena g);
              fx = fx_register reg fx_new
          in if ro_objects opts \<noteq> [] \<and> length (ro_objects opts) \<noteq> unat (ro_slots opts)
             then no_fixture EnvError ''--objects count must equal --slots''
             else if \<not> vi_trustworthy vis then no_fixture EnvError (''GPU visibility not qualified: '' @ vi_name vis)
             else if reg \<noteq> 0
             then leave_with (snd (fx_release (rw_deregister w) fx)) (Inr (EnvError, ''registration failed''))
             else conc_run cr w opts run_id fx (rw_fresh w (ge_arena g)))"

section \<open>Fixtures\<close>

lemma finish_ending_safe: "fx_held fx \<Longrightarrow> outcome_safe (finish_ending w fx e)"
  by (cases e) (simp_all add: finish_ending_def release_or_retain_safe)

lemma conc_finish_safe: "fx_held fx \<Longrightarrow> outcome_safe (conc_finish w fx failures failing most)"
  by (simp add: conc_finish_def release_or_retain_safe split: prod.split)

lemma conc_run_safe: "fx_held fx \<Longrightarrow> outcome_safe (conc_run cr w opts run_id fx arena)"
  by (simp add: conc_run_def finish_ending_safe conc_finish_safe split: sum.split prod.split)

lemma exp_concurrent_safe: "outcome_safe (exp_concurrent cr w opts run_id)"
proof -
  have "fx_inv (snd (fx_release rc (fx_register reg fx_new)))" for rc reg
    using fx_release_held [OF fx_register_held, of rc reg] by (cases "fx_release rc (fx_register reg fx_new)") (auto simp: fx_held_def split: if_splits)
  then show ?thesis
    by (simp add: exp_concurrent_def Let_def leave_with_safe conc_run_safe fx_register_held split: sum.split)
qed

section \<open>What the readings rest on\<close>

lemma equal_refs_distinct: "equal_refs ref \<longleftrightarrow> \<not> distinct ref"
proof -
  have "equal_refs ref \<longleftrightarrow> (\<exists>a b. a < b \<and> b < length ref \<and> ref ! a = ref ! b)"
    unfolding equal_refs_def list_ex_iff by (auto simp: Bex_def Suc_le_eq) (meson order.strict_trans)+
  also have "\<dots> \<longleftrightarrow> \<not> distinct ref"
  proof
    assume "\<exists>a b. a < b \<and> b < length ref \<and> ref ! a = ref ! b"
    then show "\<not> distinct ref" by (metis distinct_conv_nth less_trans nat_neq_iff)
  next
    assume "\<not> distinct ref"
    then obtain i j where "i < length ref" "j < length ref" "i \<noteq> j" "ref ! i = ref ! j" by (auto simp: distinct_conv_nth)
    then show "\<exists>a b. a < b \<and> b < length ref \<and> ref ! a = ref ! b" by (metis nat_neq_iff)
  qed
  finally show ?thesis .
qed

text \<open>A slot of a round as it should be: nothing outstanding, one callback with a qualified receipt, the full length returned,
  the reference payload in place and the poison around it intact.\<close>

definition slot_good :: "crypto \<Rightarrow> rig_world \<Rightarrow> rig_options \<Rightarrow> string \<Rightarrow> string list \<Rightarrow> nat \<Rightarrow> nat \<Rightarrow> string \<Rightarrow> bool" where
  "slot_good cr w opts run_id ref n k arena \<longleftrightarrow>
     settled (round_context cr w opts run_id (int n) k)
     \<and> native_ok opts (rw_return w (int n) k) (round_context cr w opts run_id (int n) k)
     \<and> read_slot cr w opts (int n) k (2 + word_of_nat n) arena = Inr (ref ! k, True)"

text \<open>A slot that counts against the library: not a failure of the probe itself, and a wrong return, callback count or receipt, or
  a wrong payload or guard.\<close>

definition slot_blamed :: "crypto \<Rightarrow> rig_world \<Rightarrow> rig_options \<Rightarrow> string \<Rightarrow> string list \<Rightarrow> nat \<Rightarrow> nat \<Rightarrow> bool" where
  "slot_blamed cr w opts run_id ref n k \<longleftrightarrow> \<not> rx_local_failure (round_context cr w opts run_id (int n) k)
     \<and> (\<not> native_ok opts (rw_return w (int n) k) (round_context cr w opts run_id (int n) k)
        \<or> (\<exists>arena d outside. read_slot cr w opts (int n) k (2 + word_of_nat n) arena = Inr (d, outside) \<and> \<not> (outside \<and> d = ref ! k)))"

lemma slot_context_fresh: "fresh_context (slot_context opts run_id k it get_id)"
  by (simp add: fresh_context_def slot_context_def new_context_def messages_def)

lemma round_context_inv: "cb_inv (round_context cr w opts run_id it k)"
  by (simp add: round_context_def run_inv slot_context_fresh)

lemma round_contexts_nth: "k < unat (ro_slots opts) \<Longrightarrow> round_contexts cr w opts run_id it ! k = round_context cr w opts run_id it k"
  by (simp add: round_contexts_def)

lemma observe_slots_failures:
  "observe_slots cr w opts ref it nonce ctxs arena ks failures l = (f, l', x) \<Longrightarrow> failures \<le> f"
proof (induction ks arbitrary: failures l)
  case (Cons k ks)
  then show ?case by (fastforce simp: Let_def split: if_splits sum.splits prod.splits)
qed simp

lemma observe_slots_clean:
  assumes "observe_slots cr w opts ref it nonce ctxs arena ks 0 l = (0, False, False)"
  shows "\<not> l" and "\<forall>k \<in> set ks. \<not> rx_local_failure (ctxs ! k) \<and> (\<exists>d outside. read_slot cr w opts it k nonce arena = Inr (d, outside)
      \<and> (native_fail w opts it ctxs k \<or> native_ok opts (rw_return w it k) (ctxs ! k) \<and> outside \<and> d = ref ! k))"
proof -
  have "\<not> l \<and> (\<forall>k \<in> set ks. \<not> rx_local_failure (ctxs ! k) \<and> (\<exists>d outside. read_slot cr w opts it k nonce arena = Inr (d, outside)
      \<and> (native_fail w opts it ctxs k \<or> native_ok opts (rw_return w it k) (ctxs ! k) \<and> outside \<and> d = ref ! k)))"
    using assms
  proof (induction ks arbitrary: l)
    case (Cons k ks)
    show ?case
    proof (cases "rx_local_failure (ctxs ! k)")
      case True
      with Cons show ?thesis by fastforce
    next
      case False
      then obtain d outside where r: "read_slot cr w opts it k nonce arena = Inr (d, outside)"
        using Cons.prems by (auto split: sum.splits)
      let ?bad = "\<not> (native_ok opts (rw_return w it k) (ctxs ! k) \<and> outside \<and> d = ref ! k) \<and> \<not> native_fail w opts it ctxs k"
      show ?thesis
      proof (cases ?bad)
        case True
        with Cons.prems False r have "observe_slots cr w opts ref it nonce ctxs arena ks 1 l = (0, False, False)" by (simp add: Let_def split: if_splits)
        from observe_slots_failures [OF this] show ?thesis by simp
      next
        case ok: False
        with Cons.prems False r have "observe_slots cr w opts ref it nonce ctxs arena ks 0 l = (0, False, False)" by (simp add: Let_def split: if_splits)
        with Cons.IH [of l] ok False r show ?thesis by auto
      qed
    qed
  qed simp
  then show "\<not> l" and "\<forall>k \<in> set ks. \<not> rx_local_failure (ctxs ! k) \<and> (\<exists>d outside. read_slot cr w opts it k nonce arena = Inr (d, outside)
      \<and> (native_fail w opts it ctxs k \<or> native_ok opts (rw_return w it k) (ctxs ! k) \<and> outside \<and> d = ref ! k))" by blast+
qed

lemma observe_slots_blame:
  assumes "observe_slots cr w opts ref it nonce ctxs arena ks failures l = (f, l', x)" "failures < f"
  shows "\<exists>k \<in> set ks. \<not> rx_local_failure (ctxs ! k) \<and> (\<exists>d outside. read_slot cr w opts it k nonce arena = Inr (d, outside)
      \<and> \<not> (native_ok opts (rw_return w it k) (ctxs ! k) \<and> outside \<and> d = ref ! k))"
  using assms
proof (induction ks arbitrary: failures l)
  case (Cons k ks)
  show ?case
  proof (cases "rx_local_failure (ctxs ! k)")
    case True
    with Cons show ?thesis by fastforce
  next
    case False
    show ?thesis
    proof (cases "read_slot cr w opts it k nonce arena")
      case (Inl e)
      with Cons.prems False show ?thesis by simp
    next
      case (Inr p)
      obtain d outside where p: "p = (d, outside)" by force
      show ?thesis
      proof (cases "native_ok opts (rw_return w it k) (ctxs ! k) \<and> outside \<and> d = ref ! k")
        case True
        with Cons.prems False Inr p have "observe_slots cr w opts ref it nonce ctxs arena ks failures l = (f, l', x)" by simp
        from Cons.IH [OF this Cons.prems(2)] show ?thesis by auto
      next
        case False
        with \<open>\<not> rx_local_failure (ctxs ! k)\<close> Inr p show ?thesis by auto
      qed
    qed
  qed
qed simp

lemma run_round_clean:
  assumes "run_round cr w opts run_id ref n arena = Inr (0, overlap, arena')"
  shows "overlap = round_overlap (round_contexts cr w opts run_id (int n))"
    and "\<forall>k < unat (ro_slots opts). slot_good cr w opts run_id ref n k arena'"
proof -
  let ?it = "int n" and ?ctxs = "round_contexts cr w opts run_id (int n)" and ?slots = "[0..<unat (ro_slots opts)]"
  let ?nf = "length (filter (native_fail w opts ?it ?ctxs) ?slots)"
  obtain f l x where o: "observe_slots cr w opts ref ?it (2 + word_of_nat n) ?ctxs arena' ?slots ?nf False = (f, l, x)"
    using prod_cases3 by blast
  have r: "\<not> list_ex (\<lambda>k. hold (rw_return w ?it k \<noteq> None) (?ctxs ! k)) ?slots" "overlap = round_overlap ?ctxs" "f = 0 \<and> \<not> l \<and> \<not> x"
    using assms o unfolding run_round_def by (auto simp: Let_def split: sum.splits if_splits prod.splits)
  then have "?nf = 0" using observe_slots_failures [OF o] by simp
  then have nn: "\<forall>k < unat (ro_slots opts). \<not> native_fail w opts ?it ?ctxs k" by (auto simp: filter_empty_conv)
  have clean: "observe_slots cr w opts ref ?it (2 + word_of_nat n) ?ctxs arena' ?slots 0 False = (0, False, False)"
    using o r(3) \<open>?nf = 0\<close> by simp
  show "overlap = round_overlap ?ctxs" by fact
  show "\<forall>k < unat (ro_slots opts). slot_good cr w opts run_id ref n k arena'"
  proof (intro allI impI)
    fix k assume k: "k < unat (ro_slots opts)"
    then have "\<not> hold (rw_return w ?it k \<noteq> None) (round_context cr w opts run_id ?it k)"
      using r(1) by (auto simp: list_ex_iff round_contexts_nth)
    moreover from this have "\<not> rx_evidence_lost (round_context cr w opts run_id ?it k)" by (simp add: hold_def)
    ultimately have "settled (round_context cr w opts run_id ?it k)" using settledI [OF round_context_inv] by blast
    with observe_slots_clean(2) [OF clean] nn k show "slot_good cr w opts run_id ref n k arena'"
      by (auto simp: slot_good_def round_contexts_nth)
  qed
qed

lemma run_round_failing:
  assumes "run_round cr w opts run_id ref n arena = Inr (f, overlap, arena')" "0 < f"
  shows "overlap = round_overlap (round_contexts cr w opts run_id (int n))"
    and "\<exists>k < unat (ro_slots opts). slot_blamed cr w opts run_id ref n k"
proof -
  let ?it = "int n" and ?ctxs = "round_contexts cr w opts run_id (int n)" and ?slots = "[0..<unat (ro_slots opts)]"
  let ?nf = "length (filter (native_fail w opts ?it ?ctxs) ?slots)"
  obtain f' l x where o: "observe_slots cr w opts ref ?it (2 + word_of_nat n) ?ctxs arena' ?slots ?nf False = (f', l, x)"
    using prod_cases3 by blast
  have r: "overlap = round_overlap ?ctxs" "f' = f"
    using assms o unfolding run_round_def by (auto simp: Let_def split: sum.splits if_splits prod.splits)
  show "overlap = round_overlap ?ctxs" by fact
  show "\<exists>k < unat (ro_slots opts). slot_blamed cr w opts run_id ref n k"
  proof (cases "?nf = 0")
    case True
    with observe_slots_blame [OF o] r(2) assms(2) obtain k d outside where "k < unat (ro_slots opts)" "\<not> rx_local_failure (?ctxs ! k)"
        "read_slot cr w opts ?it k (2 + word_of_nat n) arena' = Inr (d, outside)"
        "\<not> (native_ok opts (rw_return w ?it k) (?ctxs ! k) \<and> outside \<and> d = ref ! k)" by auto
    then show ?thesis unfolding slot_blamed_def by (metis round_contexts_nth)
  next
    case False
    then obtain k where "k < unat (ro_slots opts)" "native_fail w opts ?it ?ctxs k" by (auto simp: filter_empty_conv)
    then show ?thesis by (auto simp: native_fail_def slot_blamed_def round_contexts_nth)
  qed
qed

fun ending_verdict :: "ending \<Rightarrow> verdict" where
  "ending_verdict (Retain v d) = v"
| "ending_verdict (Release v d) = v"

lemma poison_round_ending:
  "poison_round cr w opts ref it nonce ks arena = Inl e \<Longrightarrow> ending_verdict e = EnvError \<or> ending_verdict e = Inconclusive"
  by (induction cr w opts ref it nonce ks arena rule: poison_round.induct) (auto split: sum.splits if_splits option.splits)

lemma unknown_reading_ending:
  assumes "ending_verdict (unknown_reading w opts (int n) (round_contexts cr w opts run_id (int n))) = Fail"
  shows "2 \<le> round_overlap (round_contexts cr w opts run_id (int n)) \<and> (\<exists>k < unat (ro_slots opts). slot_blamed cr w opts run_id ref n k)"
proof -
  let ?ctxs = "round_contexts cr w opts run_id (int n)"
  from assms obtain k where "k < length ?ctxs" "\<not> rx_local_failure (?ctxs ! k)"
      "case rw_return w (int n) k of None \<Rightarrow> False | Some v \<Rightarrow> v \<noteq> sint (ro_slot_bytes opts)" and o: "2 \<le> round_overlap ?ctxs"
    by (auto simp: unknown_reading_def Let_def list_ex_iff split: if_splits)
  then have "slot_blamed cr w opts run_id ref n k" "k < unat (ro_slots opts)"
    by (auto simp: slot_blamed_def native_ok_def round_contexts_def split: option.splits)
  with o show ?thesis by blast
qed

lemma run_round_ending:
  assumes "run_round cr w opts run_id ref n arena = Inl e"
  shows "ending_verdict e \<noteq> Pass"
    and "ending_verdict e = Fail \<Longrightarrow> 2 \<le> round_overlap (round_contexts cr w opts run_id (int n))
      \<and> (\<exists>k < unat (ro_slots opts). slot_blamed cr w opts run_id ref n k)"
proof -
  let ?it = "int n" and ?ctxs = "round_contexts cr w opts run_id (int n)" and ?slots = "[0..<unat (ro_slots opts)]"
  have np: "ending_verdict (unknown_reading w opts ?it ?ctxs) \<noteq> Pass" by (simp add: unknown_reading_def Let_def)
  consider "poison_round cr w opts ref ?it (2 + word_of_nat n) ?slots arena = Inl e" | "e = unknown_reading w opts ?it ?ctxs"
    | "ending_verdict e = EnvError"
    using assms unfolding run_round_def by (auto simp: Let_def split: sum.splits if_splits prod.splits)
  then have "ending_verdict e \<noteq> Pass \<and> (ending_verdict e = Fail \<longrightarrow> 2 \<le> round_overlap ?ctxs
      \<and> (\<exists>k < unat (ro_slots opts). slot_blamed cr w opts run_id ref n k))"
  proof cases
    case 1
    from poison_round_ending [OF this] show ?thesis by auto
  next
    case 2
    with np unknown_reading_ending [of w opts n cr run_id ref] show ?thesis by simp
  next
    case 3
    then show ?thesis by simp
  qed
  then show "ending_verdict e \<noteq> Pass" "ending_verdict e = Fail \<Longrightarrow> 2 \<le> round_overlap ?ctxs
      \<and> (\<exists>k < unat (ro_slots opts). slot_blamed cr w opts run_id ref n k)" by blast+
qed

lemma run_rounds_mono: "run_rounds cr w opts run_id ref ns most arena = Inr (f, failing, most') \<Longrightarrow> most \<le> most'"
proof (induction ns arbitrary: most arena)
  case (Cons n ns)
  then show ?case by (force split: sum.splits if_splits prod.splits)
qed simp

lemma run_rounds_clean:
  assumes "run_rounds cr w opts run_id ref ns most arena = Inr (0, failing, most')"
  shows "\<forall>n \<in> set ns. \<exists>arena'. \<forall>k < unat (ro_slots opts). slot_good cr w opts run_id ref n k arena'"
    and "most < most' \<Longrightarrow> \<exists>n \<in> set ns. round_overlap (round_contexts cr w opts run_id (int n)) = most'"
proof -
  have "(\<forall>n \<in> set ns. \<exists>arena'. \<forall>k < unat (ro_slots opts). slot_good cr w opts run_id ref n k arena')
      \<and> (most < most' \<longrightarrow> (\<exists>n \<in> set ns. round_overlap (round_contexts cr w opts run_id (int n)) = most'))"
    using assms
  proof (induction ns arbitrary: most arena)
    case (Cons n ns)
    then obtain overlap arena' where r: "run_round cr w opts run_id ref n arena = Inr (0, overlap, arena')"
        "run_rounds cr w opts run_id ref ns (max most overlap) arena' = Inr (0, failing, most')"
      by (auto split: sum.splits if_splits prod.splits)
    note c = run_round_clean [OF r(1)]
    have "most' = overlap \<or> max most overlap < most'" if "most < most'"
      using run_rounds_mono [OF r(2)] that by linarith
    with Cons.IH [OF r(2)] c show ?case by auto
  qed simp
  then show "\<forall>n \<in> set ns. \<exists>arena'. \<forall>k < unat (ro_slots opts). slot_good cr w opts run_id ref n k arena'"
    and "most < most' \<Longrightarrow> \<exists>n \<in> set ns. round_overlap (round_contexts cr w opts run_id (int n)) = most'" by blast+
qed

lemma run_rounds_failing:
  assumes "run_rounds cr w opts run_id ref ns most arena = Inr (f, failing, most')" "0 < f"
  shows "\<exists>n \<in> set ns. failing = round_overlap (round_contexts cr w opts run_id (int n))
    \<and> (\<exists>k < unat (ro_slots opts). slot_blamed cr w opts run_id ref n k)"
  using assms
proof (induction ns arbitrary: most arena)
  case (Cons n ns)
  from Cons.prems obtain f1 overlap arena' where r: "run_round cr w opts run_id ref n arena = Inr (f1, overlap, arena')"
    by (auto split: sum.splits)
  show ?case
  proof (cases "0 < f1")
    case True
    with Cons.prems r have "failing = overlap" by simp
    with run_round_failing [OF r True] show ?thesis by auto
  next
    case False
    with Cons.prems r have "run_rounds cr w opts run_id ref ns (max most overlap) arena' = Inr (f, failing, most')" by simp
    from Cons.IH [OF this Cons.prems(2)] show ?thesis by auto
  qed
qed simp

lemma run_rounds_ending:
  assumes "run_rounds cr w opts run_id ref ns most arena = Inl e"
  shows "\<exists>n arena. n \<in> set ns \<and> run_round cr w opts run_id ref n arena = Inl e"
  using assms
proof (induction ns arbitrary: most arena)
  case (Cons n ns)
  show ?case
  proof (cases "run_round cr w opts run_id ref n arena")
    case (Inl e')
    with Cons.prems show ?thesis by auto
  next
    case (Inr p)
    obtain f1 overlap arena' where "p = (f1, overlap, arena')" using prod_cases3 by blast
    with Inr Cons.prems have "run_rounds cr w opts run_id ref ns (max most overlap) arena' = Inl e" by (simp split: if_splits)
    from Cons.IH [OF this] show ?thesis by auto
  qed
qed simp

lemma ref_slot_ending: "ref_slot cr w opts run_id k arena = Inr (Inl e) \<Longrightarrow> ending_verdict e = EnvError \<or> ending_verdict e = Inconclusive"
  by (auto simp: ref_slot_def session_get_def bind_res_Inr Let_def split: option.splits if_splits prod.splits)

lemma reference_pass_ending:
  "reference_pass cr w opts run_id ks ref arena = Inl e \<Longrightarrow> ending_verdict e = EnvError \<or> ending_verdict e = Inconclusive"
proof (induction ks arbitrary: ref arena)
  case (Cons k ks)
  then show ?case by (auto split: sum.splits prod.splits dest: ref_slot_ending)
qed simp

lemma reference_pass_length:
  "reference_pass cr w opts run_id ks ref arena = Inr (ref', arena') \<Longrightarrow> length ref' = length ref + length ks"
proof (induction ks arbitrary: ref arena)
  case (Cons k ks)
  then show ?case by (fastforce split: sum.splits prod.splits)
qed simp

lemma finish_ending_result: "og_result (finish_ending w fx e) = Inr (v, d) \<Longrightarrow> v = ending_verdict e"
proof (cases e)
  case (Release u x)
  then show "og_result (finish_ending w fx e) = Inr (v, d) \<Longrightarrow> ?thesis"
    using release_or_retain_result [of w fx u x u "x @ ''; release failed; graph retained''"] by (auto simp: finish_ending_def)
qed (simp add: finish_ending_def)

lemma finish_ending_throws: "og_result (finish_ending w fx e) \<noteq> Inl x"
  by (cases e) (auto simp: finish_ending_def release_or_retain_def split: prod.split)

text \<open>The reading of a run that came to its end.\<close>

lemma exp_concurrent_run:
  assumes "og_result (exp_concurrent cr w opts run_id) = Inr (v, d)" "v \<noteq> EnvError"
  obtains g where "validate_geometry opts (ro_slots opts) = Inr g"
    "vi_trustworthy (rig_visibility (parse_mode (ro_mode opts)) (rw_ordering w))"
    "exp_concurrent cr w opts run_id = conc_run cr w opts run_id (fx_register 0 fx_new) (rw_fresh w (ge_arena g))"
  using assms that by (auto simp: exp_concurrent_def Let_def split: sum.splits if_splits)

lemma fx_release_registered: "fx_release rc (fx_register 0 fx_new) = (ok, fx) \<Longrightarrow> ok = (rc = 0)"
  by (auto simp: fx_release_def fx_register_def fx_new_def retain_now_def Let_def split: if_splits)

lemma conc_finish_pass:
  assumes "og_result (conc_finish w fx failures failing most) = Inr (Pass, d)" "fx_held fx"
  shows "failures = 0" "2 \<le> most" "outcome_freed (conc_finish w fx failures failing most)"
proof -
  obtain ok fx' where r: "fx_release (rw_deregister w) fx = (ok, fx')" by force
  show f: "failures = 0" "2 \<le> most"
    using assms(1) release_or_retain_verdict [of Inconclusive Pass Fail]
    by (auto simp: conc_finish_def final_reading_def split: if_splits)
  then have ok using assms(1) r by (auto simp: conc_finish_def final_reading_def release_or_retain_def split: if_splits)
  then show "outcome_freed (conc_finish w fx failures failing most)"
    using f r fx_release_held [OF assms(2) r] leave_with_freed [of fx']
    by (simp add: conc_finish_def final_reading_def release_or_retain_def)
qed

lemma conc_finish_fail:
  assumes "og_result (conc_finish w (fx_register 0 fx_new) failures failing most) = Inr (Fail, d)"
  shows "rw_deregister w \<noteq> 0 \<or> 0 < failures \<and> 2 \<le> failing"
proof -
  obtain ok fx' where r: "fx_release (rw_deregister w) (fx_register 0 fx_new) = (ok, fx')" by force
  from fx_release_registered [OF r] r assms show ?thesis
    by (auto simp: conc_finish_def final_reading_def release_or_retain_def split: if_splits)
qed

section \<open>Properties\<close>




section \<open>A concrete concurrent run\<close>

text \<open>Two slots of four bytes; the gateway delivers \<open>data\<close> and \<open>DATA\<close>, and the GET of
  the second slot returns \<open>ret\<close> in the round.\<close>

definition rig_demo_slots :: rig_options where
  "rig_demo_slots = demo_rig_options\<lparr>ro_exp := ''c'', ro_iterations := 1\<rparr>"

definition rig_demo_payload :: "nat \<Rightarrow> string" where
  "rig_demo_payload k = (if k = 0 then ''data'' else ''DATA'')"

definition rig_demo_gateway :: "int \<Rightarrow> rig_world" where
  "rig_demo_gateway ret = rig_demo_world\<lparr>rw_return := (\<lambda>it k. Some (if it = 0 \<and> k = 1 then ret else 4)), rw_landing := (\<lambda>_ k _ arena. poke arena (2 + 8 * k) (rig_demo_payload k)),
     rw_round := (\<lambda>_ arena. poke (poke arena 2 (rig_demo_payload 0)) 10 (rig_demo_payload 1))\<rparr>"

lemma rig_demo_slot_request:
  assumes "k = 0 \<or> k = 1"
  obtains target headers msg where
    "rig_request rig_demo_crypto rig_demo_env gateway_options (slot_context rig_demo_slots ''r'' k it i) ''10:1'' = Inr (target, headers)"
    "build_request (http_host_header ''h'' 80) target headers = Inr (msg, True)" "length msg \<le> 400"
proof -
  have "rig_request rig_demo_crypto rig_demo_env gateway_options (slot_context rig_demo_slots ''r'' k it i) ''10:1''
      = rig_request rig_demo_crypto rig_demo_env gateway_options (slot_context rig_demo_slots ''r'' k 0 0) ''10:1''"
    by (simp add: rig_request_def slot_context_def)
  moreover have "case rig_request rig_demo_crypto rig_demo_env gateway_options (slot_context rig_demo_slots ''r'' 0 0 0) ''10:1'' of
      Inl _ \<Rightarrow> False
    | Inr (target, headers) \<Rightarrow>
        (case build_request (http_host_header ''h'' 80) target headers of Inl _ \<Rightarrow> False | Inr (msg, tb) \<Rightarrow> tb \<and> length msg \<le> 400)"
    by code_simp
  moreover have "case rig_request rig_demo_crypto rig_demo_env gateway_options (slot_context rig_demo_slots ''r'' 1 0 0) ''10:1'' of
      Inl _ \<Rightarrow> False
    | Inr (target, headers) \<Rightarrow>
        (case build_request (http_host_header ''h'' 80) target headers of Inl _ \<Rightarrow> False | Inr (msg, tb) \<Rightarrow> tb \<and> length msg \<le> 400)"
    by code_simp
  ultimately have "case rig_request rig_demo_crypto rig_demo_env gateway_options (slot_context rig_demo_slots ''r'' k it i) ''10:1'' of
      Inl _ \<Rightarrow> False
    | Inr (target, headers) \<Rightarrow>
        (case build_request (http_host_header ''h'' 80) target headers of Inl _ \<Rightarrow> False | Inr (msg, tb) \<Rightarrow> tb \<and> length msg \<le> 400)"
    using assms by auto
  then obtain target headers where t: "rig_request rig_demo_crypto rig_demo_env gateway_options (slot_context rig_demo_slots ''r'' k it i) ''10:1''
      = Inr (target, headers)"
    and b: "case build_request (http_host_header ''h'' 80) target headers of Inl _ \<Rightarrow> False | Inr (msg, tb) \<Rightarrow> tb \<and> length msg \<le> 400"
    by (cases "rig_request rig_demo_crypto rig_demo_env gateway_options (slot_context rig_demo_slots ''r'' k it i) ''10:1''") auto
  from b obtain msg where "build_request (http_host_header ''h'' 80) target headers = Inr (msg, True)" "length msg \<le> 400"
    by (cases "build_request (http_host_header ''h'' 80) target headers") auto
  with t that show ?thesis by blast
qed

lemma rig_demo_slot_done:
  fixes k :: nat and it i :: int
  assumes "k = 0 \<or> k = 1"
  defines "c \<equiv> snd (rig_callbacks rig_demo_crypto [rig_demo_env] (slot_context rig_demo_slots ''r'' k it i))"
  shows "\<not> hold True c" "\<not> rx_local_failure c" "native_ok rig_demo_slots (Some 4) c" "get_interval c = [(1, 2)]"
proof -
  let ?c = "slot_context rig_demo_slots ''r'' k it i"
  obtain target headers msg where r:
    "rig_request rig_demo_crypto rig_demo_env gateway_options ?c ''10:1'' = Inr (target, headers)"
    "build_request (http_host_header ''h'' 80) target headers = Inr (msg, True)" "length msg \<le> 400"
    by (rule rig_demo_slot_request [OF assms(1)])
  have f: "rx_proto ?c = Some gateway_options" "\<not> rx_guard ?c" "rx_host ?c = ''h''" "rx_port ?c = 80" "unat (rx_expected ?c) = 4"
    "unat (rx_expected ?c) \<le> unat (cb_size rig_demo_env)" "\<not> rx_local_failure ?c"
    by (simp_all add: slot_context_def rig_demo_slots_def demo_rig_options_def default_rig_options_def new_context_def rig_demo_env_def)
  have c: "c = snd (rig_callback rig_demo_crypto rig_demo_env ?c)" by (simp add: c_def case_prod_beta Let_def)
  have b: "build_request (http_host_header (rx_host ?c) (rx_port ?c)) target headers = Inr (msg, True)" using r(2) f(3,4) by simp
  have g: "good_reply 2 0 6 (unat (rx_expected ?c)) rig_demo_reply" using rig_demo_good_reply f(5) by simp
  note good = good_callback [OF slot_context_fresh f(1) rig_demo_fields(2) f(2) rig_demo_fields(4,5,6) f(6) r(1) b
    rig_demo_delivers [OF r(3)] rig_demo_head(1) g rig_demo_head(2)]
  from good f(7) show "\<not> hold True c" "\<not> rx_local_failure c" by (simp_all add: c)
  from good show "native_ok rig_demo_slots (Some 4) c"
    by (auto simp: c native_ok_def rig_demo_slots_def demo_rig_fields)
  from good have "map (\<lambda>a. (at_t_begin a, at_t_end a)) (rx_attempts c) = [(1, 2)]"
    by (auto simp: c rig_demo_env_def)
  then show "get_interval c = [(1, 2)]" by (auto simp: get_interval_def)
qed

definition rig_demo_arena_ref :: "nat \<Rightarrow> string" where
  "rig_demo_arena_ref n = fold (\<lambda>k arena. poke (poison_cell arena (make_cell (word_of_nat k) 2 4) 1) (2 + 8 * k) (rig_demo_payload k))
     [0..<n] (replicate 16 CHR ''x'')"

definition rig_demo_arena_round :: "nat \<Rightarrow> string" where
  "rig_demo_arena_round n = fold (\<lambda>k arena. poison_cell arena (make_cell (word_of_nat k) 2 4) 2) [0..<n] (rig_demo_arena_ref 2)"

abbreviation rig_demo_digest :: "nat \<Rightarrow> string" where
  "rig_demo_digest k \<equiv> if k = 0 then ''64617461'' else ''44415441''"

lemma rig_demo_slots_fields: "ro_slots rig_demo_slots = 2" "ro_slot_bytes rig_demo_slots = 4" "ro_guard rig_demo_slots = 2" "ro_mode rig_demo_slots = ''host''"
    "ro_base_offset_api rig_demo_slots = False" "ro_iterations rig_demo_slots = 1" "ro_objects rig_demo_slots = []"
  by (simp_all add: rig_demo_slots_def demo_rig_options_def default_rig_options_def)

lemma rig_demo_gateway_fields: "rw_poison_error (rig_demo_gateway ret) it k = None" "rw_read_error (rig_demo_gateway ret) it k = None"
    "rw_envs (rig_demo_gateway ret) it k = [rig_demo_env]" "rw_return (rig_demo_gateway ret) it k = Some (if it = 0 \<and> k = 1 then ret else 4)" "rw_register (rig_demo_gateway ret) n = 0"
    "rw_deregister (rig_demo_gateway ret) = 0" "rw_threads_ok (rig_demo_gateway ret) it" "rw_callback_max (rig_demo_gateway ret) k m = 4096"
    "rw_fresh (rig_demo_gateway ret) m = replicate (unat m) CHR ''x''"
    "rw_landing (rig_demo_gateway ret) it k call arena = poke arena (2 + 8 * k) (rig_demo_payload k)"
    "rw_round (rig_demo_gateway ret) it arena = poke (poke arena 2 (rig_demo_payload 0)) 10 (rig_demo_payload 1)"
  by (simp_all add: rig_demo_gateway_def rig_demo_world_def)

abbreviation rig_demo_arena_done :: string where
  "rig_demo_arena_done \<equiv> poke (poke (rig_demo_arena_round 2) 2 (rig_demo_payload 0)) 10 (rig_demo_payload 1)"

lemma rig_demo_arenas:
  "rig_read (rig_demo_arena_ref 1) 2 4 = ''data''" "rig_read (rig_demo_arena_ref 2) 10 4 = ''DATA''"
  "rig_read rig_demo_arena_done 2 4 = ''data''" "rig_read rig_demo_arena_done 10 4 = ''DATA''"
  by code_simp+

lemma rig_demo_outsides:
  "poison_intact_outside (rig_demo_arena_ref 1) (make_cell 0 2 4) 4 1" "poison_intact_outside (rig_demo_arena_ref 2) (make_cell 1 2 4) 4 1"
  "poison_intact_outside rig_demo_arena_done (make_cell 0 2 4) 4 2" "poison_intact_outside rig_demo_arena_done (make_cell 1 2 4) 4 2"
  by code_simp+

lemma rig_demo_read:
  assumes "(k, nonce, arena) \<in> {(0, 1, rig_demo_arena_ref 1), (1, 1, rig_demo_arena_ref 2), (0, 2, rig_demo_arena_done), (1, 2, rig_demo_arena_done)}"
  shows "read_slot rig_demo_crypto (rig_demo_gateway ret) rig_demo_slots it k nonce arena = Inr (rig_demo_digest k, True)"
proof -
  have h: "sha256_hex (cr_sha256 rig_demo_crypto) ''data'' = Inr ''64617461''" "sha256_hex (cr_sha256 rig_demo_crypto) ''DATA'' = Inr ''44415441''"
    by code_simp+
  have c: "make_cell (word_of_nat k) 2 4 = (if k = 0 then make_cell 0 2 4 else make_cell 1 2 4)"
    "ce_payload (make_cell 0 2 4) = 2" "ce_payload (make_cell 1 2 4) = 10"
    using assms by (auto simp: make_cell_def)
  show ?thesis
    using assms rig_demo_arenas rig_demo_outsides h
    by (auto simp: read_slot_def rig_demo_gateway_fields slot_cell_def rig_demo_slots_fields c)
qed

lemma rig_demo_poison:
  assumes "k = 0 \<or> k = 1" "nonce = 1 \<or> nonce = 2"
  obtains pd where "payload_poison_digest (cr_sha256 rig_demo_crypto) (slot_cell rig_demo_slots k) 4 nonce = Inr pd" "pd \<noteq> rig_demo_digest k"
proof -
  have c: "slot_cell rig_demo_slots k = (if k = 0 then make_cell 0 2 4 else make_cell 1 2 4)"
    using assms(1) by (auto simp: slot_cell_def rig_demo_slots_fields)
  have "payload_poison_digest (cr_sha256 rig_demo_crypto) (make_cell 0 2 4) 4 1 \<noteq> Inr ''64617461''"
    "payload_poison_digest (cr_sha256 rig_demo_crypto) (make_cell 0 2 4) 4 2 \<noteq> Inr ''64617461''"
    "payload_poison_digest (cr_sha256 rig_demo_crypto) (make_cell 1 2 4) 4 1 \<noteq> Inr ''44415441''"
    "payload_poison_digest (cr_sha256 rig_demo_crypto) (make_cell 1 2 4) 4 2 \<noteq> Inr ''44415441''"
    by code_simp+
  then have "payload_poison_digest (cr_sha256 rig_demo_crypto) (slot_cell rig_demo_slots k) 4 nonce \<noteq> Inr (rig_demo_digest k)"
    using assms unfolding c by auto
  moreover have "\<exists>pd. payload_poison_digest (cr_sha256 rig_demo_crypto) (slot_cell rig_demo_slots k) 4 nonce = Inr pd"
    by (simp add: payload_poison_digest_def sha256_hex_def rig_demo_crypto_def)
  ultimately show ?thesis using that by auto
qed

lemma rig_demo_cell: "k = 0 \<or> k = 1 \<Longrightarrow> slot_cell rig_demo_slots k = make_cell (word_of_nat k) 2 4"
  by (simp add: slot_cell_def rig_demo_slots_fields)

lemma rig_demo_ref_slot:
  assumes "k = 0 \<or> k = 1"
  shows "ref_slot rig_demo_crypto (rig_demo_gateway ret) rig_demo_slots ''r'' k (rig_demo_arena_ref k)
    = Inr (Inr (rig_demo_digest k, rig_demo_arena_ref (Suc k)))"
proof -
  let ?w = "rig_demo_gateway ret"
  let ?ctx = "snd (rig_callbacks rig_demo_crypto [rig_demo_env] (slot_context rig_demo_slots ''r'' k (-1) (int k + 1)))"
  obtain pd where pd: "payload_poison_digest (cr_sha256 rig_demo_crypto) (slot_cell rig_demo_slots k) 4 1 = Inr pd" "pd \<noteq> rig_demo_digest k"
    using rig_demo_poison [OF assms, of 1] by auto
  have step: "poke (poison_cell (rig_demo_arena_ref k) (slot_cell rig_demo_slots k) 1) (2 + 8 * k) (rig_demo_payload k) = rig_demo_arena_ref (Suc k)"
    by (simp add: rig_demo_arena_ref_def rig_demo_cell [OF assms])
  have get: "session_get rig_demo_crypto ?w False (-1) k (slot_context rig_demo_slots ''r'' k (-1) (int k + 1)) m n
      (poison_cell (rig_demo_arena_ref k) (slot_cell rig_demo_slots k) 1) = (Some 4, ?ctx, rig_demo_arena_ref (Suc k))" for m n
    unfolding session_get_def rig_demo_gateway_fields step by simp
  have read: "read_slot rig_demo_crypto ?w rig_demo_slots (-1) k 1 (rig_demo_arena_ref (Suc k)) = Inr (rig_demo_digest k, True)"
    using assms by (intro rig_demo_read) (auto simp: numeral_2_eq_2)
  show ?thesis
    using rig_demo_slot_done [OF assms, of "-1" "int k + 1"] pd read
    by (simp add: ref_slot_def rig_demo_gateway_fields rig_demo_slots_fields get Let_def)
qed

lemma rig_demo_reference:
  "reference_pass rig_demo_crypto (rig_demo_gateway ret) rig_demo_slots ''r'' [0..<2] [] (replicate 16 CHR ''x'')
   = Inr ([''64617461'', ''44415441''], rig_demo_arena_ref 2)"
proof -
  have "rig_demo_arena_ref 0 = replicate 16 CHR ''x''" by (simp add: rig_demo_arena_ref_def)
  then show ?thesis
    using rig_demo_ref_slot [of 0 ret] rig_demo_ref_slot [of 1 ret] by (simp add: numeral_2_eq_2 upt_conv_Cons)
qed

lemma rig_demo_poisoned:
  "poison_round rig_demo_crypto (rig_demo_gateway ret) rig_demo_slots [''64617461'', ''44415441''] 0 2 [0..<2] (rig_demo_arena_ref 2)
   = Inr (rig_demo_arena_round 2)"
proof -
  have two: "[0..<2] = [0, 1 :: nat]" by (simp add: upt_conv_Cons)
  obtain p where p: "payload_poison_digest (cr_sha256 rig_demo_crypto) (slot_cell rig_demo_slots 0) 4 2 = Inr p" "p \<noteq> ''64617461''"
    by (rule rig_demo_poison [of 0 2]) simp_all
  obtain q where q: "payload_poison_digest (cr_sha256 rig_demo_crypto) (slot_cell rig_demo_slots 1) 4 2 = Inr q" "q \<noteq> ''44415441''"
    by (rule rig_demo_poison [of 1 2]) simp_all
  have "rig_demo_arena_round 2 = poison_cell (poison_cell (rig_demo_arena_ref 2) (slot_cell rig_demo_slots 0) 2) (slot_cell rig_demo_slots 1) 2"
    unfolding rig_demo_arena_round_def two by (simp add: rig_demo_cell)
  with p q show ?thesis unfolding two by (simp add: rig_demo_gateway_fields rig_demo_slots_fields)
qed

lemma rig_demo_round_context:
  assumes "k = 0 \<or> k = 1"
  shows "\<not> hold True (round_context rig_demo_crypto (rig_demo_gateway ret) rig_demo_slots ''r'' it k)"
    "\<not> rx_local_failure (round_context rig_demo_crypto (rig_demo_gateway ret) rig_demo_slots ''r'' it k)"
    "native_ok rig_demo_slots (Some 4) (round_context rig_demo_crypto (rig_demo_gateway ret) rig_demo_slots ''r'' it k)"
    "get_interval (round_context rig_demo_crypto (rig_demo_gateway ret) rig_demo_slots ''r'' it k) = [(1, 2)]"
  unfolding round_context_def rig_demo_gateway_fields by (rule rig_demo_slot_done [OF assms])+

lemma rig_demo_round:
  "run_round rig_demo_crypto (rig_demo_gateway ret) rig_demo_slots ''r'' [''64617461'', ''44415441''] 0 (rig_demo_arena_ref 2)
   = Inr (if ret = 4 then 0 else 1, 2, rig_demo_arena_done)"
proof -
  let ?w = "rig_demo_gateway ret"
  have two: "[0..<2] = [0, 1 :: nat]" by (simp add: upt_conv_Cons)
  have c: "round_contexts rig_demo_crypto ?w rig_demo_slots ''r'' 0 = [round_context rig_demo_crypto ?w rig_demo_slots ''r'' 0 0,
      round_context rig_demo_crypto ?w rig_demo_slots ''r'' 0 1]"
    by (simp add: round_contexts_def rig_demo_slots_fields two)
  note ctx = rig_demo_round_context [of 0 ret 0] rig_demo_round_context [of 1 ret 0]
  have second: "native_ok rig_demo_slots (Some ret) (round_context rig_demo_crypto ?w rig_demo_slots ''r'' 0 1) \<longleftrightarrow> ret = 4"
    using ctx(7) by (auto simp: native_ok_def rig_demo_slots_fields)
  have overlap: "round_overlap (round_contexts rig_demo_crypto ?w rig_demo_slots ''r'' 0) = 2"
    using ctx(4,8) by (simp add: round_overlap_def c max_overlap_def interval_events_def insort_key.simps)
  have "read_slot rig_demo_crypto ?w rig_demo_slots 0 0 2 rig_demo_arena_done = Inr (''64617461'', True)"
    "read_slot rig_demo_crypto ?w rig_demo_slots 0 1 2 rig_demo_arena_done = Inr (''44415441'', True)"
    using rig_demo_read [of 0 2] rig_demo_read [of 1 2] by simp_all
  then show ?thesis
    using rig_demo_poisoned [of ret, unfolded two] ctx second overlap [unfolded c]
    by (simp add: run_round_def rig_demo_slots_fields rig_demo_gateway_fields c two native_fail_def Let_def del: poison_round.simps)
qed

lemma rig_demo_concurrent:
  "exp_concurrent rig_demo_crypto (rig_demo_gateway ret) rig_demo_slots ''r'' =
     conc_finish (rig_demo_gateway ret) (fx_register 0 fx_new) (if ret = 4 then 0 else 1) (if ret = 4 then 0 else 2) 2"
proof -
  let ?w = "rig_demo_gateway ret"
  have g: "validate_geometry rig_demo_slots 2 = Inr \<lparr>ge_cell = 8, ge_arena = 16, ge_expected = 4\<rparr>"
    by (simp add: rig_demo_slots_def validate_geometry_def demo_rig_options_def default_rig_options_def kSsizeMax_def kMaxReg_def
        geometry_arena_def checked_mul_def checked_add_def request_start_def request_end_def)
  have cap: "\<not> capacity_short ?w rig_demo_slots"
    by (simp add: capacity_short_def rig_demo_slots_fields callback_max_def rig_demo_gateway_fields list_ex_iff)
  have "\<not> equal_refs [''64617461'', ''44415441'']" by code_simp
  then have "conc_run rig_demo_crypto ?w rig_demo_slots ''r'' (fx_register 0 fx_new) (replicate 16 CHR ''x'') 
      = conc_finish ?w (fx_register 0 fx_new) (if ret = 4 then 0 else 1) (if ret = 4 then 0 else 2) 2"
    using cap rig_demo_reference [of ret] rig_demo_round [of ret] by (simp add: conc_run_def rig_demo_slots_fields)
  then show ?thesis
    by (simp add: exp_concurrent_def rig_demo_slots_fields rig_demo_gateway_fields g rig_visibility_def parse_mode_def Let_def)
qed



end
