(* ===== verification/Rig_Main.thy ===== *)
theory Rig_Main
  imports Rig_Concurrent
begin

text \<open>
  The end of \<^verbatim>\<open>probe/rig_probe_main.cpp\<close>: the exit experiment, whose parent starts the program again with
  \<^verbatim>\<open>--child\<close> and judges how the child ends, and \<^verbatim>\<open>main\<close>. A process is described by its environment variables, the
  outside world of \<^theory_text>\<open>Rig_Single\<close>, the answers of the operating system to the parent, and the state of standard output when the
  closing record is written, with the outcome of that record's own output calls. Memory is taken to suffice for
  the closing record.
\<close>

section \<open>The exit experiment\<close>

text \<open>What \<^verbatim>\<open>waitpid\<close> gives: the child's status, nothing yet (0, or interrupted), or another error.\<close>

datatype wait_status = Exited int | Signaled int

datatype poll = Reaped wait_status | Running | Wait_error nat

text \<open>A polling loop over the answers given before its deadline.\<close>

fun poll_child :: "poll list \<Rightarrow> poll" where
  "poll_child [] = Running"
| "poll_child (Running # ps) = poll_child ps"
| "poll_child (p # ps) = p"

record exit_os =
  os_readlink :: int
  os_fork :: int
  os_polls :: "poll list"
  os_reaps :: "poll list"

definition exit_reading :: "bool \<Rightarrow> wait_status \<Rightarrow> verdict \<times> string" where
  "exit_reading abrupt st =
     (if st = Exited 127 then (EnvError, ''child exec failed'')
      else if st = Exited 3 then (EnvError, ''child could not set up (see stderr)'')
      else if st = Exited 1 then (Inconclusive, ''child GET not known-complete; no exit claim'')
      else if st = Exited 5 then (Inconclusive, ''child evidence output failed; exit path not qualified'')
      else if st = Exited 0
      then (if abrupt then (Inconclusive, ''abrupt-exit observation (not normal-exit qualification)'')
            else (Pass, ''normal return with retained graph, exit 0; run the post-run health check separately''))
      else (Fail, ''child crashed or failed on the exit path''))"

definition exp_exit :: "(nat \<Rightarrow> string) \<Rightarrow> exit_os \<Rightarrow> rig_options \<Rightarrow> verdict \<times> string" where
  "exp_exit strerror os opts =
     (if os_readlink os \<le> 0 then (EnvError, ''cannot resolve /proc/self/exe'')
      else if os_fork os < 0 then (EnvError, ''fork failed'')
      else (case poll_child (os_polls os) of
          Wait_error e \<Rightarrow> (EnvError, ''waitpid failed: '' @ strerror e)
        | Running \<Rightarrow>
            (Fail, case poll_child (os_reaps os) of
               Reaped _ \<Rightarrow> ''child did not exit within the deadline (killed; abnormal evidence)''
             | _ \<Rightarrow> ''child did not exit and could not be reaped; unresolved (pid recorded)'')
        | Reaped st \<Rightarrow> exit_reading (ro_abrupt opts) st))"

definition child_context :: "rig_options \<Rightarrow> string \<Rightarrow> rig_context" where
  "child_context opts run_id = new_context\<lparr>rx_proto := Some (ro_proto opts), rx_run_id := run_id, rx_get_id := 1,
     rx_who := ''exit-child'', rx_host := ro_host opts, rx_port := ro_port opts,
     rx_path := ''/'' @ ro_bucket opts @ ''/'' @ ro_object opts,
     rx_range := ''bytes=0-'' @ to_string (unat (ro_slot_bytes opts - 1)), rx_expected := ro_slot_bytes opts\<rparr>"

definition child_complete :: "rig_options \<Rightarrow> int option \<Rightarrow> rig_context \<Rightarrow> bool" where
  "child_complete opts ret ctx \<longleftrightarrow> ret = Some (sint (ro_slot_bytes opts)) \<and> \<not> rx_unknown ctx \<and> \<not> rx_evidence_lost ctx
     \<and> rx_invocations ctx = 1 \<and> length (rx_attempts ctx) = 1 \<and> at_qualified_complete (hd (rx_attempts ctx))"

text \<open>The GET of the child, and the child: its exit status, the fixture it leaves behind on purpose, and the output.\<close>

definition child_get :: "crypto \<Rightarrow> rig_world \<Rightarrow> rig_options \<Rightarrow> string \<Rightarrow> int option \<times> rig_context \<times> string" where
  "child_get cr w opts run_id =
     (let c = make_cell 0 (ro_guard opts) (ro_slot_bytes opts)
      in session_get cr w (ro_base_offset_api opts) (-1) 0 (child_context opts run_id) (ce_payload c) (ro_slot_bytes opts)
           (rw_fresh w (ce_size c)))"

definition exp_exit_child ::
  "crypto \<Rightarrow> rig_world \<Rightarrow> rig_options \<Rightarrow> string \<Rightarrow> bool \<Rightarrow> bool \<Rightarrow> jsonl_state \<Rightarrow> nat \<times> fixture option \<times> jsonl_state" where
  "exp_exit_child cr w opts run_id printed flushed s =
     (case validate_geometry opts 1 of
        Inl why \<Rightarrow> (3, None, s)
      | Inr g \<Rightarrow>
          let vis = rig_visibility (parse_mode (ro_mode opts)) (rw_ordering w);
              reg = rw_register w (ce_size (make_cell 0 (ro_guard opts) (ro_slot_bytes opts)));
              fx = fx_register reg fx_new
          in if \<not> vi_trustworthy vis then (3, None, s)
             else if reg \<noteq> 0 then (3, Some fx, s)
             else
               (case child_get cr w opts run_id of
                  (ret, ctx, arena) \<Rightarrow>
                    if \<not> child_complete opts ret ctx then (if jl_output_failed s then 5 else 1, Some fx, s)
                    else
                      let s = rec_emit printed flushed
                            (rec_str ''retained'' ''arena,session,registration''
                              (rec_str ''path'' (if ro_abrupt opts then ''_exit'' else ''return_from_main'') (rec_new ''child_exit''))) s
                      in (if jl_output_failed s then 5 else 0, Some fx, s)))"

section \<open>The program\<close>

record rig_process =
  rp_getenv :: "string \<Rightarrow> string option"
  rp_run_id :: string
  rp_device_ok :: bool
  rp_world :: rig_world
  rp_os :: exit_os
  rp_output :: jsonl_state
  rp_printed :: bool
  rp_flushed :: bool

definition rig_finish :: "rig_process \<Rightarrow> verdict \<times> string \<Rightarrow> nat \<times> jsonl_state" where
  "rig_finish p r = finish (rp_printed p) (rp_flushed p) (fst r) (snd r) (rp_output p)"

definition unhandled_line :: string where
  "unhandled_line = ''{'' @ [DQ] @ ''event'' @ [DQ] @ '':'' @ [DQ] @ ''result'' @ [DQ] @ '','' @ [DQ] @ ''verdict'' @ [DQ]
     @ '':'' @ [DQ] @ ''ENV_ERROR'' @ [DQ] @ '','' @ [DQ] @ ''detail'' @ [DQ] @ '':'' @ [DQ]
     @ ''unhandled experiment exception; evidence incomplete'' @ [DQ] @ '','' @ [DQ] @ ''evidence_output_failed''
     @ [DQ] @ '':true}'' @ [LF]"

definition rig_conclude_main :: "rig_process \<Rightarrow> rig_outcome \<Rightarrow> nat \<times> jsonl_state" where
  "rig_conclude_main p oc = (case og_result oc of
      Inl e \<Rightarrow> (3, (rp_output p)\<lparr>jl_stdout := jl_stdout (rp_output p) @ unhandled_line\<rparr>)
    | Inr r \<Rightarrow> rig_finish p r)"

text \<open>The experiments that need the device and report a reading.\<close>

definition rig_experiment :: "crypto \<Rightarrow> rig_world \<Rightarrow> rig_options \<Rightarrow> string \<Rightarrow> rig_outcome" where
  "rig_experiment cr w opts run_id =
     (if ro_exp opts = ''reg'' then exp_reg w opts
      else if ro_exp opts = ''diag'' then exp_single_get cr w opts False run_id
      else if ro_exp opts = ''rt-guard'' then exp_single_get cr w opts True run_id
      else exp_concurrent cr w opts run_id)"

definition rig_prevalidate :: "rig_options \<Rightarrow> string option" where
  "rig_prevalidate opts =
     (if ro_exp opts = ''reg''
      then (if reg_bytes opts = None then Some ''W*S invalid or exceeds CUOBJ_MAX_MEMORY_REG_SIZE'' else None)
      else (case validate_geometry opts (if ro_exp opts = ''c'' then ro_slots opts else 1) of Inl why \<Rightarrow> Some why | Inr _ \<Rightarrow> None))"

definition rig_dispatch :: "crypto \<Rightarrow> rig_process \<Rightarrow> rig_options \<Rightarrow> nat \<times> jsonl_state" where
  "rig_dispatch cr p opts =
     (let exp = ro_exp opts in
      if exp = ''exit'' \<and> \<not> ro_child opts then rig_finish p (exp_exit (cr_strerror cr) (rp_os p) opts)
      else if exp = ''attr'' then rig_conclude_main p (exp_attr (rp_world p))
      else if exp \<noteq> ''reg'' \<and> exp \<noteq> ''diag'' \<and> exp \<noteq> ''rt-guard'' \<and> exp \<noteq> ''c'' \<and> exp \<noteq> ''exit'' then (2, rp_output p)
      else (case rig_prevalidate opts of
          Some why \<Rightarrow> rig_finish p (EnvError, why)
        | None \<Rightarrow>
            if \<not> rp_device_ok p then rig_finish p (EnvError, ''cudaSetDevice(0) failed'')
            else if exp = ''exit''
            then (case exp_exit_child cr (rp_world p) opts (rp_run_id p) (rp_printed p) (rp_flushed p) (rp_output p) of
                    (code, fx, s) \<Rightarrow> (code, s))
            else rig_conclude_main p (rig_experiment cr (rp_world p) opts (rp_run_id p))))"

definition rig_main :: "crypto \<Rightarrow> rig_process \<Rightarrow> string list \<Rightarrow> nat \<times> jsonl_state" where
  "rig_main cr p argv = (case rig_parse_args argv of
      None \<Rightarrow> (2, rp_output p)
    | Some opts \<Rightarrow>
        (case finish_protocol_options (rp_getenv p) (ro_proto opts) of
           None \<Rightarrow> rig_finish p (EnvError, ''--auth sigv4 needs AWS_ACCESS_KEY_ID and AWS_SECRET_ACCESS_KEY in the environment'')
         | Some proto \<Rightarrow> rig_dispatch cr p (opts\<lparr>ro_proto := proto\<rparr>)))"

section \<open>Exit codes\<close>

lemma finish_exit_zero:
  "fst (finish printed flushed v d s) = 0 \<longleftrightarrow> v = Pass \<and> \<not> jl_output_failed s \<and> printed \<and> flushed"
  by (auto simp: finish_def rec_emit_def verdict_exit_def Let_def split: verdict.split)

lemma finish_codes: "fst (finish printed flushed v d s) \<in> {0, 1, 3, 4}"
  by (auto simp: finish_def verdict_exit_def Let_def split: verdict.split)

definition pass_line :: "string \<Rightarrow> string" where
  "pass_line d = ''{'' @ c_str (rec_boolean ''evidence_output_failed'' False
      (rec_str ''detail'' d (rec_str ''verdict'' ''PASS'' (rec_new ''result'')))) @ ''}'' @ [LF]"

lemma rig_finish_zero:
  "rig_finish p r = (0, s) \<longleftrightarrow> fst r = Pass \<and> \<not> jl_output_failed (rp_output p) \<and> rp_printed p \<and> rp_flushed p
     \<and> s = (rp_output p)\<lparr>jl_stdout := jl_stdout (rp_output p) @ pass_line (snd r)\<rparr>"
proof -
  have "fst (rig_finish p r) = 0 \<longleftrightarrow> fst r = Pass \<and> \<not> jl_output_failed (rp_output p) \<and> rp_printed p \<and> rp_flushed p"
    by (simp add: rig_finish_def finish_exit_zero)
  moreover have "snd (rig_finish p r) = (rp_output p)\<lparr>jl_stdout := jl_stdout (rp_output p) @ pass_line (snd r)\<rparr>"
    if "fst r = Pass" "\<not> jl_output_failed (rp_output p)" "rp_printed p" "rp_flushed p"
    using that by (simp add: rig_finish_def finish_def rec_emit_def pass_line_def verdict_string_def Let_def)
  ultimately show ?thesis by (cases "rig_finish p r") auto
qed

lemma rig_conclude_zero:
  "rig_conclude_main p oc = (0, s) \<longleftrightarrow> (\<exists>d. og_result oc = Inr (Pass, d) \<and> \<not> jl_output_failed (rp_output p) \<and> rp_printed p
     \<and> rp_flushed p \<and> s = (rp_output p)\<lparr>jl_stdout := jl_stdout (rp_output p) @ pass_line d\<rparr>)"
  by (auto simp: rig_conclude_main_def rig_finish_zero split: sum.split)

lemma exp_exit_pass:
  assumes "exp_exit strerror os opts = (Pass, d)"
  shows "poll_child (os_polls os) = Reaped (Exited 0)" "\<not> ro_abrupt opts"
  using assms by (auto simp: exp_exit_def exit_reading_def split: if_splits poll.splits)

lemma exp_exit_child_zero:
  assumes "exp_exit_child cr w opts run_id printed flushed s = (0, fx, s')" "child_get cr w opts run_id = (ret, ctx, arena)"
  shows "child_complete opts ret ctx" "fx = Some (fx_register 0 fx_new)" "\<not> jl_output_failed s'" "printed" "flushed"
  using assms by (auto simp: exp_exit_child_def rec_emit_def Let_def split: sum.splits if_splits)

section \<open>The child's command line\<close>

lemma protocol_flag_more:
  assumes "parse_protocol_flag a (case args of [] \<Rightarrow> None | v # _ \<Rightarrow> Some v) proto = (f, proto')" "pf_matched f" "pf_ok f"
  shows "parse_protocol_flag a (case args @ extra of [] \<Rightarrow> None | v # _ \<Rightarrow> Some v) proto = (f, proto')"
    "pf_used_value f \<Longrightarrow> args \<noteq> []"
  using assms by (cases args; auto simp: parse_protocol_flag_def Let_def split: if_splits option.splits list.splits)+

lemma rig_value_more: "rig_value args f = Some (o', rest) \<Longrightarrow> rig_value (args @ extra) f = Some (o', rest @ extra)"
  by (auto simp: rig_value_Some)

lemma rig_option_more:
  assumes "rig_option opts a args = Some (opts', rest)"
  shows "rig_option opts a (args @ extra) = Some (opts', rest @ extra)"
proof (cases "a \<in> {''--exp'', ''--server'', ''--bucket'', ''--object'', ''--objects'', ''--mode'', ''--slot-bytes'', ''--slots'', ''--guard'',
    ''--landing-api'', ''--range'', ''--expected-bytes'', ''--case'', ''--class'', ''--expect-sha'', ''--guard-mode'', ''--iterations'',
    ''--deadline-s'', ''--abrupt'', ''--child''}")
  case True
  then show ?thesis using assms unfolding rig_option_def by (elim insertE) (simp_all add: rig_value_more)
next
  case False
  obtain f proto where f: "parse_protocol_flag a (case args of [] \<Rightarrow> None | v # _ \<Rightarrow> Some v) (ro_proto opts) = (f, proto)" by fastforce
  with False assms have r: "pf_matched f" "pf_ok f" "opts' = opts\<lparr>ro_proto := proto\<rparr>" "rest = (if pf_used_value f then drop 1 args else args)"
    by (auto simp: rig_option_def split: if_splits)
  note more = protocol_flag_more [OF f r(1,2)]
  from False more(1) [of extra] r more(2) show ?thesis by (cases args) (auto simp: rig_option_def)
qed

lemma rig_option_loop_child:
  "rig_option_loop opts args = Some o' \<Longrightarrow> rig_option_loop opts (args @ [''--child'']) = Some (o'\<lparr>ro_child := True\<rparr>)"
proof (induction opts args rule: rig_option_loop.induct)
  case (1 opts)
  then show ?case by (simp add: rig_option_def)
next
  case (2 opts a args)
  then show ?case by (auto simp: rig_option_more split: option.splits)
qed

lemma rig_parse_child:
  assumes "rig_parse_args argv = Some opts"
  shows "rig_parse_args (argv @ [''--child'']) = Some (opts\<lparr>ro_child := True\<rparr>)"
proof -
  obtain o' where "rig_option_loop default_rig_options argv = Some o'" using assms by (auto simp: rig_parse_args_def split: option.splits)
  with assms show ?thesis by (auto simp: rig_parse_args_def rig_option_loop_child Let_def split: if_splits)
qed

section \<open>What an exit status of 0 needs\<close>

lemma rig_main_zero:
  assumes "rig_main cr p argv = (0, s)"
  obtains opts proto where "rig_parse_args argv = Some opts" "finish_protocol_options (rp_getenv p) (ro_proto opts) = Some proto"
    "rig_dispatch cr p (opts\<lparr>ro_proto := proto\<rparr>) = (0, s)"
  using assms by (auto simp: rig_main_def rig_finish_zero split: option.splits)

lemma rig_dispatch_child:
  assumes "rig_dispatch cr p opts = (0, s)" "ro_exp opts = ''exit''" "ro_child opts"
  obtains fx where "exp_exit_child cr (rp_world p) opts (rp_run_id p) (rp_printed p) (rp_flushed p) (rp_output p) = (0, fx, s)"
  using assms by (auto simp: rig_dispatch_def rig_finish_zero Let_def split: if_splits option.splits prod.splits)

text \<open>The experiment the options name ended in a PASS with detail \<open>d\<close>.\<close>

definition experiment_passed :: "crypto \<Rightarrow> rig_process \<Rightarrow> rig_options \<Rightarrow> string \<Rightarrow> bool" where
  "experiment_passed cr p opts d \<longleftrightarrow>
     (if ro_exp opts = ''exit'' then exp_exit (cr_strerror cr) (rp_os p) opts = (Pass, d)
      else if ro_exp opts = ''attr'' then og_result (exp_attr (rp_world p)) = Inr (Pass, d)
      else ro_exp opts \<in> {''reg'', ''diag'', ''rt-guard'', ''c''} \<and> rp_device_ok p
        \<and> og_result (rig_experiment cr (rp_world p) opts (rp_run_id p)) = Inr (Pass, d))"

lemma rig_dispatch_reports:
  assumes "rig_dispatch cr p opts = (0, s)" "\<not> (ro_exp opts = ''exit'' \<and> ro_child opts)"
  obtains d where "\<not> jl_output_failed (rp_output p)" "rp_printed p" "rp_flushed p"
    "s = (rp_output p)\<lparr>jl_stdout := jl_stdout (rp_output p) @ pass_line d\<rparr>"
    "experiment_passed cr p opts d"
proof (cases "ro_exp opts = ''exit''")
  case True
  with assms have "rig_finish p (exp_exit (cr_strerror cr) (rp_os p) opts) = (0, s)" by (simp add: rig_dispatch_def)
  with True that show ?thesis by (cases "exp_exit (cr_strerror cr) (rp_os p) opts") (simp add: rig_finish_zero experiment_passed_def)
next
  case False
  with assms that show ?thesis
    by (auto simp: experiment_passed_def rig_dispatch_def rig_finish_zero rig_conclude_zero Let_def split: if_splits option.splits)
qed

lemma child_context_fresh: "fresh_context (child_context opts run_id)"
  by (simp add: fresh_context_def child_context_def new_context_def messages_def)

lemma child_get_settled:
  assumes "child_get cr w opts run_id = (ret, ctx, arena)" "child_complete opts ret ctx"
  shows "settled ctx" "rx_submitted ctx = 1"
proof -
  have inv: "cb_inv ctx"
    using assms(1) run_inv [OF child_context_fresh] by (auto simp: child_get_def session_get_def Let_def)
  have q: "\<not> rx_evidence_lost ctx" "\<not> rx_unknown ctx" "length (rx_attempts ctx) = 1" "at_qualified_complete (hd (rx_attempts ctx))"
    using assms(2) by (simp_all add: child_complete_def)
  obtain a where a: "rx_attempts ctx = [a]" using q(3) by (auto simp: length_Suc_conv)
  have "emitted a" using inv q a by (simp add: cb_inv_def log_inv_def record_ok_def)
  then show "rx_submitted ctx = 1" using inv q(1) a by (simp add: cb_inv_def log_inv_def)
  have "\<not> hold True ctx" using inv q(1,2) by (simp add: hold_def cb_inv_def count_inv_def)
  then show "settled ctx" using settledI [OF inv q(1)] by blast
qed

section \<open>Properties\<close>

text \<open>C24. The exit status of the probe can be trusted: 0 means that the command line was accepted and the experiment it
  names ended in a PASS, that no output failed on the way, and that the last line written is the record of that PASS.
  The child of the exit experiment writes no verdict; its 0 means a known-complete GET and written evidence.\<close>

theorem rig_main_exit_zero:
  assumes "rig_main cr p argv = (0, s)"
  shows "\<exists>opts proto. rig_parse_args argv = Some opts \<and> finish_protocol_options (rp_getenv p) (ro_proto opts) = Some proto
    \<and> (let o' = opts\<lparr>ro_proto := proto\<rparr> in
       if ro_exp o' = ''exit'' \<and> ro_child o'
       then (\<exists>ret ctx arena. child_get cr (rp_world p) o' (rp_run_id p) = (ret, ctx, arena) \<and> child_complete o' ret ctx) \<and> \<not> jl_output_failed s
       else (\<exists>d. \<not> jl_output_failed (rp_output p) \<and> rp_printed p \<and> rp_flushed p
         \<and> s = (rp_output p)\<lparr>jl_stdout := jl_stdout (rp_output p) @ pass_line d\<rparr>
         \<and> experiment_passed cr p o' d))"
proof -
  obtain opts proto where o: "rig_parse_args argv = Some opts" "finish_protocol_options (rp_getenv p) (ro_proto opts) = Some proto"
      "rig_dispatch cr p (opts\<lparr>ro_proto := proto\<rparr>) = (0, s)" (is "rig_dispatch cr p ?o = _")
    by (rule rig_main_zero [OF assms])
  obtain ret ctx arena where cg: "child_get cr (rp_world p) ?o (rp_run_id p) = (ret, ctx, arena)" using prod_cases3 by blast
  show ?thesis
  proof (cases "ro_exp ?o = ''exit'' \<and> ro_child ?o")
    case True
    then obtain fx where "exp_exit_child cr (rp_world p) ?o (rp_run_id p) (rp_printed p) (rp_flushed p) (rp_output p) = (0, fx, s)"
      using rig_dispatch_child [OF o(3)] by blast
    from exp_exit_child_zero [OF this cg] o cg True show ?thesis by (auto simp: Let_def)
  next
    case False
    obtain d where "\<not> jl_output_failed (rp_output p)" "rp_printed p" "rp_flushed p" "experiment_passed cr p ?o d"
      "s = (rp_output p)\<lparr>jl_stdout := jl_stdout (rp_output p) @ pass_line d\<rparr>"
      by (rule rig_dispatch_reports [OF o(3) False])
    with o False show ?thesis by (auto simp: Let_def)
  qed
qed

text \<open>C23. The exit experiment composes two runs of the program: when the parent exits with 0 and the status it reaped is the one
  with which the same program ended on the same arguments and \<^verbatim>\<open>--child\<close>, then the child's GET was settled by exactly one qualified
  receipt and returned the full slot, the child left normally with its arena still registered and neither
  released nor freed, and all its evidence was written.\<close>

theorem exit_pass_sound:
  assumes parent: "rig_main cr p argv = (0, s)" "rig_parse_args argv = Some opts" "ro_exp opts = ''exit''" "\<not> ro_child opts"
    and child: "\<And>n. poll_child (os_polls (rp_os p)) = Reaped (Exited n) \<Longrightarrow> n = int (fst (rig_main cr p' (argv @ [''--child''])))"
  shows "\<not> ro_abrupt opts \<and> (\<exists>proto ret ctx arena fx s'. finish_protocol_options (rp_getenv p') (ro_proto opts) = Some proto
    \<and> (let o' = opts\<lparr>ro_child := True, ro_proto := proto\<rparr> in
       child_get cr (rp_world p') o' (rp_run_id p') = (ret, ctx, arena)
       \<and> ret = Some (sint (ro_slot_bytes opts)) \<and> settled ctx \<and> rx_submitted ctx = 1
       \<and> exp_exit_child cr (rp_world p') o' (rp_run_id p') (rp_printed p') (rp_flushed p') (rp_output p') = (0, Some fx, s')
       \<and> fx_live fx \<and> fx_owned fx \<and> \<not> fx_freed fx \<and> \<not> jl_output_failed s'))"
proof -
  obtain proto where o: "finish_protocol_options (rp_getenv p) (ro_proto opts) = Some proto" "rig_dispatch cr p (opts\<lparr>ro_proto := proto\<rparr>) = (0, s)"
    by (rule rig_main_zero [OF parent(1)]) (use parent(2) in simp)
  obtain d where "exp_exit (cr_strerror cr) (rp_os p) (opts\<lparr>ro_proto := proto\<rparr>) = (Pass, d)"
    by (rule rig_dispatch_reports [OF o(2)]) (use parent(3,4) in \<open>auto simp: experiment_passed_def\<close>)
  note pass = exp_exit_pass [OF this]
  have "fst (rig_main cr p' (argv @ [''--child''])) = 0" using child [OF pass(1)] by simp
  then have "rig_main cr p' (argv @ [''--child'']) = (0, snd (rig_main cr p' (argv @ [''--child''])))" by (simp add: prod_eq_iff)
  then obtain proto' s' where o': "finish_protocol_options (rp_getenv p') (ro_proto opts) = Some proto'"
      "rig_dispatch cr p' (opts\<lparr>ro_child := True, ro_proto := proto'\<rparr>) = (0, s')" (is "rig_dispatch cr p' ?o = _")
    by (rule rig_main_zero) (use rig_parse_child [OF parent(2)] in auto)
  obtain ret ctx arena where cg: "child_get cr (rp_world p') ?o (rp_run_id p') = (ret, ctx, arena)" using prod_cases3 by blast
  obtain fx where x: "exp_exit_child cr (rp_world p') ?o (rp_run_id p') (rp_printed p') (rp_flushed p') (rp_output p') = (0, fx, s')"
    by (rule rig_dispatch_child [OF o'(2)]) (use parent(3) in simp_all)
  note z = exp_exit_child_zero [OF x cg]
  have "fx_live (fx_register 0 fx_new)" "fx_owned (fx_register 0 fx_new)" "\<not> fx_freed (fx_register 0 fx_new)"
    by (simp_all add: fx_register_def fx_new_def)
  moreover have "ret = Some (sint (ro_slot_bytes opts))" using z(1) by (simp add: child_complete_def)
  ultimately show ?thesis
    using pass(2) o'(1) cg x z(2,3) child_get_settled [OF cg z(1)] by (auto simp: Let_def)
qed

section \<open>A concrete exit experiment\<close>

definition rig_demo_argv :: "string list" where
  "rig_demo_argv = [''--exp'', ''exit'', ''--bucket'', ''b'', ''--object'', ''k'', ''--mode'', ''host'', ''--server'', ''h:80'',
     ''--slot-bytes'', ''4'', ''--guard'', ''2'', ''--token-encoding'', ''verbatim'']"

definition rig_demo_exit :: rig_options where
  "rig_demo_exit = default_rig_options\<lparr>ro_exp := ''exit'', ro_bucket := ''b'', ro_object := ''k'', ro_mode := ''host'',
     ro_host := ''h'', ro_port := 80, ro_slot_bytes := 4, ro_guard := 2, ro_proto := gateway_options\<rparr>"

definition rig_demo_process :: rig_process where
  "rig_demo_process = \<lparr>rp_getenv = (\<lambda>_. None), rp_run_id = ''r'', rp_device_ok = True, rp_world = rig_demo_world,
     rp_os = \<lparr>os_readlink = 9, os_fork = 7, os_polls = [Running, Reaped (Exited 0)], os_reaps = []\<rparr>,
     rp_output = \<lparr>jl_stdout = [], jl_output_failed = False\<rparr>, rp_printed = True, rp_flushed = True\<rparr>"

lemma rig_demo_parse: "rig_parse_args rig_demo_argv = Some rig_demo_exit"
proof -
  have "rig_parse_size ''80'' = Some 80" "rig_parse_size ''4'' = Some 4" "rig_parse_size ''2'' = Some 2" by code_simp+
  then show ?thesis
    by (simp add: rig_parse_args_def rig_demo_argv_def rig_demo_exit_def rig_option_def rig_value_def rig_server_def
        parse_protocol_flag_def parse_token_encoding_def gateway_options_def default_rig_options_def Let_def)
qed

lemma rig_demo_proto: "finish_protocol_options g (ro_proto rig_demo_exit) = Some (ro_proto rig_demo_exit)"
  by (simp add: rig_demo_exit_def finish_protocol_options_def gateway_options_def default_protocol_options_def)

lemma rig_demo_parent: "rig_main cr rig_demo_process rig_demo_argv
    = (0, \<lparr>jl_stdout = pass_line ''normal return with retained graph, exit 0; run the post-run health check separately'', jl_output_failed = False\<rparr>)"
proof -
  have "exp_exit (cr_strerror cr) (rp_os rig_demo_process) rig_demo_exit
      = (Pass, ''normal return with retained graph, exit 0; run the post-run health check separately'')"
    by (simp add: exp_exit_def exit_reading_def rig_demo_process_def rig_demo_exit_def default_rig_options_def)
  moreover have "ro_exp rig_demo_exit = ''exit''" "\<not> ro_child rig_demo_exit"
    by (simp_all add: rig_demo_exit_def default_rig_options_def)
  ultimately show ?thesis
    by (simp add: rig_main_def rig_demo_parse rig_demo_proto rig_dispatch_def rig_finish_zero)
      (simp add: rig_demo_process_def)
qed

theorem rig_main_exit_zero_witness: "\<exists>d. experiment_passed rig_demo_crypto rig_demo_process rig_demo_exit d"
proof -
  have "ro_exp rig_demo_exit = ''exit''" "\<not> ro_child rig_demo_exit"
    by (simp_all add: rig_demo_exit_def default_rig_options_def)
  then show ?thesis
    using rig_main_exit_zero [OF rig_demo_parent [of rig_demo_crypto]] by (auto simp: rig_demo_parse rig_demo_proto Let_def)
qed

abbreviation rig_demo_child :: rig_options where
  "rig_demo_child \<equiv> rig_demo_exit\<lparr>ro_child := True\<rparr>"

lemma rig_demo_child_complete:
  obtains ctx arena where "child_get rig_demo_crypto rig_demo_world rig_demo_child ''r'' = (Some 4, ctx, arena)" "child_complete rig_demo_child (Some 4) ctx"
proof -
  let ?c = "child_context rig_demo_child ''r''"
  let ?ctx = "snd (rig_callback rig_demo_crypto rig_demo_env ?c)"
  have p: "''bytes=0-'' @ to_string 3 = ''bytes=0-3''" by code_simp
  have f: "rx_proto ?c = Some gateway_options" "\<not> rx_guard ?c" "rx_host ?c = ''h''" "rx_port ?c = 80" "unat (rx_expected ?c) = 4"
    "unat (rx_expected ?c) \<le> unat (cb_size rig_demo_env)" "rx_path ?c = rx_path rig_demo_context" "rx_range ?c = rx_range rig_demo_context"
    "rx_host rig_demo_context = ''h''" "rx_port rig_demo_context = 80"
    using p by (simp_all add: child_context_def rig_demo_exit_def default_rig_options_def new_context_def rig_demo_env_def rig_demo_context_def)
  obtain target headers msg where r: "rig_request rig_demo_crypto rig_demo_env gateway_options rig_demo_context ''10:1'' = Inr (target, headers)"
    "build_request (http_host_header (rx_host rig_demo_context) (rx_port rig_demo_context)) target headers = Inr (msg, True)" "length msg \<le> 400"
    by (rule rig_demo_request)
  have r': "rig_request rig_demo_crypto rig_demo_env gateway_options ?c ''10:1'' = Inr (target, headers)"
    "build_request (http_host_header (rx_host ?c) (rx_port ?c)) target headers = Inr (msg, True)"
    using r f by (simp_all add: rig_request_def)
  have g: "good_reply 2 0 6 (unat (rx_expected ?c)) rig_demo_reply" using rig_demo_good_reply f(5) by simp
  note good = good_callback [OF child_context_fresh f(1) rig_demo_fields(2) f(2) rig_demo_fields(4,5,6) f(6) r'
    rig_demo_delivers [OF r(3)] rig_demo_head(1) g rig_demo_head(2)]
  then have "child_complete rig_demo_child (Some 4) ?ctx"
    by (auto simp: child_complete_def hold_def rig_demo_exit_def)
  moreover have "child_get rig_demo_crypto rig_demo_world rig_demo_child ''r'' =
      (Some 4, ?ctx, snd (snd (child_get rig_demo_crypto rig_demo_world rig_demo_child ''r'')))"
    by (simp add: child_get_def session_get_def rig_demo_world_def case_prod_beta Let_def)
  ultimately show ?thesis using that by blast
qed

lemma rig_demo_child_exit: "fst (rig_main rig_demo_crypto rig_demo_process (rig_demo_argv @ [''--child''])) = 0"
proof -
  obtain ctx arena where c: "child_get rig_demo_crypto rig_demo_world rig_demo_child ''r'' = (Some 4, ctx, arena)"
      "child_complete rig_demo_child (Some 4) ctx"
    by (rule rig_demo_child_complete)
  have g: "validate_geometry rig_demo_child 1 = Inr \<lparr>ge_cell = 8, ge_arena = 8, ge_expected = 4\<rparr>"
    by (simp add: rig_demo_exit_def validate_geometry_def default_rig_options_def kSsizeMax_def kMaxReg_def
        geometry_arena_def checked_mul_def checked_add_def request_start_def request_end_def)
  have o: "ro_exp rig_demo_exit = ''exit''" "ro_mode rig_demo_exit = ''host''" "ro_proto rig_demo_child = ro_proto rig_demo_exit"
    "rig_demo_child\<lparr>ro_proto := ro_proto rig_demo_exit\<rparr> = rig_demo_child"
    by (simp_all add: rig_demo_exit_def)
  have p: "rp_world rig_demo_process = rig_demo_world" "rp_run_id rig_demo_process = ''r''" "rp_device_ok rig_demo_process"
    "rp_printed rig_demo_process" "rp_flushed rig_demo_process" "\<not> jl_output_failed (rp_output rig_demo_process)" "rw_register rig_demo_world n = 0" for n
    by (simp_all add: rig_demo_process_def rig_demo_world_def)
  have "fst (exp_exit_child rig_demo_crypto rig_demo_world rig_demo_child ''r'' True True (rp_output rig_demo_process)) = 0"
    using c p by (simp add: exp_exit_child_def g o rig_visibility_def parse_mode_def rec_emit_def Let_def)
  then show ?thesis
    using p by (simp add: rig_main_def rig_parse_child [OF rig_demo_parse] rig_demo_proto o rig_dispatch_def rig_prevalidate_def g case_prod_beta)
qed

theorem exit_pass_sound_witness: "\<exists>ret ctx arena proto.
    child_get rig_demo_crypto rig_demo_world (rig_demo_exit\<lparr>ro_child := True, ro_proto := proto\<rparr>) ''r'' = (ret, ctx, arena) \<and> settled ctx \<and> rx_submitted ctx = 1"
proof -
  have o: "ro_exp rig_demo_exit = ''exit''" "\<not> ro_child rig_demo_exit" by (simp_all add: rig_demo_exit_def default_rig_options_def)
  have "n = int (fst (rig_main rig_demo_crypto rig_demo_process (rig_demo_argv @ [''--child''])))"
    if "poll_child (os_polls (rp_os rig_demo_process)) = Reaped (Exited n)" for n
    using that rig_demo_child_exit by (simp add: rig_demo_process_def)
  from exit_pass_sound [OF rig_demo_parent rig_demo_parse o this]
  have "\<exists>proto ret ctx arena. child_get rig_demo_crypto (rp_world rig_demo_process) (rig_demo_exit\<lparr>ro_child := True, ro_proto := proto\<rparr>)
      (rp_run_id rig_demo_process) = (ret, ctx, arena) \<and> settled ctx \<and> rx_submitted ctx = 1"
    by (simp add: Let_def) blast
  then show ?thesis by (simp add: rig_demo_process_def) blast
qed

end
