(* ===== verification/Loader.thy ===== *)
theory Loader
  imports Manifest Jsonl
begin

text \<open>
  \<^verbatim>\<open>probe/loader_harness.cpp\<close>: which \<^verbatim>\<open>libcufile\<close> a process ends up with when the two SDK libraries are loaded in a
  given order. The dynamic loader, the SDK and \<^verbatim>\<open>/proc/self/maps\<close> are a record of answers; the harness is a function
  to the records it emits and its exit status. The fixture library (\<^verbatim>\<open>probe/loader_fixture.cpp\<close>) constructs and destroys
  one SDK client and is part of those answers.
\<close>

section \<open>Mappings\<close>

record loader_mapping =
  lm_path :: string
  lm_major :: u64
  lm_minor :: u64
  lm_ino :: u64
  lm_parsed :: bool

type_synonym identity = "u64 \<times> u64 \<times> u64"

definition lm_identity :: "loader_mapping \<Rightarrow> identity" where
  "lm_identity m = (lm_major m, lm_minor m, lm_ino m)"

definition basename_of :: "string \<Rightarrow> string" where
  "basename_of p = rev (takeWhile (\<lambda>c. c \<noteq> CHR ''/'') (rev p))"

definition is_cufile_main :: "string \<Rightarrow> bool" where
  "is_cufile_main base \<longleftrightarrow> base = ''libcufile.so'' \<or> starts_with ''libcufile.so.'' base"

definition interesting :: "string \<Rightarrow> bool" where
  "interesting base \<longleftrightarrow> starts_with ''libcufile'' base \<or> starts_with ''libcuobj'' base"

text \<open>\<^verbatim>\<open>strtoull\<close> with its error number and end pointer: whether the whole string was a number in range, and the value stored
  either way.\<close>

definition parse_u64 :: "nat \<Rightarrow> string \<Rightarrow> bool \<times> u64" where
  "parse_u64 b s =
     (if s = [] then (False, 0)
      else (case strto_parse b s of
          None \<Rightarrow> (hd s = NUL, 0)
        | Some (neg, v, pos) \<Rightarrow>
            if 2 ^ 64 \<le> v then (False, - 1)
            else (pos = length s \<or> s ! pos = NUL, if neg then - word_of_nat v else word_of_nat v)))"

text \<open>\<^verbatim>\<open>operator>>\<close> into a string: the next word and the rest of the line.\<close>

definition next_word :: "string \<Rightarrow> (string \<times> string) option" where
  "next_word s =
     (let t = dropWhile is_space s
      in if t = [] then None else Some (takeWhile (\<lambda>c. \<not> is_space c) t, dropWhile (\<lambda>c. \<not> is_space c) t))"

definition parse_mapping :: "string \<Rightarrow> string \<Rightarrow> string \<Rightarrow> loader_mapping" where
  "parse_mapping path dev inode =
     (case find_char CHR '':'' dev of
        None \<Rightarrow> \<lparr>lm_path = path, lm_major = 0, lm_minor = 0, lm_ino = 0, lm_parsed = False\<rparr>
      | Some colon \<Rightarrow>
          let (ok1, major) = parse_u64 16 (take colon dev);
              (ok2, minor) = (if ok1 then parse_u64 16 (drop (colon + 1) dev) else (False, 0));
              (ok3, ino) = (if ok2 then parse_u64 10 inode else (False, 0))
          in \<lparr>lm_path = path, lm_major = major, lm_minor = minor, lm_ino = ino, lm_parsed = ok3\<rparr>)"

text \<open>A line of the file: address, permissions, offset, device, inode, and a path from its first slash on.\<close>

definition map_line :: "string \<Rightarrow> loader_mapping option" where
  "map_line line =
     Option.bind (next_word line) (\<lambda>(addr, s).
     Option.bind (next_word s) (\<lambda>(perms, s).
     Option.bind (next_word s) (\<lambda>(offset, s).
     Option.bind (next_word s) (\<lambda>(dev, s).
     Option.bind (next_word s) (\<lambda>(inode, s).
     Option.bind (find_char CHR ''/'' s) (\<lambda>first.
       let path = drop first s
       in if interesting (basename_of path) then Some (parse_mapping path dev inode) else None))))))"

definition map_key :: "loader_mapping \<Rightarrow> string" where
  "map_key m = lm_path m @ ''#'' @ to_string (unat (lm_major m)) @ '':'' @ to_string (unat (lm_minor m)) @ '':''
     @ to_string (unat (lm_ino m))"

fun read_maps_loop :: "bool \<Rightarrow> (string \<times> loader_mapping) list \<Rightarrow> string list \<Rightarrow> bool \<times> (string \<times> loader_mapping) list" where
  "read_maps_loop ok out [] = (ok, out)"
| "read_maps_loop ok out (l # ls) = (case map_line l of
      None \<Rightarrow> read_maps_loop ok out ls
    | Some m \<Rightarrow> read_maps_loop (ok \<and> lm_parsed m) (fst (omap_emplace (map_key m) m out)) ls)"

record snapshot =
  sn_ok :: bool
  sn_maps :: "(string \<times> loader_mapping) list"

text \<open>\<^const>\<open>None\<close>: the file cannot be opened.\<close>

definition read_maps :: "string option \<Rightarrow> snapshot" where
  "read_maps text = (case text of
      None \<Rightarrow> \<lparr>sn_ok = False, sn_maps = []\<rparr>
    | Some t \<Rightarrow> (case read_maps_loop True [] (getlines t) of (ok, maps) \<Rightarrow> \<lparr>sn_ok = ok, sn_maps = maps\<rparr>))"

definition find_identity :: "snapshot \<Rightarrow> string \<Rightarrow> identity option" where
  "find_identity snap name = map_option (\<lambda>(k, m). lm_identity m)
     (find (\<lambda>(k, m). lm_parsed m \<and> lm_path m = name) (sn_maps snap))"

definition identity_for_linkmap :: "(string \<Rightarrow> string option) \<Rightarrow> snapshot \<Rightarrow> string \<Rightarrow> identity option" where
  "identity_for_linkmap realpath snap linkmap_name = (case find_identity snap linkmap_name of
      Some i \<Rightarrow> Some i
    | None \<Rightarrow> (case realpath (c_str linkmap_name) of None \<Rightarrow> None | Some real \<Rightarrow> find_identity snap real))"

section \<open>The answers\<close>

text \<open>
  Every library is opened at most once per label: \<^const>\<open>Inl\<close> the loader's error, \<^const>\<open>Inr\<close> the link-map name (empty if
  there is none). The driver call gives the error text of a missing symbol, or its status; the status of
  \<^verbatim>\<open>cuFileDriverOpen\<close> carries whether it is the success and whether it is the CUDA-driver error value. The fixture gives the errors of
  its two symbols, whether both were found, and the client object that its constructor gave (\<^const>\<open>None\<close> when it threw). \<open>lw_output\<close> tells how the output calls of each record went.
\<close>

datatype maps_phase = Initial | After_first_load | After_both_loads | With_client_alive | After_destroy

record driver_status =
  dv_success :: bool
  dv_err :: int
  dv_cuda_error :: bool
  dv_cu_err :: int

record fixture_symbols =
  fs_create_error :: string
  fs_destroy_error :: string
  fs_found :: bool

record loader_world =
  lw_maps :: "maps_phase \<Rightarrow> string option"
  lw_dlopen :: "string \<Rightarrow> string + string"
  lw_driver :: "string + driver_status"
  lw_symbols :: fixture_symbols
  lw_client :: "u64 option"
  lw_linkmap :: string
  lw_realpath :: "string \<Rightarrow> string option"
  lw_output :: "nat \<Rightarrow> bool \<times> bool"

section \<open>The harness\<close>

definition phase_name :: "maps_phase \<Rightarrow> string" where
  "phase_name p = (case p of Initial \<Rightarrow> ''initial'' | After_first_load \<Rightarrow> ''after-first-load'' | After_both_loads \<Rightarrow> ''after-both-loads''
     | With_client_alive \<Rightarrow> ''with-client-alive'' | After_destroy \<Rightarrow> ''after-destroy'')"

definition mapping_rec :: "maps_phase \<Rightarrow> loader_mapping \<Rightarrow> json_rec" where
  "mapping_rec p m =
     rec_num ''ino'' (sint (lm_ino m)) (rec_num ''dev_minor'' (sint (lm_minor m)) (rec_num ''dev_major'' (sint (lm_major m))
      (rec_boolean ''parsed'' (lm_parsed m) (rec_boolean ''cufile_main'' (is_cufile_main (basename_of (lm_path m)))
       (rec_str ''basename'' (basename_of (lm_path m)) (rec_str ''path'' (lm_path m)
        (rec_str ''phase'' (phase_name p) (rec_new ''mapping''))))))))"

definition emit_maps :: "loader_world \<Rightarrow> maps_phase \<Rightarrow> json_rec list \<times> snapshot" where
  "emit_maps w p =
     (let snap = read_maps (lw_maps w p)
      in (rec_num ''count'' (int (length (sn_maps snap))) (rec_boolean ''maps_readable'' (sn_ok snap)
            (rec_str ''phase'' (phase_name p) (rec_new ''mappings''))) # map (\<lambda>(k, m). mapping_rec p m) (sn_maps snap), snap))"

definition open_or_report :: "loader_world \<Rightarrow> string \<Rightarrow> string \<Rightarrow> json_rec list \<times> bool" where
  "open_or_report w name label =
     (let (ok, err, linkmap) = (case lw_dlopen w label of Inl e \<Rightarrow> (False, e, []) | Inr l \<Rightarrow> (True, [], l))
      in ([rec_str ''linkmap_name'' linkmap (rec_str ''error'' err (rec_boolean ''ok'' ok (rec_str ''name'' name
             (rec_str ''label'' label (rec_new ''dlopen'')))))], ok))"

definition open_cuobj :: "loader_world \<Rightarrow> json_rec list \<times> bool" where
  "open_cuobj w =
     (let (r, ok) = open_or_report w ''libcuobjclient.so.1'' ''cuobjclient''
      in if ok then (r, True)
         else let (r', ok') = open_or_report w ''libcuobjclient.so'' ''cuobjclient-unversioned'' in (r @ r', ok'))"

definition load_both :: "loader_world \<Rightarrow> string \<Rightarrow> json_rec list \<times> bool \<times> bool" where
  "load_both w order =
     (let (rf, cufile) = open_or_report w ''libcufile.so.0'' ''cufile'';
          (ro, cuobj) = open_cuobj w;
          between = fst (emit_maps w After_first_load)
      in (if order = ''cufile-first'' then rf @ between @ ro else ro @ between @ rf, cufile, cuobj))"

definition driver_open :: "loader_world \<Rightarrow> bool \<Rightarrow> bool \<Rightarrow> json_rec list \<times> bool" where
  "driver_open w open_driver cufile =
     (if \<not> (open_driver \<and> cufile) then ([], \<not> open_driver)
      else (case lw_driver w of
          Inl e \<Rightarrow> ([rec_str ''error'' e (rec_boolean ''symbol_found'' False (rec_new ''driver_open''))], False)
        | Inr st \<Rightarrow>
            ([rec_new ''driver_open_begin'',
              (if dv_cuda_error st then rec_num ''cu_err'' (dv_cu_err st) else rec_null ''cu_err'')
                (rec_num ''err'' (dv_err st) (rec_boolean ''symbol_found'' True (rec_new ''driver_open'')))],
             dv_success st)))"

text \<open>
  The fixture's facade (\<^verbatim>\<open>probe/loader_fixture.cpp\<close>): pointers as addresses. \<^verbatim>\<open>s3rdma_cuobj_create\<close> turns an exception into a null pointer;
  \<^verbatim>\<open>s3rdma_cuobj_destroy\<close> deletes what it is given, nothing for a null pointer; the operations it hands to the client never transfer.
\<close>

definition noop_get :: "string \<Rightarrow> u64 \<Rightarrow> int" where
  "noop_get buf sz = -1"

definition s3rdma_cuobj_create :: "u64 option \<Rightarrow> u64" where
  "s3rdma_cuobj_create constructed = (case constructed of None \<Rightarrow> 0 | Some client \<Rightarrow> client)"

definition s3rdma_cuobj_destroy :: "u64 \<Rightarrow> u64 list" where
  "s3rdma_cuobj_destroy client = (if client = 0 then [] else [client])"

text \<open>The construction; the snapshot is taken while the client is alive, and the client is destroyed after it. The last component lists the
  clients destroyed.\<close>

definition construct :: "loader_world \<Rightarrow> string \<Rightarrow> bool \<Rightarrow> json_rec list \<times> bool \<times> snapshot option \<times> u64 list" where
  "construct w fixture both =
     (if \<not> both then ([], False, None, [])
      else (case open_or_report w fixture ''fixture'' of
          (r, False) \<Rightarrow> (r, False, None, [])
        | (r, True) \<Rightarrow>
            let sy = lw_symbols w
            in if fs_create_error sy = [] \<and> fs_destroy_error sy = [] \<and> fs_found sy
               then let client = s3rdma_cuobj_create (lw_client w); ok = (client \<noteq> 0); (maps, live) = emit_maps w With_client_alive
                    in (r @ [rec_boolean ''ok'' ok (rec_boolean ''symbol_found'' True (rec_new ''construct''))] @ maps,
                        ok, Some live, s3rdma_cuobj_destroy client)
               else (r @ [rec_str ''error'' (if fs_create_error sy \<noteq> [] then fs_create_error sy else fs_destroy_error sy)
                       (rec_boolean ''symbol_found'' False (rec_new ''construct''))], False, None, [])))"

definition cufile_ids :: "snapshot \<Rightarrow> identity list" where
  "cufile_ids snap = remdups (map (\<lambda>(k, m). lm_identity m) (filter (\<lambda>(k, m). is_cufile_main (basename_of (lm_path m))) (sn_maps snap)))"

fun emit_recs :: "(nat \<Rightarrow> bool \<times> bool) \<Rightarrow> nat \<Rightarrow> json_rec list \<Rightarrow> jsonl_state \<Rightarrow> jsonl_state" where
  "emit_recs output n [] s = s"
| "emit_recs output n (r # rs) s = emit_recs output (n + 1) rs (rec_emit (fst (output n)) (snd (output n)) r s)"

text \<open>What the closing gate looks at, and the gate.\<close>

record loader_reading =
  lr_initial_clean :: bool
  lr_cufile :: bool
  lr_cuobj :: bool
  lr_driver_ok :: bool
  lr_construct_ok :: bool
  lr_live :: "snapshot option"
  lr_destroyed :: "u64 list"

definition handle_identity :: "loader_world \<Rightarrow> loader_reading \<Rightarrow> identity option" where
  "handle_identity w r = (case lr_live r of
      None \<Rightarrow> None
    | Some live \<Rightarrow>
        let cufile_linkmap = (if lr_cufile r then lw_linkmap w else [])
        in if cufile_linkmap = [] then None else identity_for_linkmap (lw_realpath w) live cufile_linkmap)"

definition live_ids :: "loader_reading \<Rightarrow> identity list" where
  "live_ids r = (case lr_live r of None \<Rightarrow> [] | Some live \<Rightarrow> cufile_ids live)"

definition env_ok :: "loader_world \<Rightarrow> loader_reading \<Rightarrow> bool" where
  "env_ok w r \<longleftrightarrow>
     (case lr_live r of None \<Rightarrow> False | Some live \<Rightarrow> sn_ok live \<and> list_all (\<lambda>(k, m). lm_parsed m) (sn_maps live))
     \<and> lr_initial_clean r \<and> lr_cufile r \<and> lr_cuobj r \<and> lr_driver_ok r \<and> lr_construct_ok r
     \<and> (case handle_identity w r of None \<Rightarrow> False | Some i \<Rightarrow> i \<in> set (live_ids r))"

definition loader_verdict :: "bool \<Rightarrow> nat \<Rightarrow> string" where
  "loader_verdict ok n = (if \<not> ok then ''ENV_ERROR'' else if n = 1 then ''PARTIAL'' else if n = 0 then ''ENV_ERROR'' else ''FAIL'')"

definition closing_recs :: "loader_world \<Rightarrow> string \<Rightarrow> loader_reading \<Rightarrow> json_rec list" where
  "closing_recs w order r =
     (let n = length (live_ids r); i = handle_identity w r in
      [rec_boolean ''symbol_origin_available'' False
         (rec_boolean ''handle_identity_in_live_set'' (case i of None \<Rightarrow> False | Some x \<Rightarrow> x \<in> set (live_ids r))
           (rec_boolean ''handle_identity_resolved'' (i \<noteq> None)
             (rec_str ''linkmap_name'' (if lr_cufile r then lw_linkmap w else []) (rec_new ''cufile_binding'')))),
       rec_str ''scope'' ''loader sub-item only'' (rec_str ''verdict'' (loader_verdict (env_ok w r) n)
         (rec_boolean ''construct_ok'' (lr_construct_ok r) (rec_boolean ''driver_ok'' (lr_driver_ok r)
           (rec_boolean ''initial_clean'' (lr_initial_clean r) (rec_num ''libcufile_identities'' (int n)
             (rec_str ''order'' order (rec_new ''result'')))))))])"

definition harness_steps :: "loader_world \<Rightarrow> string \<Rightarrow> string \<Rightarrow> bool \<Rightarrow> json_rec list \<times> loader_reading" where
  "harness_steps w order fixture open_driver =
     (let (r1, initial) = emit_maps w Initial;
          (r2, cufile, cuobj) = load_both w order;
          r3 = fst (emit_maps w After_both_loads);
          (r4, driver_ok) = driver_open w open_driver cufile;
          (r5, construct_ok, live, destroyed) = construct w fixture (cufile \<and> cuobj);
          r6 = fst (emit_maps w After_destroy)
      in (r1 @ r2 @ r3 @ r4 @ r5 @ r6,
          \<lparr>lr_initial_clean = sn_ok initial \<and> sn_maps initial = [], lr_cufile = cufile, lr_cuobj = cuobj, lr_driver_ok = driver_ok,
            lr_construct_ok = construct_ok, lr_live = live, lr_destroyed = destroyed\<rparr>))"

fun harness_args :: "string \<times> string \<times> bool \<Rightarrow> string list \<Rightarrow> (string \<times> string \<times> bool) option" where
  "harness_args (order, fixture, drv) [] = Some (order, fixture, drv)"
| "harness_args (order, fixture, drv) [a] = (if a = ''--no-driver-open'' then Some (order, fixture, False) else None)"
| "harness_args (order, fixture, drv) (a # v # rest) =
     (if a = ''--order'' then harness_args (v, fixture, drv) rest
      else if a = ''--fixture'' then harness_args (order, v, drv) rest
      else if a = ''--no-driver-open'' then harness_args (order, fixture, False) (v # rest)
      else None)"

definition loader_main :: "loader_world \<Rightarrow> string list \<Rightarrow> jsonl_state \<Rightarrow> nat \<times> jsonl_state" where
  "loader_main w argv s =
     (case harness_args (''cufile-first'', ''./build/probe/libcuobj_loader_fixture.so'', True) argv of
        None \<Rightarrow> (2, s)
      | Some (order, fixture, open_driver) \<Rightarrow>
          if order \<noteq> ''cufile-first'' \<and> order \<noteq> ''cuobj-first'' then (2, s)
          else
            let (recs, r) = harness_steps w order fixture open_driver;
                s = emit_recs (lw_output w) 0 (recs @ closing_recs w order r) s;
                n = length (live_ids r)
            in (if jl_output_failed s then 3 else if \<not> env_ok w r \<or> n = 0 then 3 else if n = 1 then 4 else 1, s))"

text \<open>Every client that the harness makes is destroyed, once, and only a client that exists counts as constructed.\<close>

lemma harness_destroys:
  assumes "lr_construct_ok (snd (harness_steps w order fixture open_driver))"
  shows "\<exists>c. lw_client w = Some c \<and> c \<noteq> 0 \<and> lr_destroyed (snd (harness_steps w order fixture open_driver)) = [c]"
  using assms
  by (auto simp: harness_steps_def construct_def s3rdma_cuobj_create_def s3rdma_cuobj_destroy_def Let_def
      split: prod.splits if_splits option.splits bool.splits)

section \<open>The set of mapped files\<close>

lemma append_last_sep:
  assumes "c \<notin> set d" "c \<notin> set d'"
  shows "p @ c # d = p' @ c # d' \<longleftrightarrow> p = p' \<and> d = d'"
proof
  assume "p @ c # d = p' @ c # d'"
  then have "rev d @ c # rev p = rev d' @ c # rev p'" by (metis append.assoc append_Cons append_Nil rev.simps(2) rev_append)
  moreover have "takeWhile (\<lambda>x. x \<noteq> c) (rev e @ c # q) = rev e" if "c \<notin> set e" for e q
    using that by (simp add: takeWhile_tail takeWhile_eq_all_conv) blast
  ultimately have "d = d'" using assms by (metis rev_rev_ident)
  with \<open>p @ c # d = p' @ c # d'\<close> show "p = p' \<and> d = d'" by simp
qed simp

lemma to_string_no: "\<not> is_digit c \<Longrightarrow> c \<notin> set (to_string n)"
  using to_string_digits [of n] by (auto simp: list_all_iff)

lemma map_key_inject: "map_key m = map_key m' \<longleftrightarrow> lm_path m = lm_path m' \<and> lm_identity m = lm_identity m'"
proof -
  have nd: "\<not> is_digit CHR ''#''" "\<not> is_digit CHR '':''" by (simp_all add: is_digit_def)
  have "map_key m = map_key m' \<longleftrightarrow> lm_path m = lm_path m'
      \<and> to_string (unat (lm_major m)) @ CHR '':'' # to_string (unat (lm_minor m)) @ CHR '':'' # to_string (unat (lm_ino m))
        = to_string (unat (lm_major m')) @ CHR '':'' # to_string (unat (lm_minor m')) @ CHR '':'' # to_string (unat (lm_ino m'))"
    unfolding map_key_def using to_string_no [OF nd(1)] append_last_sep [of "CHR ''#''"] by simp
  also have "\<dots> \<longleftrightarrow> lm_path m = lm_path m' \<and> lm_identity m = lm_identity m'"
  proof -
    have s: "(a @ CHR '':'' # b @ CHR '':'' # c) = (a' @ CHR '':'' # b' @ CHR '':'' # c') \<longleftrightarrow> a = a' \<and> b = b' \<and> c = c'"
      if "CHR '':'' \<notin> set c" "CHR '':'' \<notin> set c'" "CHR '':'' \<notin> set b" "CHR '':'' \<notin> set b'" for a b c a' b' c' :: string
      using append_last_sep [OF that(1,2), of "a @ CHR '':'' # b" "a' @ CHR '':'' # b'"] append_last_sep [OF that(3,4), of a a'] by auto
    show ?thesis by (simp add: s to_string_no [OF nd(2)] lm_identity_def word_unat_eq_iff)
  qed
  finally show ?thesis .
qed

definition lm_tag :: "loader_mapping \<Rightarrow> string \<times> identity" where
  "lm_tag m = (lm_path m, lm_identity m)"

definition mapped :: "string list \<Rightarrow> loader_mapping set" where
  "mapped ls = {m. \<exists>l \<in> set ls. map_line l = Some m}"

lemma mapped_simps [simp]: "mapped [] = {}"
    "mapped (l # ls) = (case map_line l of None \<Rightarrow> mapped ls | Some m \<Rightarrow> insert m (mapped ls))"
  by (auto simp: mapped_def split: option.split)

definition keyed :: "(string \<times> loader_mapping) list \<Rightarrow> bool" where
  "keyed out \<longleftrightarrow> (\<forall>(k, m) \<in> set out. k = map_key m)"

lemma keyed_emplace:
  assumes "keyed out"
  shows "keyed (fst (omap_emplace (map_key m) m out))"
    "lm_tag ` snd ` set (fst (omap_emplace (map_key m) m out)) = insert (lm_tag m) (lm_tag ` snd ` set out)"
proof -
  consider (fresh) "omap_lookup (map_key m) out = None" | (old) m' where "omap_lookup (map_key m) out = Some m'" by fastforce
  then have "keyed (fst (omap_emplace (map_key m) m out))
    \<and> lm_tag ` snd ` set (fst (omap_emplace (map_key m) m out)) = insert (lm_tag m) (lm_tag ` snd ` set out)"
  proof cases
    case fresh
    with assms show ?thesis by (simp add: omap_emplace_def set_omap_put keyed_def)
  next
    case old
    then have "(map_key m, m') \<in> set out" by (rule omap_lookup_in)
    moreover with assms have "lm_tag m' = lm_tag m" using map_key_inject [of m m'] by (auto simp: keyed_def lm_tag_def)
    ultimately have "lm_tag m \<in> lm_tag ` snd ` set out" by (metis image_eqI snd_conv)
    with assms old show ?thesis by (simp add: omap_emplace_def insert_absorb)
  qed
  then show "keyed (fst (omap_emplace (map_key m) m out))"
    "lm_tag ` snd ` set (fst (omap_emplace (map_key m) m out)) = insert (lm_tag m) (lm_tag ` snd ` set out)" by auto
qed

lemma read_maps_loop_exact:
  assumes "read_maps_loop ok out ls = (ok', out')" "keyed out"
  shows "lm_tag ` snd ` set out' = lm_tag ` snd ` set out \<union> lm_tag ` mapped ls"
    "ok' \<longleftrightarrow> ok \<and> (\<forall>m \<in> mapped ls. lm_parsed m)"
proof -
  have "lm_tag ` snd ` set out' = lm_tag ` snd ` set out \<union> lm_tag ` mapped ls \<and> (ok' \<longleftrightarrow> ok \<and> (\<forall>m \<in> mapped ls. lm_parsed m))"
    using assms
  proof (induction ls arbitrary: ok out)
    case (Cons l ls)
    show ?case
    proof (cases "map_line l")
      case None
      with Cons show ?thesis by simp
    next
      case (Some m)
      note k = keyed_emplace [OF Cons.prems(2), of m]
      from Cons.prems(1) Some have "read_maps_loop (ok \<and> lm_parsed m) (fst (omap_emplace (map_key m) m out)) ls = (ok', out')" by simp
      from Cons.IH [OF this k(1)] k(2) Some show ?thesis by auto
    qed
  qed auto
  then show "lm_tag ` snd ` set out' = lm_tag ` snd ` set out \<union> lm_tag ` mapped ls" "ok' \<longleftrightarrow> ok \<and> (\<forall>m \<in> mapped ls. lm_parsed m)"
    by auto
qed

lemma read_maps_exact:
  assumes "sn_ok (read_maps content)"
  obtains t where "content = Some t" "lm_tag ` snd ` set (sn_maps (read_maps content)) = lm_tag ` mapped (getlines t)"
    "\<forall>m \<in> mapped (getlines t). lm_parsed m"
proof (cases content)
  case None
  with assms show ?thesis by (simp add: read_maps_def)
next
  case (Some t)
  obtain ok out where r: "read_maps_loop True [] (getlines t) = (ok, out)" by fastforce
  have "keyed []" by (simp add: keyed_def)
  note e = read_maps_loop_exact [OF r this]
  show ?thesis using that [OF Some] assms e Some r by (simp add: read_maps_def)
qed

text \<open>The identities of the files mapped as \<^verbatim>\<open>libcufile\<close>.\<close>

definition cufile_identities :: "string \<Rightarrow> identity set" where
  "cufile_identities t = lm_identity ` {m \<in> mapped (getlines t). is_cufile_main (basename_of (lm_path m))}"

lemma cufile_ids_exact:
  assumes "lm_tag ` snd ` set (sn_maps snap) = lm_tag ` mapped (getlines t)"
  shows "set (cufile_ids snap) = cufile_identities t"
proof -
  have "set (cufile_ids snap) = snd ` {x \<in> lm_tag ` snd ` set (sn_maps snap). is_cufile_main (basename_of (fst x))}"
    by (force simp: cufile_ids_def lm_tag_def image_iff)
  also have "\<dots> = cufile_identities t"
    unfolding assms cufile_identities_def by (force simp: lm_tag_def image_iff)
  finally show ?thesis .
qed

lemma length_cufile_ids: "length (cufile_ids snap) = card (set (cufile_ids snap))"
  by (simp add: cufile_ids_def length_remdups_card_conv)

lemma find_identity_Some:
  assumes "find_identity snap name = Some i"
  shows "(name, i) \<in> lm_tag ` snd ` set (sn_maps snap)"
proof -
  obtain k m where "find (\<lambda>(k, m). lm_parsed m \<and> lm_path m = name) (sn_maps snap) = Some (k, m)" "i = lm_identity m"
    using assms by (auto simp: find_identity_def)
  then have "(k, m) \<in> set (sn_maps snap)" "lm_path m = name" "i = lm_identity m" by (auto simp: find_Some_iff) (metis nth_mem)
  then show ?thesis by (force simp: lm_tag_def image_iff)
qed

section \<open>What an exit status needs\<close>

lemma identity_for_linkmap_mapped:
  assumes "identity_for_linkmap realpath snap name = Some i"
  shows "\<exists>p. (p = name \<or> realpath (c_str name) = Some p) \<and> (p, i) \<in> lm_tag ` snd ` set (sn_maps snap)"
proof (cases "find_identity snap name")
  case None
  with assms obtain p where "realpath (c_str name) = Some p" "find_identity snap p = Some i"
    by (auto simp: identity_for_linkmap_def split: option.splits)
  with find_identity_Some [OF this(2)] show ?thesis by (intro exI [of _ p]) simp
next
  case (Some j)
  with assms show ?thesis using find_identity_Some [of snap name] by (auto simp: identity_for_linkmap_def)
qed

lemma open_or_report_ok: "snd (open_or_report w name label) \<longleftrightarrow> (\<exists>l. lw_dlopen w label = Inr l)"
  by (auto simp: open_or_report_def split: sum.split)

lemma load_both_ok:
  assumes "load_both w order = (recs, True, True)"
  shows "\<exists>l. lw_dlopen w ''cufile'' = Inr l"
    "(\<exists>l. lw_dlopen w ''cuobjclient'' = Inr l) \<or> (\<exists>l. lw_dlopen w ''cuobjclient-unversioned'' = Inr l)"
  using assms open_or_report_ok [of w] by (auto simp: load_both_def open_cuobj_def Let_def case_prod_beta split: if_splits)

lemma driver_open_ok: "driver_open w drv cufile = (recs, True) \<Longrightarrow> cufile \<Longrightarrow> drv \<longrightarrow> (\<exists>st. lw_driver w = Inr st \<and> dv_success st)"
  by (auto simp: driver_open_def split: if_splits sum.splits)

lemma construct_live:
  assumes "construct w fixture both = (recs, ok, Some live, destroyed)"
  shows "ok \<longleftrightarrow> s3rdma_cuobj_create (lw_client w) \<noteq> 0" "live = read_maps (lw_maps w With_client_alive)"
  using assms by (auto simp: construct_def emit_maps_def Let_def split: if_splits prod.splits bool.splits)

lemma harness_steps_reading:
  assumes "harness_steps w order fixture drv = (recs, r)" "env_ok w r"
  shows "sn_ok (read_maps (lw_maps w Initial))" "sn_maps (read_maps (lw_maps w Initial)) = []"
    "\<exists>l. lw_dlopen w ''cufile'' = Inr l" "drv \<longrightarrow> (\<exists>st. lw_driver w = Inr st \<and> dv_success st)" "s3rdma_cuobj_create (lw_client w) \<noteq> 0"
    "lr_live r = Some (read_maps (lw_maps w With_client_alive))" "lr_cufile r"
proof -
  obtain r2 cufile cuobj where l: "load_both w order = (r2, cufile, cuobj)" using prod_cases3 by blast
  obtain r4 driver_ok where d: "driver_open w drv cufile = (r4, driver_ok)" by fastforce
  obtain r5 construct_ok live destroyed where c: "construct w fixture (cufile \<and> cuobj) = (r5, construct_ok, live, destroyed)" using prod_cases4 by blast
  have r: "r = \<lparr>lr_initial_clean = sn_ok (read_maps (lw_maps w Initial)) \<and> sn_maps (read_maps (lw_maps w Initial)) = [],
      lr_cufile = cufile, lr_cuobj = cuobj, lr_driver_ok = driver_ok, lr_construct_ok = construct_ok, lr_live = live, lr_destroyed = destroyed\<rparr>"
    using assms(1) l d c by (simp add: harness_steps_def emit_maps_def Let_def)
  obtain snap where e: "cufile" "cuobj" "driver_ok" "construct_ok" "live = Some snap"
    using assms(2) by (auto simp: env_ok_def r split: option.splits)
  show "sn_ok (read_maps (lw_maps w Initial))" "sn_maps (read_maps (lw_maps w Initial)) = []" "lr_cufile r"
    using assms(2) by (simp_all add: env_ok_def r)
  show "\<exists>l. lw_dlopen w ''cufile'' = Inr l" using load_both_ok(1) [of w order r2] l e(1,2) by simp
  show "drv \<longrightarrow> (\<exists>st. lw_driver w = Inr st \<and> dv_success st)" using driver_open_ok [of w drv cufile r4] d e(1,3) by simp
  from construct_live [OF c [unfolded e(5)]] e(4,5)
  show "s3rdma_cuobj_create (lw_client w) \<noteq> 0" "lr_live r = Some (read_maps (lw_maps w With_client_alive))" by (simp_all add: r)
qed

section \<open>Properties\<close>


section \<open>A concrete process\<close>

text \<open>The reader undoes the format the kernel prints, for words without white space.\<close>

abbreviation plain_word :: "string \<Rightarrow> bool" where
  "plain_word v \<equiv> v \<noteq> [] \<and> list_all (\<lambda>c. \<not> is_space c) v"

lemma next_word_plain:
  assumes "plain_word v" "is_space c"
  shows "next_word (v @ c # s) = Some (v, c # s)" "next_word (c # v @ c # s) = Some (v, c # s)"
proof -
  obtain x xs where v: "v = x # xs" "\<not> is_space x" using assms(1) by (cases v) auto
  have "takeWhile (\<lambda>c. \<not> is_space c) (v @ c # s) = v" "dropWhile (\<lambda>c. \<not> is_space c) (v @ c # s) = c # s"
    using assms by (auto simp: takeWhile_tail takeWhile_eq_all_conv dropWhile_append list_all_iff)
  with v assms(2) show "next_word (v @ c # s) = Some (v, c # s)" "next_word (c # v @ c # s) = Some (v, c # s)"
    by (simp_all add: next_word_def Let_def)
qed

lemma to_hex_plain: "plain_word (to_hex n)"
proof -
  have "\<not> is_space c" if "c \<in> set (to_hex n)" for c
  proof -
    have "base_digit 16 c \<noteq> None" using that to_hex_digits [of n] by (simp add: list_all_iff)
    then show ?thesis using base_digit_not_space [of 16 c] by (cases "base_digit 16 c") auto
  qed
  then show ?thesis by (simp add: list_all_iff)
qed

lemma to_string_plain: "plain_word (to_string n)"
  using to_string_digits [of n] by (auto simp: list_all_iff is_digit_def is_space_def)

lemma parse_u64_stoull: "s \<noteq> [] \<Longrightarrow> stoull b s = Some (v, length s) \<Longrightarrow> parse_u64 b s = (True, v)"
  by (auto simp: parse_u64_def stoull_def split: option.splits if_splits)

lemma parse_u64_print: "parse_u64 16 (to_hex (unat x)) = (True, x)" "parse_u64 10 (to_string (unat y)) = (True, y)"
  using parse_u64_stoull [OF _ stoull_to_hex [OF unat_u64_lt [of x]]] parse_u64_stoull [of "to_string (unat y)" 10 y]
    stoull_to_string [OF unat_u64_lt [of y], of "[]"] by simp_all

definition print_map_line :: "string \<Rightarrow> string \<Rightarrow> string \<Rightarrow> loader_mapping \<Rightarrow> string" where
  "print_map_line addr perms offset m = addr @ SP # perms @ SP # offset @ SP # (to_hex (unat (lm_major m)) @ CHR '':'' # to_hex (unat (lm_minor m)))
     @ SP # to_string (unat (lm_ino m)) @ SP # lm_path m"

lemma map_line_print:
  assumes "plain_word addr" "plain_word perms" "plain_word offset"
    and "lm_path m = CHR ''/'' # rest" "interesting (basename_of (lm_path m))" "lm_parsed m"
  shows "map_line (print_map_line addr perms offset m) = Some m"
proof -
  let ?dev = "to_hex (unat (lm_major m)) @ CHR '':'' # to_hex (unat (lm_minor m))"
  have sp: "is_space SP" by (simp add: is_space_def)
  have dev: "plain_word ?dev" using to_hex_plain by (simp add: is_space_def)
  have "find_char CHR '':'' ?dev = Some (length (to_hex (unat (lm_major m))))" by (rule find_char_append [OF to_hex_no_colon])
  then have "parse_mapping (lm_path m) ?dev (to_string (unat (lm_ino m))) = m"
    using assms(6) by (simp add: parse_mapping_def parse_u64_print)
  moreover have "find_char CHR ''/'' (SP # lm_path m) = Some 1" using assms(4) by simp
  ultimately show ?thesis
    unfolding print_map_line_def map_line_def
    using assms(1-5) dev to_string_plain [of "unat (lm_ino m)"]
    by (simp add: next_word_plain [OF _ sp] del: append_Cons append_assoc)
qed

definition loader_demo_file :: loader_mapping where
  "loader_demo_file = \<lparr>lm_path = ''/l/libcufile.so.0'', lm_major = 8, lm_minor = 1, lm_ino = 5, lm_parsed = True\<rparr>"

definition loader_demo_line :: string where
  "loader_demo_line = print_map_line ''1-2'' ''r'' ''0'' loader_demo_file"

definition loader_demo_world :: loader_world where
  "loader_demo_world = \<lparr>lw_maps = (\<lambda>p. Some (if p = Initial then [] else loader_demo_line)), lw_dlopen = (\<lambda>_. Inr []),
     lw_driver = Inr \<lparr>dv_success = True, dv_err = 0, dv_cuda_error = False, dv_cu_err = 0\<rparr>,
     lw_symbols = \<lparr>fs_create_error = [], fs_destroy_error = [], fs_found = True\<rparr>, lw_client = Some 7,
     lw_linkmap = ''/l/libcufile.so.0'', lw_realpath = (\<lambda>_. None), lw_output = (\<lambda>_. (True, True))\<rparr>"

lemma loader_demo_maps: "read_maps (Some []) = \<lparr>sn_ok = True, sn_maps = []\<rparr>"
    "read_maps (Some loader_demo_line) = \<lparr>sn_ok = True, sn_maps = [(map_key loader_demo_file, loader_demo_file)]\<rparr>"
proof -
  show "read_maps (Some []) = \<lparr>sn_ok = True, sn_maps = []\<rparr>" by (simp add: read_maps_def getlines_def)
  have "getlines loader_demo_line = [loader_demo_line]" by code_simp
  moreover have "map_line loader_demo_line = Some loader_demo_file"
    unfolding loader_demo_line_def
    by (rule map_line_print)
      (simp_all add: loader_demo_file_def is_space_def interesting_def basename_of_def starts_with_def)
  moreover have "lm_parsed loader_demo_file" by (simp add: loader_demo_file_def)
  ultimately show "read_maps (Some loader_demo_line) = \<lparr>sn_ok = True, sn_maps = [(map_key loader_demo_file, loader_demo_file)]\<rparr>"
    by (simp add: read_maps_def omap_emplace_def)
qed

lemma emit_recs_good: "\<forall>n. output n = (True, True) \<Longrightarrow> jl_output_failed (emit_recs output n rs s) = jl_output_failed s"
  by (induction rs arbitrary: n s) (simp_all add: rec_emit_def)

lemma loader_demo_partial: "fst (loader_main loader_demo_world [] \<lparr>jl_stdout = [], jl_output_failed = False\<rparr>) = 4"
proof -
  let ?live = "\<lparr>sn_ok = True, sn_maps = [(map_key loader_demo_file, loader_demo_file)]\<rparr>"
  define r where "r = snd (harness_steps loader_demo_world ''cufile-first'' ''./build/probe/libcuobj_loader_fixture.so'' True)"
  have r: "r = \<lparr>lr_initial_clean = True, lr_cufile = True, lr_cuobj = True, lr_driver_ok = True, lr_construct_ok = True, lr_live = Some ?live, lr_destroyed = [7]\<rparr>"
    by (simp add: r_def harness_steps_def emit_maps_def load_both_def open_cuobj_def open_or_report_def driver_open_def construct_def
        s3rdma_cuobj_create_def s3rdma_cuobj_destroy_def loader_demo_world_def loader_demo_maps Let_def case_prod_beta)
  have main: "is_cufile_main (basename_of (lm_path loader_demo_file))" by code_simp
  have f: "lm_parsed loader_demo_file" "lm_path loader_demo_file = ''/l/libcufile.so.0''" by (simp_all add: loader_demo_file_def)
  have ids: "live_ids r = [lm_identity loader_demo_file]" using main by (simp add: r live_ids_def cufile_ids_def)
  have "handle_identity loader_demo_world r = Some (lm_identity loader_demo_file)"
    using f by (simp add: handle_identity_def r identity_for_linkmap_def find_identity_def loader_demo_world_def)
  then have "env_ok loader_demo_world r" using f ids by (simp add: env_ok_def r)
  moreover have "jl_output_failed (emit_recs (lw_output loader_demo_world) 0 rs \<lparr>jl_stdout = [], jl_output_failed = False\<rparr>) = False" for rs
    by (subst emit_recs_good) (simp_all add: loader_demo_world_def)
  ultimately show ?thesis
    using ids by (simp add: loader_main_def case_prod_beta Let_def flip: r_def)
qed


end
