(* ===== verification/Spec2Isabelle.thy ===== *)
theory Spec2Isabelle
  imports Completion Jsonl Manifest Sampler Server Server_Life Client Buffers Transport Probe_Link Scope_Probe Rig_Atomic Rig_Main Loader
begin

text \<open>
  A verification development for \<^bold>\<open>s3RDMA-benchmarktool\<close>: an S3-style server that delivers GETs by RDMA,
  a benchmark client, and the probes that qualify the vendor's client library. File names below are relative to
  \<^verbatim>\<open>src/\<close>.

  \<^bold>\<open>The program.\<close> A client registers memory with the cuObject library and asks it for an object; the library calls
  back with a descriptor of the memory, and the callback sends an HTTP GET that carries the descriptor as a token. The
  server reads the object in chunks, writes them into the client's memory by RDMA, and answers with headers only.
  The probes (\<^verbatim>\<open>probe/\<close>) issue such GETs against guarded or poisoned memory and decide from receipts, return values and memory
  contents whether the library keeps its promises; nothing may be read or released while a transfer may be under way.

  \<^bold>\<open>Theories and sources.\<close>
  \<^item> \<^theory_text>\<open>Prelude\<close>: byte strings, the C++ library functions the sources use (number parsing and printing,
    maps, lines), results with exceptions, and the interfaces stated as locales.
  \<^item> \<^theory_text>\<open>Base64\<close> (\<^verbatim>\<open>common/base64.hpp\<close>), \<^theory_text>\<open>S3_Util\<close> (\<^verbatim>\<open>common/s3_util.hpp\<close>), \<^theory_text>\<open>SigV4\<close> (\<^verbatim>\<open>common/sigv4.hpp\<close>,
    \<^verbatim>\<open>common/sha256.hpp\<close>), \<^theory_text>\<open>S3_Protocol\<close> (\<^verbatim>\<open>common/s3_protocol.hpp\<close>): encoders, parsers and signatures as functions.
  \<^item> \<^theory_text>\<open>Raw_Http\<close> (\<^verbatim>\<open>common/raw_http.hpp\<close>): request writer, head parser and the bounded exchange \<open>raw_http_get\<close>, over
    lists of what the resolver and the socket do.
  \<^item> \<^theory_text>\<open>Completion\<close> (\<^verbatim>\<open>common/completion_authority.hpp\<close>, \<^verbatim>\<open>common/guard_witness.hpp\<close>): when a receipt proves a transfer complete,
    and when a refused re-entry is witnessed.
  \<^item> \<^theory_text>\<open>Jsonl\<close> (\<^verbatim>\<open>common/jsonl.hpp\<close>), \<^theory_text>\<open>Manifest\<close> and \<^theory_text>\<open>Sampler\<close> (\<^verbatim>\<open>common/verify/\<close>): records on standard output, the strict
    manifest reader with its closure gate, and the sampling schedule on words.
  \<^item> \<^theory_text>\<open>Server_Pool\<close>, \<^theory_text>\<open>Server_Io\<close>, \<^theory_text>\<open>Server\<close> (\<^verbatim>\<open>server/s3_server.cpp\<close>), \<^theory_text>\<open>Server_Args\<close> (\<^verbatim>\<open>server/main.cpp\<close>): the slot pool and the
    descriptor cache as step relations over threads, chunk planning, the double-buffered transfer, the GET handler, routing and options.
  \<^item> \<^theory_text>\<open>Server_Life\<close> (\<^verbatim>\<open>server/main.cpp\<close>, constructor, destructor and \<^verbatim>\<open>stop\<close> of \<^verbatim>\<open>server/s3_server.cpp\<close>): the process around the
    server, with signals at any moment.
  \<^item> \<^theory_text>\<open>Client\<close> (\<^verbatim>\<open>client/s3_client.cpp\<close>, \<^verbatim>\<open>client/main.cpp\<close>): the library callback, GETs, options, discovery, workers and the exit status.
  \<^item> \<^theory_text>\<open>Buffers\<close> (\<^verbatim>\<open>client/buffers.cpp\<close>, \<^verbatim>\<open>common/cuobj_check.hpp\<close>, \<^verbatim>\<open>client/main.cpp\<close>): what the client process asks of CUDA and of the
    cuObject library, from the first allocation to the last destructor, and the copy to the output file.
  \<^item> \<^theory_text>\<open>Transport\<close>: the client's callback and the server's routes joined by a wire, and the client's memory after the server's RDMA
    writes. \<^theory_text>\<open>Probe_Link\<close>: the raw exchange and the completion authority of the probes against the same server.
  \<^item> \<^theory_text>\<open>Scope_Layout\<close>, \<^theory_text>\<open>Scope_Probe\<close> (\<^verbatim>\<open>probe/scope_probe_main.cpp\<close>): checked layout of an arena, guarded slots, and the experiments over it.
  \<^item> \<^theory_text>\<open>Rig_Options\<close>, \<^theory_text>\<open>Rig_Callback\<close>, \<^theory_text>\<open>Rig_Atomic\<close>, \<^theory_text>\<open>Rig_Fixture\<close>, \<^theory_text>\<open>Rig_Single\<close>, \<^theory_text>\<open>Rig_Concurrent\<close>, \<^theory_text>\<open>Rig_Main\<close>
    (\<^verbatim>\<open>probe/rig_probe_main.cpp\<close>): options and geometry; the callback and its context, first run to completion, then
    with every access to a shared counter a step of its own; the owner of the registered arena and the overlap sweep;
    the experiments; the exit experiment's parent and child; \<^verbatim>\<open>main\<close>.
  \<^item> \<^theory_text>\<open>Loader\<close> (\<^verbatim>\<open>probe/loader_harness.cpp\<close>, \<^verbatim>\<open>probe/loader_fixture.cpp\<close>): the reader of \<^verbatim>\<open>/proc/self/maps\<close>, the load steps, the fixture's
    client and the gate on the mapped files.
  \<^item> this theory: what is signed is what is sent, and the whole way of an object from the server's disk to the client's output file.

  \<^bold>\<open>State and effects.\<close> A struct is a \<open>record\<close>, an enumeration a \<open>datatype\<close>, \<^verbatim>\<open>size_t\<close> and \<^verbatim>\<open>unsigned\<close> are words of 64 and 32
  bits where they can wrap; counters that the callbacks keep within a few units are integers. An exception is the left side of a
  sum. Objects that are updated in place are records passed on. What the outside does (sockets, the vendor library, the
  device, files, the clock, output calls) is an argument: a function, or the list of events a loop consumes.

  \<^bold>\<open>Interfaces.\<close> \<open>safe_system\<close> states a transition system with an inductive invariant; it is interpreted by the server's
  pool (\<open>pool\<close>, and \<open>steady\<close> while no creation fails), the descriptor cache (\<open>fds\<close>), the callbacks of a GET (\<open>cbs\<close>),
  the interleaved callbacks (\<open>rig\<close>), the fixture (\<open>fixtures\<close>) and the server process (\<open>life\<close>). \<open>decimal_scan\<close> and its extension \<open>strict_decimal_scan\<close> state
  what a guarded digit loop computes (reply codes, byte counts, manifest numbers); \<open>codec\<close> states a left inverse (Base64, JSON
  escapes, URI encoding).

  \<^bold>\<open>What the lemmas show.\<close>
  \<^item> End to end: a callback that reports success has the requested bytes in the client's memory and nothing else changed, and it
    reports success when nothing fails; every GET of a benchmark fits its buffer; the output file is the object; a receipt
    that the completion authority accepts from this server means the bytes have landed.
  \<^item> Server: a served GET puts exactly the requested bytes at the client's address and writes nowhere else, and gives its slot
    back on every path; the pool never exceeds its limit nor hands a slot out twice; the process uses the server only while it exists and
    gives every slot back once.
  \<^item> Exchange: a message is called complete only if it is; a well-behaved peer leads to a complete one; the
    completion decision is characterised on receipts and traced back to the bytes on the wire.
  \<^item> Data: round trips of token, Base64, manifest; what a signature covers; where an object path may lead.
  \<^item> Client: what exit status 0 means; every buffer, client object and registration is used and released in the order the libraries demand.
  \<^item> Probes: slots lie inside the arena; a PASS implies the memory contents, receipts and return values it claims, for every
    experiment; a FAIL blamed on concurrency had witnessed overlap; while the hold is up nothing is read, and once it is down exactly one qualified message settled the GET, also
    under arbitrary interleaving of callbacks; an arena is freed only after its registration is gone; the sweep computes the maximal overlap.
    Exit status 0 of the rig probe means a PASS with all output written, and across parent and child of the exit experiment a settled GET. The
    loader reading is about the files mapped, by device and inode.

  \<^bold>\<open>Bounds and fuel.\<close> Loops over data are structural or have a measure. The server's transfer loop has as fuel the number of bytes to
  send, which every iteration reduces; \<open>handle_get_returns_slot\<close> and \<open>callback_succeeds\<close> show that it is enough. Loops that wait for
  the outside end with their event list: an exhausted list is the deadline, or a peer that went silent. The concurrent experiment runs the given number of
  rounds over at most 256 slots.

  \<^bold>\<open>Not modelled.\<close> CUDA, the cuObject SDK, cpp-httplib, OpenSSL, the kernel and the file system are parameters. Wall-clock rates, log
  lines and diagnostic records other than attempts and results are left out, as are usage texts and the self tests (\<^verbatim>\<open>tests/\<close>),
  which exercise the functions modelled here. The RDMA library's word on how many bytes it wrote is a hypothesis where a property needs it (\<open>reports_sizes\<close>). Memory is taken to suffice except where the source
  handles its exhaustion and the model says so.
\<close>

section \<open>Signing and sending\<close>

lemma unreserved_pchar: "unreserved True c \<or> c = CHR ''%'' \<Longrightarrow> is_pchar_or_delim c"
  by (auto simp: unreserved_def is_pchar_or_delim_def)



section \<open>From the object store to the output file\<close>

lemma memory_with_read:
  assumes "length bs \<le> 2 ^ 64"
  shows "map (\<lambda>i. memory_with a bs mem (a + word_of_nat i)) [0..<length bs] = bs"
  using assms by (intro nth_equalityI) (auto simp: memory_with_def)

text \<open>C2. What the client writes to its output file is the object. When the process exits with a dump of whole-object GETs, the last of
  which succeeded in a memory no one has written since, the file holds the object's bytes, from the server's disk through
  chunked reads, RDMA writes, the registered buffer and the copy to the host.\<close>

theorem dumped_object:
  assumes run: "client_process sa bufs_first args objs max_size returns sched mem = (ops, Process_exit code (Some out))" "ca_range_size args = 0"
    and disc: "discover_objects (served_head SHA256 HMAC now cfg env link hst (cl_proto c) host port) bucket ks [] 0 = Some (objs, max_size)"
    and heads: "\<forall>k \<in> set ks. head_carried SHA256 HMAC now (cl_proto c) host port (''/'' @ bucket @ ''/'' @ k) link" "ks \<noteq> []"
    and q: "q = last (snd (worker objs 0 (returns 0)))" "ctx = client_context c bucket (bq_key q) (bq_range q)"
    and same: "fst (fd_for cfg env st (path_key (gc_path ctx))) = fst (fd_for cfg env (hst (gc_path ctx)) (path_key (gc_path ctx)))"
    and size: "\<forall>e. fst (fd_for cfg env st (path_key (gc_path ctx))) = Some e \<longrightarrow> length (ge_file env (fe_fd e)) = unat (fe_size e)"
    and get: "Server.env_ok cfg env" "get_carried SHA256 HMAC now (cl_proto c) ctx (to_hex (unat (ptr_of sa 0)) @ '':'' @ rest) link"
      "0 \<le> get_callback_impl SHA256 HMAC now (control_exchange cfg env link st GET) (Some ctx)
         (Some (to_hex (unat (ptr_of sa 0)) @ '':'' @ rest)) (bq_size q)"
    and mem: "mem = memory_after (served_calls cfg env (path_key (gc_path ctx)) (bq_range q)
          (encode_rdma_token (to_hex (unat (ptr_of sa 0)) @ '':'' @ rest) (po_token_encoding (cl_proto c))) st) mem0"
  shows "\<exists>e. fst (fd_for cfg env st (path_key (gc_path ctx))) = Some e \<and> out = ge_file env (fe_fd e)"
proof -
  obtain ob where f: "finish_main args objs (run_benchmark objs 0 returns (nat (ca_threads args))) = (code, Some (ob, od_size ob))"
    and out: "out = map (\<lambda>i. mem (ptr_of sa 0 + word_of_nat i)) [0..<unat (od_size ob)]"
    using process_dump [OF run(1)] unfolding run(2) by blast
  have w: "snd (worker objs 0 (returns 0)) \<noteq> []" and last: "q = xfer_request 0 ob"
    using dump_last [OF f] q(1) by auto
  have "q \<in> set (warm_up objs 0) \<union> set (snd (worker objs 0 (returns 0)))" using w last_in_set [OF w] q(1) by simp
  from benchmark_get_lands [OF disc heads this q(2) same get]
  obtain e where e: "fst (fd_for cfg env st (path_key (gc_path ctx))) = Some e"
    and m: "mem = memory_with (ptr_of sa 0) (take (unat (bq_size q)) (ge_file env (fe_fd e))) mem0"
    and sz: "bq_size q = fe_size e"
    unfolding mem by auto
  have len: "length (ge_file env (fe_fd e)) = unat (od_size ob)" using size e sz by (simp add: last xfer_request_def)
  then have "mem = memory_with (ptr_of sa 0) (ge_file env (fe_fd e)) mem0" using m by (simp add: last xfer_request_def)
  then have "out = ge_file env (fe_fd e)"
    using memory_with_read [of "ge_file env (fe_fd e)" "ptr_of sa 0" mem0] len unat_u64_lt [of "od_size ob"] unfolding out by simp
  then show ?thesis using e by blast
qed

theorem dumped_object_witness:
  "\<exists>ops mem. client_process \<lparr>sa_alloc = (\<lambda>_. (0, 10)), sa_open = (\<lambda>_. True), sa_register = (\<lambda>_. 0), sa_copy = 0\<rparr> True
     (default_args\<lparr>ca_out := ''f''\<rparr>) [demo_obj] 1 (\<lambda>_. [1]) [] mem = (ops, Process_exit 0 (Some ''x''))"
proof -
  let ?sa = "\<lparr>sa_alloc = (\<lambda>_. (0, 10)), sa_open = (\<lambda>_. True), sa_register = (\<lambda>_. 0), sa_copy = 0\<rparr> :: sdk_answers"
  let ?args = "default_args\<lparr>ca_out := ''f''\<rparr>"
  define mem where "mem = memory_after (served_calls demo_cfg demo_one (path_key (gc_path demo_ctx)) [] (encode_rdma_token demo_desc Verbatim) demo_server) (\<lambda>_. NUL)"
  have q: "last (snd (worker [demo_obj] 0 [1])) = \<lparr>bq_key = ''k'', bq_size = 1, bq_range = []\<rparr>"
    by (simp add: worker_def xfer_request_def Let_def)
  have "\<exists>ops out. client_process ?sa True ?args [demo_obj] 1 (\<lambda>_. [1]) [] mem = (ops, Process_exit 0 (Some out))"
    by (simp add: client_process_def default_args_def parse_mode_def buffer_new_eq client_new_def cuobj_check_def finish_main_def run_benchmark_def worker_def
        to_host_def Let_def)
  then obtain ops out where run: "client_process ?sa True ?args [demo_obj] 1 (\<lambda>_. [1]) [] mem = (ops, Process_exit 0 (Some out))" by blast
  have "out = ''x''"
    using dumped_object [OF run _ demo_discovery _ _ refl refl _ _ demo_one_ok(1), of demo_server "''0''" "\<lambda>_. NUL"] demo_head_carried demo_get_carried demo_callback
    by (auto simp: q demo_one_fd demo_one_ok(2) demo_proto(2) mem_def default_args_def simp del: append.simps)
  then show ?thesis using run by blast
qed

end
